(* ===== verification/Prelude.thy ===== *)
theory Prelude
  imports Main "HOL-Library.Word"
begin

text \<open>
  Shared vocabulary of the development: the machine integer types of the Rust sources, the
  outcome type that makes a panic a value, and the few operations of the Rust standard library
  the sources use on integers and strings (saturating addition, UTF-8 slicing and trimming,
  decimal printing and \<open>str::parse\<close>), with the lemmas about them that the components share.

  A Rust \<open>String\<close> is its UTF-8 byte sequence, so a HOL \<^typ>\<open>string\<close> is used with one
  \<^typ>\<open>char\<close> per byte: lengths and slices count bytes, as they do in Rust.
\<close>

section \<open>Machine integers\<close>

type_synonym u8 = "8 word"
type_synonym u16 = "16 word"
type_synonym u32 = "32 word"
type_synonym u64 = "64 word"
type_synonym usize = "64 word"

definition saturating_add :: "'a::len word \<Rightarrow> 'a word \<Rightarrow> 'a word" where
  "saturating_add a b = (if unat a + unat b < 2 ^ LENGTH('a) then a + b else - 1)"

definition saturating_sub :: "'a::len word \<Rightarrow> 'a word \<Rightarrow> 'a word" where
  "saturating_sub a b = (if b \<le> a then a - b else 0)"

section \<open>Panics and results\<close>

text \<open>
  \<open>Ret x\<close> is a computation that returns; \<open>Panic\<close> one that panics (an index or a slice out of
  range). A Rust \<open>Result\<close> is a sum with the error on the left.
\<close>

datatype 'a outcome = Ret 'a | Panic

fun bind_outcome :: "'a outcome \<Rightarrow> ('a \<Rightarrow> 'b outcome) \<Rightarrow> 'b outcome" where
  "bind_outcome (Ret x) f = f x"
| "bind_outcome Panic f = Panic"

fun map_outcome :: "('a \<Rightarrow> 'b) \<Rightarrow> 'a outcome \<Rightarrow> 'b outcome" where
  "map_outcome f (Ret x) = Ret (f x)"
| "map_outcome f Panic = Panic"

text \<open>The \<open>?\<close> operator: an error of the result on the left ends the computation.\<close>

fun try_result :: "'e + 'a \<Rightarrow> ('a \<Rightarrow> 'e + 'b) \<Rightarrow> 'e + 'b" where
  "try_result (Inl e) f = Inl e"
| "try_result (Inr x) f = f x"

definition try_outcome :: "('e + 'a) outcome \<Rightarrow> ('a \<Rightarrow> ('e + 'b) outcome) \<Rightarrow> ('e + 'b) outcome" where
  "try_outcome r f = bind_outcome r (\<lambda>s. case s of Inl e \<Rightarrow> Ret (Inl e) | Inr x \<Rightarrow> f x)"

text \<open>\<open>v[i] = x\<close> on a \<open>Vec\<close>: a panic when the index is out of range.\<close>

definition vec_store :: "'a list \<Rightarrow> nat \<Rightarrow> 'a \<Rightarrow> 'a list outcome" where
  "vec_store xs i x = (if i < length xs then Ret (xs[i := x]) else Panic)"

section \<open>Strings\<close>

text \<open>\<open>str::is_char_boundary\<close>: not in the middle of a UTF-8 sequence.\<close>

definition is_continuation :: "char \<Rightarrow> bool" where
  "is_continuation c \<longleftrightarrow> (of_char c :: nat) div 64 = 2"

definition char_boundary :: "string \<Rightarrow> nat \<Rightarrow> bool" where
  "char_boundary s i \<longleftrightarrow>
     i = 0 \<or> i = length s \<or> (i < length s \<and> \<not> is_continuation (s ! i))"

text \<open>The UTF-8 encodings of the characters with Unicode property \<open>White_Space\<close>.\<close>

definition ws_utf8 :: "string list" where
  "ws_utf8 = map (map char_of)
     ([[9], [10], [11], [12], [13], [32], [0xC2, 0x85], [0xC2, 0xA0], [0xE1, 0x9A, 0x80],
       [0xE2, 0x80, 0x80], [0xE2, 0x80, 0x81], [0xE2, 0x80, 0x82], [0xE2, 0x80, 0x83],
       [0xE2, 0x80, 0x84], [0xE2, 0x80, 0x85], [0xE2, 0x80, 0x86], [0xE2, 0x80, 0x87],
       [0xE2, 0x80, 0x88], [0xE2, 0x80, 0x89], [0xE2, 0x80, 0x8A], [0xE2, 0x80, 0xA8],
       [0xE2, 0x80, 0xA9], [0xE2, 0x80, 0xAF], [0xE2, 0x81, 0x9F], [0xE3, 0x80, 0x80]]
      :: nat list list)"

definition lead_len :: "string list \<Rightarrow> string \<Rightarrow> nat" where
  "lead_len pats s =
     (case find (\<lambda>p. take (length p) s = p) pats of None \<Rightarrow> 0 | Some p \<Rightarrow> length p)"

function strip_lead :: "string list \<Rightarrow> string \<Rightarrow> string" where
  "strip_lead pats s =
     (if s = [] \<or> lead_len pats s = 0 then s else strip_lead pats (drop (lead_len pats s) s))"
  by pat_completeness auto
termination
  by (relation "measure (\<lambda>(pats, s). length s)") auto

declare strip_lead.simps [simp del]

definition trim :: "string \<Rightarrow> string" where
  "trim s = rev (strip_lead (map rev ws_utf8) (rev (strip_lead ws_utf8 s)))"

text \<open>\<open>to_lowercase\<close> on an ASCII character.\<close>

definition ascii_lower :: "char \<Rightarrow> char" where
  "ascii_lower c =
     (let n = (of_char c :: nat) in if 65 \<le> n \<and> n \<le> 90 then char_of (n + 32) else c)"

fun str_contains :: "string \<Rightarrow> string \<Rightarrow> bool" where
  "str_contains p [] \<longleftrightarrow> p = []"
| "str_contains p (c # cs) \<longleftrightarrow> take (length p) (c # cs) = p \<or> str_contains p cs"

text \<open>\<open>str::parse\<close> for an unsigned type: an optional plus sign, then at least one digit.\<close>

definition digit_val :: "char \<Rightarrow> nat option" where
  "digit_val c =
     (let n = (of_char c :: nat) in if 48 \<le> n \<and> n \<le> 57 then Some (n - 48) else None)"

fun parse_digits :: "nat \<Rightarrow> string \<Rightarrow> nat option" where
  "parse_digits acc [] = Some acc"
| "parse_digits acc (c # cs) =
     (case digit_val c of None \<Rightarrow> None | Some d \<Rightarrow> parse_digits (acc * 10 + d) cs)"

definition strip_plus :: "string \<Rightarrow> string" where
  "strip_plus s = (case s of [] \<Rightarrow> [] | c # cs \<Rightarrow> if c = CHR ''+'' then cs else s)"

definition parse_unsigned :: "nat \<Rightarrow> string \<Rightarrow> nat option" where
  "parse_unsigned maxv s =
     (let ds = strip_plus s in
      if ds = [] then None
      else case parse_digits 0 ds of
             None \<Rightarrow> None
           | Some n \<Rightarrow> if n \<le> maxv then Some n else None)"

definition digit_char :: "nat \<Rightarrow> char" where
  "digit_char d = char_of (48 + d)"

fun show_nat :: "nat \<Rightarrow> string" where
  "show_nat n = (if n < 10 then [digit_char n] else show_nat (n div 10) @ [digit_char (n mod 10)])"

declare show_nat.simps [simp del]

text \<open>Printable ASCII: a string that begins and ends with it is its own trimming.\<close>

definition ascii_graphic :: "char \<Rightarrow> bool" where
  "ascii_graphic c \<longleftrightarrow> 33 \<le> (of_char c :: nat) \<and> (of_char c :: nat) \<le> 126"

section \<open>Lemmas\<close>

lemma map_outcome_id [simp]: "map_outcome (\<lambda>x. x) r = r"
  by (cases r) simp_all

lemma map_outcome_eq_Ret: "map_outcome f r = Ret y \<longleftrightarrow> (\<exists>x. r = Ret x \<and> f x = y)"
  by (cases r) simp_all

lemma map_outcome_eq_Panic [simp]: "map_outcome f r = Panic \<longleftrightarrow> r = Panic"
  by (cases r) simp_all

lemma bind_outcome_eq_Ret [simp]:
  "bind_outcome r f = Ret y \<longleftrightarrow> (\<exists>x. r = Ret x \<and> f x = Ret y)"
  by (cases r) simp_all

lemma bind_outcome_eq_Panic [simp]:
  "bind_outcome r f = Panic \<longleftrightarrow> r = Panic \<or> (\<exists>x. r = Ret x \<and> f x = Panic)"
  by (cases r) simp_all

lemma ex_split_Cons:
  "(\<exists>xs1 x xs2. a # as = xs1 @ x # xs2 \<and> R xs1 x) \<longleftrightarrow>
     R [] a \<or> (\<exists>xs1 x xs2. as = xs1 @ x # xs2 \<and> R (a # xs1) x)"
  by (auto simp: Cons_eq_append_conv)

lemma try_result_eq_Inr [simp]: "try_result r f = Inr y \<longleftrightarrow> (\<exists>x. r = Inr x \<and> f x = Inr y)"
  by (cases r) simp_all

lemma try_result_eq_Inl [simp]:
  "try_result r f = Inl e \<longleftrightarrow> r = Inl e \<or> (\<exists>x. r = Inr x \<and> f x = Inl e)"
  by (cases r) simp_all

lemma try_outcome_simps [simp]:
  "try_outcome (Ret (Inl e)) f = Ret (Inl e)"
  "try_outcome (Ret (Inr x)) f = f x"
  "try_outcome Panic f = Panic"
  by (simp_all add: try_outcome_def)

lemma try_outcome_eq_Inr [simp]:
  "try_outcome r f = Ret (Inr y) \<longleftrightarrow> (\<exists>x. r = Ret (Inr x) \<and> f x = Ret (Inr y))"
proof (cases r)
  case (Ret s)
  then show ?thesis by (cases s) (simp_all add: try_outcome_def)
qed (simp add: try_outcome_def)

lemma try_outcome_eq_Inl [simp]:
  "try_outcome r f = Ret (Inl e) \<longleftrightarrow> r = Ret (Inl e) \<or> (\<exists>x. r = Ret (Inr x) \<and> f x = Ret (Inl e))"
proof (cases r)
  case (Ret s)
  then show ?thesis by (cases s) (simp_all add: try_outcome_def)
qed (simp add: try_outcome_def)

lemma try_outcome_eq_Panic [simp]:
  "try_outcome r f = Panic \<longleftrightarrow> r = Panic \<or> (\<exists>x. r = Ret (Inr x) \<and> f x = Panic)"
proof (cases r)
  case (Ret s)
  then show ?thesis by (cases s) (simp_all add: try_outcome_def)
qed (simp add: try_outcome_def)

lemma vec_store_Ret [simp]: "vec_store xs i x = Ret ys \<longleftrightarrow> i < length xs \<and> ys = xs[i := x]"
  by (auto simp: vec_store_def)

lemma vec_store_Panic [simp]: "vec_store xs i x = Panic \<longleftrightarrow> length xs \<le> i"
  by (auto simp: vec_store_def)

lemma unat_saturating_add:
  "unat (saturating_add a b) = min (unat a + unat b) (2 ^ LENGTH('a) - 1)"
  for a b :: "'a::len word"
proof (cases "unat a + unat b < 2 ^ LENGTH('a)")
  case True
  then show ?thesis by (simp add: saturating_add_def unat_word_ariths)
next
  case False
  then show ?thesis by (simp add: saturating_add_def unsigned_minus_1_eq_mask mask_eq_exp_minus_1)
qed

lemma unat_saturating_sub: "unat (saturating_sub a b) = unat a - unat b"
  by (simp add: saturating_sub_def unat_sub word_le_nat_alt)

lemma unat_of_nat_u16 [simp]: "n < 65536 \<Longrightarrow> unat (word_of_nat n :: u16) = n"
  by (simp add: unat_of_nat)

lemma unat_of_nat_u64 [simp]: "n < 2 ^ 64 \<Longrightarrow> unat (word_of_nat n :: u64) = n"
  by (simp add: unat_of_nat)

lemma unat_u16_less [simp]: "unat (w :: u16) < 65536"
  by (rule order_less_le_trans [OF unsigned_less]) simp

lemma unat_u8_less [simp]: "unat (w :: u8) < 256"
  by (rule order_less_le_trans [OF unsigned_less]) simp

lemma unat_u32_less [simp]: "unat (w :: u32) < 4294967296"
  by (rule order_less_le_trans [OF unsigned_less]) simp

lemma unat_u64_less [simp]: "unat (w :: u64) < 18446744073709551616"
  by (rule order_less_le_trans [OF unsigned_less]) simp

lemma strip_lead_id: "lead_len pats s = 0 \<Longrightarrow> strip_lead pats s = s"
  by (simp add: strip_lead.simps [of pats s])

lemma lead_len_zero:
  assumes "s \<noteq> []" and "\<forall>p \<in> set pats. p \<noteq> [] \<and> hd p \<noteq> hd s"
  shows "lead_len pats s = 0"
proof -
  have "take (length p) s \<noteq> p" if "p \<in> set pats" for p
  proof -
    from assms that have "p \<noteq> []" "hd p \<noteq> hd s" by auto
    then show ?thesis using assms(1) by (cases p; cases s) auto
  qed
  then have "find (\<lambda>p. take (length p) s = p) pats = None"
    by (auto simp: find_None_iff)
  then show ?thesis by (simp add: lead_len_def)
qed

lemma of_char_ws_utf8_hd: "p \<in> set ws_utf8 \<Longrightarrow> p \<noteq> [] \<and> \<not> ascii_graphic (hd p)"
  by (auto simp: ws_utf8_def ascii_graphic_def)

lemma of_char_ws_utf8_last: "p \<in> set ws_utf8 \<Longrightarrow> p \<noteq> [] \<and> \<not> ascii_graphic (last p)"
  by (auto simp: ws_utf8_def ascii_graphic_def)

lemma trim_graphic:
  assumes "s \<noteq> []" and "ascii_graphic (hd s)" and "ascii_graphic (last s)"
  shows "trim s = s"
proof -
  have "lead_len ws_utf8 s = 0"
    using assms of_char_ws_utf8_hd by (intro lead_len_zero) (auto, metis)
  moreover have "lead_len (map rev ws_utf8) (rev s) = 0"
    using assms of_char_ws_utf8_last by (intro lead_len_zero) (auto simp: hd_rev, metis)
  ultimately show ?thesis by (simp add: trim_def strip_lead_id)
qed

lemma digit_val_digit_char [simp]: "d < 10 \<Longrightarrow> digit_val (digit_char d) = Some d"
  by (simp add: digit_val_def digit_char_def)

lemma parse_digits_append:
  "parse_digits acc (xs @ ys) = Option.bind (parse_digits acc xs) (\<lambda>a. parse_digits a ys)"
  by (induction xs arbitrary: acc) (auto split: option.splits)

lemma parse_digits_show_nat [simp]: "parse_digits 0 (show_nat n) = Some n"
proof (induction n rule: show_nat.induct)
  case (1 n)
  then show ?case
    by (subst show_nat.simps) (auto simp: parse_digits_append)
qed

lemma show_nat_not_Nil [simp]: "show_nat n \<noteq> []"
  by (subst show_nat.simps) simp

lemma set_show_nat: "c \<in> set (show_nat n) \<Longrightarrow> \<exists>d<10. c = digit_char d"
proof (induction n rule: show_nat.induct)
  case (1 n)
  then show ?case
    by (cases "n < 10") (force simp: show_nat.simps [of n])+
qed

lemma show_nat_inject [simp]: "show_nat m = show_nat n \<longleftrightarrow> m = n"
  by (metis option.inject parse_digits_show_nat)

lemma ascii_graphic_digit: "d < 10 \<Longrightarrow> ascii_graphic (digit_char d)"
  by (simp add: ascii_graphic_def digit_char_def)

lemma digit_char_not_plus: "d < 10 \<Longrightarrow> digit_char d \<noteq> CHR ''+''"
proof
  assume "d < 10" and "digit_char d = CHR ''+''"
  then have "(of_char (digit_char d) :: nat) = 43" by simp
  with \<open>d < 10\<close> show False by (simp add: digit_char_def)
qed

lemma strip_plus_show_nat [simp]: "strip_plus (show_nat n) = show_nat n"
proof (cases "show_nat n")
  case (Cons c cs)
  with set_show_nat [of c n] digit_char_not_plus show ?thesis
    by (auto simp: strip_plus_def)
qed simp

lemma parse_unsigned_show_nat: "n \<le> m \<Longrightarrow> parse_unsigned m (show_nat n) = Some n"
  by (simp add: parse_unsigned_def Let_def)

lemma parse_unsigned_bound: "parse_unsigned m s = Some n \<Longrightarrow> n \<le> m"
  by (auto simp: parse_unsigned_def Let_def split: if_splits option.splits)

lemma parse_unsigned_narrow:
  "m' \<le> m \<Longrightarrow> parse_unsigned m' s =
     (case parse_unsigned m s of None \<Rightarrow> None | Some n \<Rightarrow> if n \<le> m' then Some n else None)"
  by (auto simp: parse_unsigned_def Let_def split: option.split)

lemma parse_unsigned_mono:
  "parse_unsigned m s = Some n \<Longrightarrow> n \<le> m' \<Longrightarrow> parse_unsigned m' s = Some n"
  by (auto simp: parse_unsigned_def Let_def split: if_splits option.splits)


end
