(* ===== verification/Float_Bits.thy ===== *)
theory Float_Bits
  imports Prelude
begin

text \<open>
  The byte strings and floating-point values of the sources: \<open>to_be_bytes\<close> and
  \<open>from_be_bytes\<close>, and Rust's \<open>f64\<close> and \<open>f32\<close> as IEEE 754 bit patterns with the casts
  \<open>data_conversion.rs\<close> applies to them (integer to \<open>f64\<close>, the saturating \<open>f64\<close> to integer cast,
  widening and narrowing between the two formats, rounding to nearest with ties to even).

  A bit pattern holds the sign, the biased exponent and the fraction; the definitions compute
  on these as naturals. A NaN is quieted by a widening or narrowing cast and keeps its sign and
  leading payload bits, as the hardware instructions do (Rust leaves the payload open; no lemma
  here depends on it).
\<close>


section \<open>Big-endian bytes\<close>

fun be_bytes :: "nat \<Rightarrow> nat \<Rightarrow> u8 list" where
  "be_bytes 0 n = []"
| "be_bytes (Suc k) n = be_bytes k (n div 256) @ [word_of_nat n]"

definition be_value :: "u8 list \<Rightarrow> nat" where
  "be_value bs = foldl (\<lambda>acc b. acc * 256 + unat b) 0 bs"

section \<open>Binary64 and binary32\<close>

datatype f64 = F64 (f64_bits: u64)
datatype f32 = F32 (f32_bits: u32)

definition f64_neg :: "f64 \<Rightarrow> bool" where
  "f64_neg x \<longleftrightarrow> 2 ^ 63 \<le> unat (f64_bits x)"

definition f64_exp :: "f64 \<Rightarrow> nat" where
  "f64_exp x = unat (f64_bits x) div 2 ^ 52 mod 2 ^ 11"

definition f64_frac :: "f64 \<Rightarrow> nat" where
  "f64_frac x = unat (f64_bits x) mod 2 ^ 52"

definition f64_make :: "bool \<Rightarrow> nat \<Rightarrow> f64" where
  "f64_make neg m = F64 (word_of_nat ((if neg then 2 ^ 63 else 0) + m))"

definition f64_is_nan :: "f64 \<Rightarrow> bool" where
  "f64_is_nan x \<longleftrightarrow> f64_exp x = 2047 \<and> f64_frac x \<noteq> 0"

definition f64_is_finite :: "f64 \<Rightarrow> bool" where
  "f64_is_finite x \<longleftrightarrow> f64_exp x \<noteq> 2047"

definition f64_is_zero :: "f64 \<Rightarrow> bool" where
  "f64_is_zero x \<longleftrightarrow> f64_exp x = 0 \<and> f64_frac x = 0"

definition f64_significand :: "f64 \<Rightarrow> nat" where
  "f64_significand x = (if f64_exp x = 0 then f64_frac x else 2 ^ 52 + f64_frac x)"

definition f32_neg :: "f32 \<Rightarrow> bool" where
  "f32_neg x \<longleftrightarrow> 2 ^ 31 \<le> unat (f32_bits x)"

definition f32_exp :: "f32 \<Rightarrow> nat" where
  "f32_exp x = unat (f32_bits x) div 2 ^ 23 mod 2 ^ 8"

definition f32_frac :: "f32 \<Rightarrow> nat" where
  "f32_frac x = unat (f32_bits x) mod 2 ^ 23"

definition f32_make :: "bool \<Rightarrow> nat \<Rightarrow> f32" where
  "f32_make neg m = F32 (word_of_nat ((if neg then 2 ^ 31 else 0) + m))"

definition f32_is_nan :: "f32 \<Rightarrow> bool" where
  "f32_is_nan x \<longleftrightarrow> f32_exp x = 255 \<and> f32_frac x \<noteq> 0"

fun bit_len :: "nat \<Rightarrow> nat" where
  "bit_len n = (if n = 0 then 0 else Suc (bit_len (n div 2)))"

declare bit_len.simps [simp del]

text \<open>\<open>n / 2 ^ k\<close> rounded to the nearest integer, ties to even.\<close>

definition round_shift :: "nat \<Rightarrow> nat \<Rightarrow> nat" where
  "round_shift n k =
     (let q = n div 2 ^ k; r = n mod 2 ^ k
      in if 2 * r < 2 ^ k \<or> (2 * r = 2 ^ k \<and> even q) then q else Suc q)"

definition f64_of_nat :: "nat \<Rightarrow> f64" where
  "f64_of_nat n =
     (if n = 0 then f64_make False 0
      else let k = bit_len n - 1;
               m = (if k \<le> 52 then n * 2 ^ (52 - k) else round_shift n (k - 52))
           in f64_make False ((k + 1022) * 2 ^ 52 + m))"

definition f64_of_int :: "int \<Rightarrow> f64" where
  "f64_of_int i =
     (if 0 \<le> i then f64_of_nat (nat i)
      else f64_make True (unat (f64_bits (f64_of_nat (nat (- i))))))"

definition f64_trunc :: "f64 \<Rightarrow> int" where
  "f64_trunc x =
     (let e = max (f64_exp x) 1; m = f64_significand x;
          a = (if 1075 \<le> e then m * 2 ^ (e - 1075) else m div 2 ^ (1075 - e))
      in if f64_neg x then - int a else int a)"

definition f64_to_int_sat :: "int \<Rightarrow> int \<Rightarrow> f64 \<Rightarrow> int" where
  "f64_to_int_sat lo hi x =
     (if f64_is_nan x then 0
      else if \<not> f64_is_finite x then (if f64_neg x then lo else hi)
      else max lo (min hi (f64_trunc x)))"

definition f32_to_f64 :: "f32 \<Rightarrow> f64" where
  "f32_to_f64 x =
     (let e = f32_exp x; f = f32_frac x in
      f64_make (f32_neg x)
        (if e = 255 then
           2047 * 2 ^ 52 + (if f = 0 then 0 else if f < 2 ^ 22 then 2 ^ 51 + f * 2 ^ 29 else f * 2 ^ 29)
         else if e = 0 then
           (if f = 0 then 0
            else let k = bit_len f - 1 in (k + 873) * 2 ^ 52 + f * 2 ^ (52 - k))
         else (e + 896) * 2 ^ 52 + f * 2 ^ 29))"

definition f64_to_f32 :: "f64 \<Rightarrow> f32" where
  "f64_to_f32 x =
     (let e = f64_exp x; f = f64_frac x in
      f32_make (f64_neg x)
        (if e = 2047 then
           255 * 2 ^ 23 + (if f = 0 then 0 else if f < 2 ^ 51 then 2 ^ 22 + f div 2 ^ 29 else f div 2 ^ 29)
         else
           let k = (if e \<le> 897 then 926 - max e 1 else 29);
               r = (e - 897) * 2 ^ 23 + round_shift (f64_significand x) k
           in min r (255 * 2 ^ 23)))"

section \<open>Lemmas on bytes\<close>

lemma length_be_bytes [simp]: "length (be_bytes k n) = k"
  by (induction k arbitrary: n) simp_all

lemma be_value_Nil [simp]: "be_value [] = 0"
  by (simp add: be_value_def)

lemma be_value_snoc [simp]: "be_value (bs @ [b]) = be_value bs * 256 + unat b"
  by (simp add: be_value_def)

lemma be_value_append: "be_value (xs @ ys) = be_value xs * 256 ^ length ys + be_value ys"
  by (induction ys rule: rev_induct) (simp_all add: algebra_simps flip: append_assoc)

lemma be_value_less: "be_value bs < 256 ^ length bs"
proof (induction bs rule: rev_induct)
  case (snoc b bs)
  have "be_value bs * 256 + unat b < (be_value bs + 1) * 256" by simp
  also have "\<dots> \<le> 256 ^ length bs * 256"
    using snoc by (intro mult_right_mono) simp_all
  finally show ?case by simp
qed simp

lemma be_value_be_bytes [simp]: "be_value (be_bytes k n) = n mod 256 ^ k"
proof (induction k arbitrary: n)
  case (Suc k)
  have "n mod (256 * 256 ^ k) = 256 * (n div 256 mod 256 ^ k) + n mod 256"
    by (rule mod_mult2_eq)
  with Suc show ?case by (simp add: unat_of_nat)
qed simp

lemma be_bytes_be_value [simp]: "length bs = k \<Longrightarrow> be_bytes k (be_value bs) = bs"
proof (induction k arbitrary: bs)
  case (Suc k)
  then obtain cs b where bs: "bs = cs @ [b]" "length cs = k"
    by (cases bs rule: rev_cases) auto
  have "word_of_nat (be_value cs * 256) = (0 :: u8)"
    by (simp add: word_of_nat_eq_0_iff del: of_nat_mult)
  with bs Suc.IH show ?case by (simp del: of_nat_mult)
qed simp

section \<open>Lemmas on bit patterns\<close>

lemma bit_len_bounds:
  assumes "0 < n"
  shows "2 ^ (bit_len n - 1) \<le> n \<and> n < 2 ^ bit_len n \<and> 0 < bit_len n"
  using assms
proof (induction n rule: bit_len.induct)
  case (1 n)
  show ?case
  proof (cases "n = 1")
    case True
    then show ?thesis by (simp add: bit_len.simps)
  next
    case False
    with "1.prems" have "0 < n div 2" by (simp add: div_greater_zero_iff)
    with "1" have IH: "2 ^ (bit_len (n div 2) - 1) \<le> n div 2" "n div 2 < 2 ^ bit_len (n div 2)"
      "0 < bit_len (n div 2)" by auto
    then obtain j where j: "bit_len (n div 2) = Suc j" by (cases "bit_len (n div 2)") auto
    from "1.prems" have "bit_len n = Suc (Suc j)" by (simp add: bit_len.simps [of n] j)
    moreover obtain p :: nat where p: "p = 2 ^ j" by simp
    ultimately show ?thesis using IH unfolding j by (simp flip: p) arith
  qed
qed

lemma unat_f64_make:
  "m < 2 ^ 63 \<Longrightarrow> unat (f64_bits (f64_make s m)) = (if s then 2 ^ 63 else 0) + m"
  by (simp add: f64_make_def unat_of_nat del: of_nat_add)

lemma f64_make_fields [simp]:
  assumes "m < 2 ^ 63"
  shows "f64_neg (f64_make s m) \<longleftrightarrow> s"
    and "f64_exp (f64_make s m) = m div 2 ^ 52"
    and "f64_frac (f64_make s m) = m mod 2 ^ 52"
proof -
  from assms have d: "m div 2 ^ 52 < 2048" by (simp add: less_mult_imp_div_less)
  show "f64_neg (f64_make s m) \<longleftrightarrow> s"
    using assms by (simp add: f64_neg_def unat_f64_make)
  have "(2 ^ 63 + m) div 2 ^ 52 = 2048 + m div 2 ^ 52"
    using div_mult_self1 [of "2 ^ 52" m 2048] by simp
  then show "f64_exp (f64_make s m) = m div 2 ^ 52"
    using assms d by (simp add: f64_exp_def unat_f64_make)
  have "(2 ^ 63 + m) mod 2 ^ 52 = m mod 2 ^ 52"
    using mod_mult_self1 [of m 2048 "2 ^ 52"] by (simp add: add.commute)
  then show "f64_frac (f64_make s m) = m mod 2 ^ 52"
    using assms by (simp add: f64_frac_def unat_f64_make)
qed

lemma f64_make_parts:
  assumes "E < 2048" and "F < 2 ^ 52"
  shows "f64_neg (f64_make s (E * 2 ^ 52 + F)) \<longleftrightarrow> s"
    and "f64_exp (f64_make s (E * 2 ^ 52 + F)) = E"
    and "f64_frac (f64_make s (E * 2 ^ 52 + F)) = F"
proof -
  have "E * 2 ^ 52 \<le> 2047 * 2 ^ 52" using assms(1) by (intro mult_right_mono) simp_all
  with assms(2) have m: "E * 2 ^ 52 + F < 2 ^ 63" by simp
  have "(E * 2 ^ 52 + F) div 2 ^ 52 = E" "(E * 2 ^ 52 + F) mod 2 ^ 52 = F"
    using assms(2) by (simp_all only: div_mult_self3 mod_mult_self3 div_less mod_less)
  then show "f64_neg (f64_make s (E * 2 ^ 52 + F)) \<longleftrightarrow> s"
    "f64_exp (f64_make s (E * 2 ^ 52 + F)) = E"
    "f64_frac (f64_make s (E * 2 ^ 52 + F)) = F"
    using m by (simp_all only: f64_make_fields)
qed

lemma unat_f32_make:
  "m < 2 ^ 31 \<Longrightarrow> unat (f32_bits (f32_make s m)) = (if s then 2 ^ 31 else 0) + m"
  by (simp add: f32_make_def unat_of_nat del: of_nat_add)

lemma f32_bits_split:
  "unat (f32_bits x) = (if f32_neg x then 2 ^ 31 else 0) + f32_exp x * 2 ^ 23 + f32_frac x"
proof -
  define u where "u = unat (f32_bits x)"
  define q r where "q = u div 8388608" and "r = u mod 8388608"
  have u: "u < 4294967296" by (simp add: u_def)
  have uqr: "u = q * 8388608 + r" and r: "r < 8388608"
    by (simp_all add: q_def r_def)
  have f: "f32_neg x \<longleftrightarrow> 2147483648 \<le> u" "f32_exp x = q mod 256" "f32_frac x = r"
    by (simp_all add: f32_neg_def f32_exp_def f32_frac_def u_def q_def r_def)
  have "u = (if f32_neg x then 2 ^ 31 else 0) + f32_exp x * 2 ^ 23 + f32_frac x"
  proof (cases "q < 256")
    case True
    with uqr r have "\<not> 2147483648 \<le> u" by linarith
    with True show ?thesis by (simp add: f, simp add: uqr)
  next
    case False
    with u uqr r have q: "2147483648 \<le> u" "q < 512" by linarith+
    with False have "q mod 256 = q - 256" by (simp add: mod_if)
    with False q show ?thesis by (simp add: f, simp add: uqr)
  qed
  then show ?thesis by (simp add: u_def)
qed

lemma f32_make_split: "f32_make (f32_neg x) (f32_exp x * 2 ^ 23 + f32_frac x) = x"
proof -
  have "F32 (word_of_nat (unat (f32_bits x))) = x" by simp
  then show ?thesis
    by (subst (asm) f32_bits_split) (simp add: f32_make_def add.assoc)
qed

lemma f32_fields_less: "f32_exp x < 256" "f32_frac x < 2 ^ 23"
  by (simp_all add: f32_exp_def f32_frac_def)

section \<open>Casts between integers and binary64\<close>

lemma f64_of_nat_fields:
  assumes "0 < n" and "n < 2 ^ 53"
  obtains k where "k \<le> 52" and "2 ^ 52 \<le> n * 2 ^ (52 - k)" and "n * 2 ^ (52 - k) < 2 ^ 53"
    and "f64_of_nat n = f64_make False ((k + 1022) * 2 ^ 52 + n * 2 ^ (52 - k))"
proof
  let ?k = "bit_len n - 1"
  from bit_len_bounds [OF assms(1)] have b: "2 ^ ?k \<le> n" "n < 2 ^ Suc ?k" by simp_all
  with assms(2) have "(2::nat) ^ ?k < 2 ^ 53" by linarith
  then have "?k < 53" by (rule power_less_imp_less_exp [rotated]) simp
  then show k: "?k \<le> 52" by simp
  have "(2::nat) ^ ?k * 2 ^ (52 - ?k) = 2 ^ 52" using k by (simp flip: power_add)
  with b(1) show "2 ^ 52 \<le> n * 2 ^ (52 - ?k)" by (metis mult_le_mono1)
  have "(2::nat) ^ Suc ?k * 2 ^ (52 - ?k) = 2 ^ 53" using k by (simp flip: power_add power_Suc)
  with b(2) show "n * 2 ^ (52 - ?k) < 2 ^ 53" by (metis mult_less_mono1 zero_less_numeral zero_less_power)
  show "f64_of_nat n = f64_make False ((?k + 1022) * 2 ^ 52 + n * 2 ^ (52 - ?k))"
    using assms(1) k by (simp add: f64_of_nat_def Let_def)
qed

lemma f64_of_int_exact:
  assumes "\<bar>i\<bar> < 2 ^ 53"
  shows "f64_trunc (f64_of_int i) = i \<and> f64_is_finite (f64_of_int i)"
proof (cases "i = 0")
  case True
  then show ?thesis
    by (simp add: f64_of_int_def f64_of_nat_def f64_trunc_def f64_significand_def f64_is_finite_def)
next
  case False
  define n where "n = nat \<bar>i\<bar>"
  from False assms have n: "0 < n" "n < 2 ^ 53" by (simp_all add: n_def)
  from f64_of_nat_fields [OF n] obtain k where k: "k \<le> 52"
    and M: "2 ^ 52 \<le> n * 2 ^ (52 - k)" "n * 2 ^ (52 - k) < 2 ^ 53"
    and x: "f64_of_nat n = f64_make False ((k + 1022) * 2 ^ 52 + n * 2 ^ (52 - k))"
    by blast
  define M where "M = n * 2 ^ (52 - k)"
  define r where "r = M - 2 ^ 52"
  have r: "M = 2 ^ 52 + r" "r < 2 ^ 52" using M by (simp_all add: r_def M_def)
  have "k * 2 ^ 52 \<le> 52 * 2 ^ 52" using k by (rule mult_right_mono) simp
  then have m: "(k + 1023) * 2 ^ 52 + r < 2 ^ 63" using r by simp
  have x: "f64_of_nat n = f64_make False ((k + 1023) * 2 ^ 52 + r)"
    using x r by (simp add: M_def [symmetric] algebra_simps)
  have "f64_of_int i = f64_make (i < 0) ((k + 1023) * 2 ^ 52 + r)"
  proof (cases "0 \<le> i")
    case True
    with x show ?thesis by (simp add: f64_of_int_def n_def)
  next
    case False
    then have "nat (- i) = n" by (simp add: n_def)
    with False m show ?thesis by (simp add: f64_of_int_def x unat_f64_make)
  qed
  with r k have f: "f64_neg (f64_of_int i) \<longleftrightarrow> i < 0" "f64_exp (f64_of_int i) = k + 1023"
    "f64_frac (f64_of_int i) = r" by (simp_all only: f64_make_parts)
  from f r have s: "f64_significand (f64_of_int i) = M" by (simp add: f64_significand_def)
  have "f64_trunc (f64_of_int i) = (if i < 0 then - int n else int n)"
  proof (cases "k = 52")
    case True
    then show ?thesis by (simp add: f64_trunc_def f s Let_def) (simp add: M_def)
  next
    case False
    with k have "\<not> 1075 \<le> k + 1023" "1075 - (k + 1023) = 52 - k" by simp_all
    then show ?thesis by (simp add: f64_trunc_def f s Let_def) (simp add: M_def)
  qed
  moreover have "f64_is_finite (f64_of_int i)" using k by (simp add: f64_is_finite_def f)
  ultimately show ?thesis by (simp add: n_def)
qed

lemma f64_to_int_sat_of_int:
  assumes "\<bar>i\<bar> < 2 ^ 53"
  shows "f64_to_int_sat lo hi (f64_of_int i) = max lo (min hi i)"
  using f64_of_int_exact [OF assms]
  by (simp add: f64_to_int_sat_def f64_is_nan_def f64_is_finite_def)

lemma f64_to_int_sat_bounds: "lo \<le> 0 \<Longrightarrow> 0 \<le> hi \<Longrightarrow> lo \<le> f64_to_int_sat lo hi x \<and> f64_to_int_sat lo hi x \<le> hi"
  by (auto simp: f64_to_int_sat_def)

section \<open>Casts between binary32 and binary64\<close>

lemma round_shift_exact [simp]: "round_shift (m * 2 ^ k) k = m"
  by (simp add: round_shift_def)

lemma f32_bits_exp_frac_zero:
  "\<not> f32_is_nan x \<Longrightarrow> f32_exp x = 255 \<Longrightarrow> f32_frac x = 0"
  by (simp add: f32_is_nan_def)

lemma f64_to_f32_to_f64:
  assumes "\<not> f32_is_nan x"
  shows "f64_to_f32 (f32_to_f64 x) = x"
proof -
  define e f s where "e = f32_exp x" and "f = f32_frac x" and "s = f32_neg x"
  have e: "e < 256" and f: "f < 8388608" using f32_fields_less [of x] by (simp_all add: e_def f_def)
  have split: "f32_make s (e * 8388608 + f) = x"
    using f32_make_split [of x] by (simp add: e_def f_def s_def)
  consider (inf) "e = 255" | (zero) "e = 0" "f = 0" | (sub) "e = 0" "f \<noteq> 0" | (norm) "0 < e" "e < 255"
    using e by linarith
  then show ?thesis
  proof cases
    case inf
    with assms have "f = 0" by (simp add: f32_is_nan_def e_def f_def)
    then have "f32_to_f64 x = f64_make s (2047 * 2 ^ 52)"
      using inf by (simp add: f32_to_f64_def Let_def flip: e_def f_def s_def)
    with split inf \<open>f = 0\<close> show ?thesis by (simp add: f64_to_f32_def)
  next
    case zero
    then have "f32_to_f64 x = f64_make s 0"
      by (simp add: f32_to_f64_def Let_def flip: e_def f_def s_def)
    with split zero show ?thesis
      by (simp add: f64_to_f32_def f64_significand_def round_shift_def)
  next
    case sub
    define k where "k = bit_len f - 1"
    from sub have "0 < f" by simp
    from bit_len_bounds [OF this] have b: "2 ^ k \<le> f" "f < 2 ^ Suc k" by (simp_all add: k_def)
    have "(2::nat) ^ k < 2 ^ 23" using b f by simp
    then have k: "k \<le> 22" using power_less_imp_less_exp [of "2::nat" k 23] by simp
    define r where "r = f * 2 ^ (52 - k) - 2 ^ 52"
    have "(2::nat) ^ k * 2 ^ (52 - k) = 2 ^ 52" using k by (simp flip: power_add)
    with b(1) have lo: "2 ^ 52 \<le> f * 2 ^ (52 - k)" by (metis mult_le_mono1)
    have "(2::nat) ^ Suc k * 2 ^ (52 - k) = 2 ^ 53" using k by (simp flip: power_add power_Suc)
    with b(2) have "f * 2 ^ (52 - k) < 2 ^ 53" by (metis mult_less_mono1 zero_less_numeral zero_less_power)
    with lo have r: "f * 2 ^ (52 - k) = 2 ^ 52 + r" "r < 2 ^ 52" by (simp_all add: r_def)
    have x: "f32_to_f64 x = f64_make s ((k + 874) * 2 ^ 52 + r)"
      using sub r by (simp add: f32_to_f64_def Let_def k_def algebra_simps flip: e_def f_def s_def)
    have fl: "f64_neg (f32_to_f64 x) = s" "f64_exp (f32_to_f64 x) = k + 874" "f64_frac (f32_to_f64 x) = r"
      using k r unfolding x by (simp_all only: f64_make_parts)
    have "f64_significand (f32_to_f64 x) = f * 2 ^ (52 - k)"
      using fl r by (simp add: f64_significand_def)
    moreover have "926 - (k + 874) = 52 - k" by simp
    ultimately show ?thesis using fl k f split sub
      by (simp add: f64_to_f32_def Let_def)
  next
    case norm
    have fl0: "f * 2 ^ 29 < 2 ^ 52" using f by simp
    have x: "f32_to_f64 x = f64_make s ((e + 896) * 2 ^ 52 + f * 2 ^ 29)"
      using norm by (simp add: f32_to_f64_def Let_def flip: e_def f_def s_def)
    have fl: "f64_neg (f32_to_f64 x) = s" "f64_exp (f32_to_f64 x) = e + 896"
      "f64_frac (f32_to_f64 x) = f * 2 ^ 29"
      using e fl0 unfolding x by (simp_all only: f64_make_parts)
    have "f64_significand (f32_to_f64 x) = (2 ^ 23 + f) * 2 ^ 29"
      using fl norm by (simp add: f64_significand_def)
    then have sg: "round_shift (f64_significand (f32_to_f64 x)) 29 = 2 ^ 23 + f"
      by (simp only: round_shift_exact)
    have "(if e + 896 \<le> 897 then 926 - max (e + 896) 1 else 29) = (29 :: nat)" using norm by auto
    moreover have eq: "(e - Suc 0) * 8388608 + (8388608 + f) = e * 8388608 + f"
      using norm by (cases e) simp_all
    ultimately show ?thesis using fl norm f split
      by (simp add: f64_to_f32_def Let_def sg eq)
  qed
qed

end
