(* ===== verification/Json.thy ===== *)
theory Json
  imports Float_Bits "HOL-Library.List_Lexorder" "HOL-Library.Char_ord"
begin

text \<open>
  The JSON values the sources handle, as \<open>serde_json\<close> presents them: a value tree whose objects
  keep their members sorted by key (\<open>serde_json::Map\<close> is a \<open>BTreeMap\<close> without the
  \<open>preserve_order\<close> feature) and whose numbers belong to the crate.  The type of numbers is a
  parameter; the record \<open>number_api\<close> holds the crate's functions on it that the sources call,
  and \<open>number_laws\<close> states the documented behaviour the properties rely on.

  The locale \<open>keyed_store\<close> is the interface of every map the program updates (a JSON object, a
  \<open>HashMap\<close>); its lemmas say what collecting a list of pairs into a map holds.
\<close>

section \<open>Maps\<close>

lemma map_of_rev_distinct: "distinct (map fst kvs) \<Longrightarrow> map_of (rev kvs) = map_of kvs"
  by (subst map_of_inject_set) (simp_all add: rev_map [symmetric])

locale keyed_store =
  fixes lookup :: "'s \<Rightarrow> 'k \<Rightarrow> 'v option"
    and update :: "'k \<Rightarrow> 'v \<Rightarrow> 's \<Rightarrow> 's"
    and empty :: 's
  assumes lookup_empty: "lookup empty k = None"
    and lookup_update: "lookup (update k v s) k' = (if k' = k then Some v else lookup s k')"
begin

definition collect :: "('k \<times> 'v) list \<Rightarrow> 's" where
  "collect kvs = fold (\<lambda>(k, v). update k v) kvs empty"

lemma lookup_fold:
  "lookup (fold (\<lambda>(k, v). update k v) kvs s) k =
     (case map_of (rev kvs) k of Some v \<Rightarrow> Some v | None \<Rightarrow> lookup s k)"
proof (induction kvs arbitrary: s)
  case (Cons kv kvs)
  then show ?case
    by (cases kv) (auto simp: lookup_update map_add_def split: option.splits)
qed simp

lemma lookup_collect: "lookup (collect kvs) k = map_of (rev kvs) k"
  by (simp add: collect_def lookup_fold lookup_empty split: option.split)

lemma lookup_collect_distinct:
  "distinct (map fst kvs) \<Longrightarrow> lookup (collect kvs) k = map_of kvs k"
  by (simp add: lookup_collect map_of_rev_distinct)

end

text \<open>A \<open>HashMap\<close> as a partial function.\<close>

definition hash_insert :: "'k \<Rightarrow> 'v \<Rightarrow> ('k \<rightharpoonup> 'v) \<Rightarrow> ('k \<rightharpoonup> 'v)" where
  "hash_insert k v m = m(k \<mapsto> v)"

definition hash_collect :: "('k \<times> 'v) list \<Rightarrow> ('k \<rightharpoonup> 'v)" where
  "hash_collect kvs = fold (\<lambda>(k, v). hash_insert k v) kvs Map.empty"

section \<open>Values\<close>

datatype 'n json =
    JNull
  | JBool bool
  | JNum 'n
  | JStr string
  | JArr "'n json list"
  | JObj "(string \<times> 'n json) list"

record 'n number_api =
  num_as_f64 :: "'n \<Rightarrow> f64 option"
  num_as_u64 :: "'n \<Rightarrow> u64 option"
  num_from_u64 :: "u64 \<Rightarrow> 'n"
  num_from_f64 :: "f64 \<Rightarrow> 'n option"

text \<open>\<open>Value::as_f64\<close>, \<open>as_u64\<close>, \<open>as_str\<close>, \<open>as_array\<close>, \<open>as_object\<close> and \<open>get\<close>.\<close>

fun as_f64 :: "'n number_api \<Rightarrow> 'n json \<Rightarrow> f64 option" where
  "as_f64 api (JNum n) = num_as_f64 api n"
| "as_f64 api _ = None"

fun as_u64 :: "'n number_api \<Rightarrow> 'n json \<Rightarrow> u64 option" where
  "as_u64 api (JNum n) = num_as_u64 api n"
| "as_u64 api _ = None"

fun as_str :: "'n json \<Rightarrow> string option" where
  "as_str (JStr s) = Some s"
| "as_str _ = None"

fun as_array :: "'n json \<Rightarrow> 'n json list option" where
  "as_array (JArr xs) = Some xs"
| "as_array _ = None"

fun as_object :: "'n json \<Rightarrow> (string \<times> 'n json) list option" where
  "as_object (JObj kvs) = Some kvs"
| "as_object _ = None"

fun json_get :: "'n json \<Rightarrow> string \<Rightarrow> 'n json option" where
  "json_get (JObj kvs) k = map_of kvs k"
| "json_get _ k = None"

text \<open>Insertion into a \<open>BTreeMap\<close> and the object of a \<open>json!\<close> literal.\<close>

fun obj_insert :: "string \<Rightarrow> 'v \<Rightarrow> (string \<times> 'v) list \<Rightarrow> (string \<times> 'v) list" where
  "obj_insert k v [] = [(k, v)]"
| "obj_insert k v ((k', v') # kvs) =
     (if k = k' then (k, v) # kvs
      else if k < k' then (k, v) # (k', v') # kvs
      else (k', v') # obj_insert k v kvs)"

definition json_object :: "(string \<times> 'n json) list \<Rightarrow> 'n json" where
  "json_object kvs = JObj (fold (\<lambda>(k, v). obj_insert k v) kvs [])"

text \<open>\<open>json!\<close> applied to an unsigned integer, and to an \<open>f64\<close> (null when it is not finite).\<close>

definition json_u64 :: "'n number_api \<Rightarrow> u64 \<Rightarrow> 'n json" where
  "json_u64 api n = JNum (num_from_u64 api n)"

definition json_f64 :: "'n number_api \<Rightarrow> f64 \<Rightarrow> 'n json" where
  "json_f64 api x = (case num_from_f64 api x of None \<Rightarrow> JNull | Some n \<Rightarrow> JNum n)"

text \<open>What \<open>serde_json\<close> documents of its numbers: an unsigned integer and a finite \<open>f64\<close> are read
  back as they were stored; NaN and the infinities are not numbers.\<close>

definition number_laws :: "'n number_api \<Rightarrow> bool" where
  "number_laws api \<longleftrightarrow>
     (\<forall>u. num_as_u64 api (num_from_u64 api u) = Some u) \<and>
     (\<forall>u. num_as_f64 api (num_from_u64 api u) = Some (f64_of_int (uint u))) \<and>
     (\<forall>x. case num_from_f64 api x of
            None \<Rightarrow> \<not> f64_is_finite x
          | Some n \<Rightarrow> f64_is_finite x \<and> num_as_f64 api n = Some x)"

section \<open>Lemmas\<close>

lemma map_of_obj_insert:
  "map_of (obj_insert k v kvs) k' = (if k' = k then Some v else map_of kvs k')"
  by (induction k v kvs rule: obj_insert.induct) auto

lemma set_obj_insert: "fst ` set (obj_insert k v kvs) = insert k (fst ` set kvs)"
  by (induction k v kvs rule: obj_insert.induct) auto

lemma sorted_obj_insert:
  "sorted_wrt (<) (map fst kvs) \<Longrightarrow> sorted_wrt (<) (map fst (obj_insert k v kvs))"
proof (induction k v kvs rule: obj_insert.induct)
  case (2 k v k' v' kvs)
  then have s: "\<forall>x \<in> fst ` set kvs. k' < x" "sorted_wrt (<) (map fst kvs)" by auto
  show ?case
  proof (cases "k = k' \<or> k < k'")
    case True
    with s show ?thesis by (auto dest: order_less_trans)
  next
    case False
    then have "k' < k" by auto
    with False s 2 have "\<forall>x \<in> fst ` set (obj_insert k v kvs). k' < x"
      by (simp add: set_obj_insert)
    with False 2 s show ?thesis by auto
  qed
qed simp

interpretation object: keyed_store map_of obj_insert "[]"
  by unfold_locales (auto simp: map_of_obj_insert)

interpretation hash: keyed_store "\<lambda>m k. m k" hash_insert Map.empty
  by unfold_locales (auto simp: hash_insert_def)

lemma hash_collect_lookup: "hash_collect kvs k = map_of (rev kvs) k"
  using hash.lookup_collect [of kvs k] by (simp add: hash.collect_def hash_collect_def)

lemma hash_collect_distinct: "distinct (map fst kvs) \<Longrightarrow> hash_collect kvs k = map_of kvs k"
  by (simp add: hash_collect_lookup map_of_rev_distinct)

lemma json_get_json_object: "json_get (json_object kvs) k = map_of (rev kvs) k"
  using object.lookup_collect [of kvs k] by (simp add: object.collect_def json_object_def)

lemma sorted_json_object:
  "\<exists>ms. json_object kvs = JObj ms \<and> sorted_wrt (<) (map fst ms)"
proof -
  have "sorted_wrt (<) (map fst s) \<Longrightarrow> sorted_wrt (<) (map fst (fold (\<lambda>(k, v). obj_insert k v) kvs s))" for s
    by (induction kvs arbitrary: s) (auto simp: sorted_obj_insert)
  from this [of "[]"] show ?thesis by (simp add: json_object_def)
qed

lemma number_laws_u64 [simp]:
  "number_laws api \<Longrightarrow> as_u64 api (json_u64 api u) = Some u"
  by (simp add: number_laws_def json_u64_def)

section \<open>A concrete number type\<close>

text \<open>An instance of the parameter, used by the witnesses: unsigned integers and finite floats.\<close>

datatype sample_number = UInt u64 | Flt f64

definition sample_api :: "sample_number number_api" where
  "sample_api =
     \<lparr>num_as_f64 = (\<lambda>n. case n of UInt u \<Rightarrow> Some (f64_of_int (uint u)) | Flt x \<Rightarrow> Some x),
      num_as_u64 = (\<lambda>n. case n of UInt u \<Rightarrow> Some u | Flt x \<Rightarrow> None),
      num_from_u64 = UInt,
      num_from_f64 = (\<lambda>x. if f64_is_finite x then Some (Flt x) else None)\<rparr>"

lemma number_laws_sample: "number_laws sample_api"
  by (simp add: number_laws_def sample_api_def)

end
