(* ===== verification/Config.thy ===== *)
theory Config
  imports Prelude
begin

text \<open>
  The data model and the validation of \<open>src/config.rs\<close>: the configuration records with the
  defaults serde fills in, the enumerations, \<open>SignalGroup::validate\<close>, \<open>StreamConfig::validate\<close>,
  \<open>Config::validate\<close>, \<open>Config::from_file\<close> and \<open>Config::streams_differ\<close>.  Reading the file and
  parsing TOML are parameters of \<open>config_from_file\<close>.  Slicing the register address is a possible
  panic, so validation returns an outcome of a result.

  The lemmas show that the validator accepts exactly the configurations that satisfy a declarative
  predicate, and when it can panic.
\<close>

section \<open>Enumerations\<close>

datatype device_type = Plc | RobotArm
datatype addressing_mode = ZeroBased | OneBased
datatype byte_order = BigEndian | LittleEndian | LittleEndianByteSwap | MidBig
datatype data_type = U16 | U32 | I16 | I32 | TF32 | TF64 | TBool
datatype access_mode = Rw | Read | Write

fun required_registers :: "data_type \<Rightarrow> u16" where
  "required_registers U16 = 1"
| "required_registers I16 = 1"
| "required_registers TBool = 1"
| "required_registers U32 = 2"
| "required_registers I32 = 2"
| "required_registers TF32 = 2"
| "required_registers TF64 = 4"

section \<open>Records and defaults\<close>

record stream_config =
  sc_device_id :: string
  sc_signal_group :: string
  sc_poll_interval_ms :: u32
  sc_enabled :: bool
  sc_priority :: u8

definition default_poll_interval_ms :: u32 where "default_poll_interval_ms = 100"
definition default_stream_enabled :: bool where "default_stream_enabled = True"

record stream_settings =
  max_concurrent_streams :: u32
  cache_ttl_ms :: u32
  enable_websocket :: bool
  websocket_port :: u16

definition stream_settings_default :: stream_settings where
  "stream_settings_default =
     \<lparr>max_concurrent_streams = 100, cache_ttl_ms = 5000, enable_websocket = True,
      websocket_port = 8082\<rparr>"

record timeouts =
  connect_timeout_ms :: u16
  operation_timeout_ms :: u16
  max_operation_timeout_ms :: u16
  hub_send_timeout_ms :: u16
  heartbeat_timeout_ms :: u16
  pool_health_check_interval_sec :: u16

definition timeouts_default :: timeouts where
  "timeouts_default =
     \<lparr>connect_timeout_ms = 200, operation_timeout_ms = 1000, max_operation_timeout_ms = 30000,
      hub_send_timeout_ms = 2000, heartbeat_timeout_ms = 1000,
      pool_health_check_interval_sec = 30\<rparr>"

text \<open>The \<open>Duration\<close> accessors, in milliseconds.\<close>

definition connect_timeout :: "timeouts \<Rightarrow> nat" where
  "connect_timeout t = unat (connect_timeout_ms t)"

definition operation_timeout :: "timeouts \<Rightarrow> nat" where
  "operation_timeout t = unat (operation_timeout_ms t)"

definition max_operation_timeout :: "timeouts \<Rightarrow> nat" where
  "max_operation_timeout t = unat (max_operation_timeout_ms t)"

definition hub_send_timeout :: "timeouts \<Rightarrow> nat" where
  "hub_send_timeout t = unat (hub_send_timeout_ms t)"

definition heartbeat_timeout :: "timeouts \<Rightarrow> nat" where
  "heartbeat_timeout t = unat (heartbeat_timeout_ms t)"

text \<open>
  \<open>Server\<close> and \<open>Logging\<close> derive \<open>Default\<close>, so a configuration without these tables gets zeros and
  empty strings; the serde defaults below apply to missing fields of a table that is present.
\<close>

record server =
  rpc_port :: u16
  http_port :: u16
  rpc_worker_threads :: usize
  rpc_max_blocking_threads :: usize

definition server_default :: server where
  "server_default =
     \<lparr>rpc_port = 0, http_port = 0, rpc_worker_threads = 0, rpc_max_blocking_threads = 0\<rparr>"

definition default_rpc_worker_threads :: usize where "default_rpc_worker_threads = 4"
definition default_rpc_max_blocking_threads :: usize where
  "default_rpc_max_blocking_threads = 128"

record logging =
  log_level :: string
  log_file :: string
  log_daily_rotation :: bool

definition logging_default :: logging where
  "logging_default = \<lparr>log_level = [], log_file = [], log_daily_rotation = False\<rparr>"

record register_mapping =
  rm_signal_name :: string
  rm_address :: string
  rm_data_type :: data_type
  rm_access :: access_mode
  rm_description :: string

record field_mapping =
  fm_name :: string
  fm_data_type :: data_type
  fm_offset :: u16

record signal_group =
  sg_name :: string
  sg_description :: string
  sg_register_address :: string
  sg_register_count :: u16
  sg_fields :: "field_mapping list"

record device =
  dev_id :: string
  dev_device_type :: device_type
  dev_address :: string
  dev_port :: u16
  dev_unit_id :: u8
  dev_addressing_mode :: addressing_mode
  dev_byte_order :: byte_order
  dev_tcp_nodelay :: bool
  dev_max_concurrent_ops :: u8
  dev_max_pool_size :: u8
  dev_heartbeat_interval_sec :: u32
  dev_pool_health_check_interval_sec :: u16
  dev_signal_groups :: "signal_group list"

definition default_tcp_nodelay :: bool where "default_tcp_nodelay = True"
definition default_max_concurrent_ops :: u8 where "default_max_concurrent_ops = 10"
definition default_max_pool_size :: u8 where "default_max_pool_size = 5"
definition default_heartbeat_interval :: u32 where "default_heartbeat_interval = 30"

record config =
  cfg_server :: server
  cfg_logging :: logging
  cfg_timeouts :: timeouts
  cfg_devices :: "device list"
  cfg_streams :: "stream_config list"
  cfg_stream_settings :: stream_settings

definition config_default :: config where
  "config_default =
     \<lparr>cfg_server = server_default, cfg_logging = logging_default, cfg_timeouts = timeouts_default,
      cfg_devices = [], cfg_streams = [], cfg_stream_settings = stream_settings_default\<rparr>"

section \<open>Validation\<close>

datatype ('io, 'de) config_error =
    Io 'io
  | Parse 'de
  | DuplicateDeviceId string
  | InvalidPort u16
  | InvalidAddressFormat string string string
  | AddressOutOfRange string string u32
  | SignalGroupValidation string string
  | StreamConfigValidation string

definition quoted :: "string \<Rightarrow> string" where
  "quoted s = CHR 0x27 # s @ [CHR 0x27]"

definition stream_config_validate :: "stream_config \<Rightarrow> string + unit" where
  "stream_config_validate s =
     (if sc_poll_interval_ms s < 5 \<or> 5000 < sc_poll_interval_ms s
      then Inl (''StreamConfig validation error: poll_interval_ms must be between 5 and 5000, got ''
                @ show_nat (unat (sc_poll_interval_ms s)))
      else Inr ())"

fun validate_fields :: "signal_group \<Rightarrow> string set \<Rightarrow> field_mapping list \<Rightarrow> string + unit" where
  "validate_fields g seen [] = Inr ()"
| "validate_fields g seen (f # fs) =
     (if fm_name f \<in> seen
      then Inl (''Duplicate field name '' @ quoted (fm_name f) @ '' in signal group ''
                @ quoted (sg_name g))
      else let required = required_registers (fm_data_type f);
               end_offset = saturating_add (fm_offset f) required
           in if sg_register_count g < end_offset
              then Inl (''Field '' @ quoted (fm_name f) @ '' in signal group '' @ quoted (sg_name g)
                        @ '' requires '' @ show_nat (unat required)
                        @ '' registers, but group only has ''
                        @ show_nat (unat (sg_register_count g)))
              else validate_fields g (insert (fm_name f) seen) fs)"

definition signal_group_validate :: "signal_group \<Rightarrow> string + unit" where
  "signal_group_validate g = validate_fields g {} (sg_fields g)"

text \<open>The checks \<open>Config::validate\<close> makes on one signal group; the slices at byte 1 may panic.\<close>

definition validate_group ::
  "string \<Rightarrow> signal_group \<Rightarrow> (('io, 'de) config_error + unit) outcome" where
  "validate_group dev g =
     (let addr = trim (sg_register_address g);
          bad = Ret (Inl (InvalidAddressFormat dev (sg_name g) addr))
      in if length addr < 2 then bad
         else if \<not> char_boundary addr 1 then Panic
         else let prefix = ascii_lower (hd addr); num_str = tl addr in
           if prefix \<notin> set ''hdci'' then bad
           else case parse_unsigned (2 ^ 32 - 1) num_str of
                  None \<Rightarrow> bad
                | Some num \<Rightarrow>
                    if 65535 < num
                    then Ret (Inl (AddressOutOfRange dev (sg_name g) (word_of_nat num)))
                    else case signal_group_validate g of
                           Inl err \<Rightarrow> Ret (Inl (SignalGroupValidation dev err))
                         | Inr _ \<Rightarrow> Ret (Inr ()))"

fun validate_groups ::
  "string \<Rightarrow> signal_group list \<Rightarrow> (('io, 'de) config_error + unit) outcome" where
  "validate_groups dev [] = Ret (Inr ())"
| "validate_groups dev (g # gs) =
     try_outcome (validate_group dev g) (\<lambda>_. validate_groups dev gs)"

fun validate_devices ::
  "string set \<Rightarrow> device list \<Rightarrow> (('io, 'de) config_error + unit) outcome" where
  "validate_devices seen [] = Ret (Inr ())"
| "validate_devices seen (d # ds) =
     (if dev_id d \<in> seen then Ret (Inl (DuplicateDeviceId (dev_id d)))
      else try_outcome (validate_groups (dev_id d) (dev_signal_groups d))
             (\<lambda>_. validate_devices (insert (dev_id d) seen) ds))"

fun validate_streams :: "stream_config list \<Rightarrow> ('io, 'de) config_error + unit" where
  "validate_streams [] = Inr ()"
| "validate_streams (s # ss) =
     (case stream_config_validate s of
        Inl err \<Rightarrow> Inl (StreamConfigValidation err)
      | Inr _ \<Rightarrow> validate_streams ss)"

definition config_validate :: "config \<Rightarrow> (('io, 'de) config_error + unit) outcome" where
  "config_validate c =
     try_outcome (validate_devices {} (cfg_devices c)) (\<lambda>_. Ret (validate_streams (cfg_streams c)))"

text \<open>\<open>fs::read_to_string\<close> and \<open>toml::from_str\<close> are the first two arguments.\<close>

definition config_from_file ::
  "('path \<Rightarrow> 'io + string) \<Rightarrow> (string \<Rightarrow> 'de + config) \<Rightarrow> 'path
     \<Rightarrow> (('io, 'de) config_error + config) outcome" where
  "config_from_file read_to_string from_str path =
     (case read_to_string path of
        Inl e \<Rightarrow> Ret (Inl (Io e))
      | Inr content \<Rightarrow>
          (case from_str content of
             Inl e \<Rightarrow> Ret (Inl (Parse e))
           | Inr c \<Rightarrow> map_outcome (\<lambda>r. case r of Inl e \<Rightarrow> Inl e | Inr _ \<Rightarrow> Inr c)
                        (config_validate c)))"

definition streams_differ :: "config \<Rightarrow> stream_config list \<Rightarrow> bool" where
  "streams_differ c other \<longleftrightarrow>
     length (cfg_streams c) \<noteq> length other \<or>
     (\<exists>(a, b) \<in> set (zip (cfg_streams c) other). a \<noteq> b)"

section \<open>What the validator accepts\<close>

text \<open>A field fits when its end, saturated at 65535, is within the group.\<close>

definition field_fits :: "u16 \<Rightarrow> field_mapping \<Rightarrow> bool" where
  "field_fits cnt f \<longleftrightarrow>
     min (unat (fm_offset f) + unat (required_registers (fm_data_type f))) 65535 \<le> unat cnt"

definition group_fields_ok :: "signal_group \<Rightarrow> bool" where
  "group_fields_ok g \<longleftrightarrow>
     distinct (map fm_name (sg_fields g)) \<and> (\<forall>f \<in> set (sg_fields g). field_fits (sg_register_count g) f)"

definition address_ok :: "string \<Rightarrow> bool" where
  "address_ok a \<longleftrightarrow>
     (case trim a of
        [] \<Rightarrow> False
      | p # ds \<Rightarrow> ascii_lower p \<in> set ''hdci'' \<and> parse_unsigned 65535 ds \<noteq> None)"

definition group_ok :: "signal_group \<Rightarrow> bool" where
  "group_ok g \<longleftrightarrow> address_ok (sg_register_address g) \<and> group_fields_ok g"

definition stream_ok :: "stream_config \<Rightarrow> bool" where
  "stream_ok s \<longleftrightarrow> 5 \<le> unat (sc_poll_interval_ms s) \<and> unat (sc_poll_interval_ms s) \<le> 5000"

definition config_ok :: "config \<Rightarrow> bool" where
  "config_ok c \<longleftrightarrow>
     distinct (map dev_id (cfg_devices c)) \<and>
     (\<forall>d \<in> set (cfg_devices c). \<forall>g \<in> set (dev_signal_groups d). group_ok g) \<and>
     (\<forall>s \<in> set (cfg_streams c). stream_ok s)"

text \<open>The register address whose first character is not ASCII, which the slice panics on.\<close>

definition address_panics :: "string \<Rightarrow> bool" where
  "address_panics a \<longleftrightarrow> (\<exists>p q ds. trim a = p # q # ds \<and> is_continuation q)"

definition groups_panic :: "signal_group list \<Rightarrow> bool" where
  "groups_panic gs \<longleftrightarrow>
     (\<exists>gs1 g gs2. gs = gs1 @ g # gs2 \<and>
        (\<forall>h \<in> set gs1. group_ok h) \<and> address_panics (sg_register_address g))"

section \<open>Lemmas\<close>

lemma unat_required_registers:
  "unat (required_registers t) = (case t of U32 \<Rightarrow> 2 | I32 \<Rightarrow> 2 | TF32 \<Rightarrow> 2 | TF64 \<Rightarrow> 4 | _ \<Rightarrow> 1)"
  by (cases t) simp_all

lemma end_offset_le_iff:
  "\<not> cnt < saturating_add (fm_offset f) (required_registers (fm_data_type f)) \<longleftrightarrow> field_fits cnt f"
  by (simp add: field_fits_def word_less_nat_alt unat_saturating_add not_less min_le_iff_disj)

lemma stream_config_validate_iff: "stream_config_validate s = Inr () \<longleftrightarrow> stream_ok s"
  by (auto simp: stream_config_validate_def stream_ok_def word_less_nat_alt)

lemma validate_fields_iff:
  "validate_fields g seen fs = Inr () \<longleftrightarrow>
     distinct (map fm_name fs) \<and> fm_name ` set fs \<inter> seen = {} \<and>
     (\<forall>f \<in> set fs. field_fits (sg_register_count g) f)"
proof (induction fs arbitrary: seen)
  case (Cons f fs)
  show ?case
    by (cases "field_fits (sg_register_count g) f")
       (auto simp: Cons.IH Let_def simp flip: end_offset_le_iff)
qed simp

lemma signal_group_validate_iff: "signal_group_validate g = Inr () \<longleftrightarrow> group_fields_ok g"
  by (simp add: signal_group_validate_def group_fields_ok_def validate_fields_iff)

lemma parse_unsigned_not_continuation:
  "parse_unsigned m (c # cs) = Some n \<Longrightarrow> \<not> is_continuation c"
  by (auto simp: parse_unsigned_def strip_plus_def is_continuation_def digit_val_def Let_def
           split: if_splits option.splits)

lemma validate_group_ok: "validate_group dev g = Ret (Inr ()) \<longleftrightarrow> group_ok g"
proof (cases "trim (sg_register_address g)")
  case Nil
  then show ?thesis by (simp add: validate_group_def group_ok_def address_ok_def)
next
  case (Cons p ds)
  show ?thesis
  proof (cases ds)
    case Nil
    with Cons show ?thesis
      by (simp add: validate_group_def group_ok_def address_ok_def parse_unsigned_def strip_plus_def)
  next
    case (Cons d ds')
    have b: "char_boundary (p # ds) 1" if "parse_unsigned (2 ^ 32 - 1) ds = Some n" for n
      using parse_unsigned_not_continuation that Cons by (auto simp: char_boundary_def)
    have n: "parse_unsigned 65535 ds =
        (case parse_unsigned (2 ^ 32 - 1) ds of None \<Rightarrow> None
         | Some n \<Rightarrow> if n \<le> 65535 then Some n else None)"
      by (rule parse_unsigned_narrow) simp
    from Cons have "ds \<noteq> []" by simp
    with \<open>trim (sg_register_address g) = p # ds\<close> b show ?thesis
      by (cases "parse_unsigned (2 ^ 32 - 1) ds"; cases "signal_group_validate g")
         (simp_all add: validate_group_def group_ok_def address_ok_def Let_def n
           signal_group_validate_iff [symmetric])
  qed
qed

lemma validate_groups_ok:
  "validate_groups dev gs = Ret (Inr ()) \<longleftrightarrow> (\<forall>g \<in> set gs. group_ok g)"
  by (induction gs) (simp_all add: validate_group_ok)

lemma validate_devices_ok:
  "validate_devices seen ds = Ret (Inr ()) \<longleftrightarrow>
     distinct (map dev_id ds) \<and> dev_id ` set ds \<inter> seen = {} \<and>
     (\<forall>d \<in> set ds. \<forall>g \<in> set (dev_signal_groups d). group_ok g)"
  by (induction ds arbitrary: seen) (auto simp: validate_groups_ok)

lemma validate_streams_ok: "validate_streams ss = Inr () \<longleftrightarrow> (\<forall>s \<in> set ss. stream_ok s)"
  by (induction ss) (auto split: sum.splits simp flip: stream_config_validate_iff)

lemma validate_group_Panic:
  "validate_group dev g = Panic \<longleftrightarrow> address_panics (sg_register_address g)"
proof (cases "trim (sg_register_address g)")
  case (Cons p ds)
  then show ?thesis
    by (cases ds) (auto simp: validate_group_def address_panics_def char_boundary_def Let_def
                        split: option.split sum.split)
qed (simp add: validate_group_def address_panics_def)

lemma validate_groups_Panic: "validate_groups dev gs = Panic \<longleftrightarrow> groups_panic gs"
  unfolding groups_panic_def
proof (induction gs)
  case (Cons g gs)
  show ?case
    unfolding ex_split_Cons using Cons.IH by (simp add: validate_group_Panic validate_group_ok) blast
qed simp

text \<open>Validation gets to device \<open>d\<close> after \<open>ds\<close>: all ids are new, all groups of \<open>ds\<close> are valid.\<close>

definition reaches :: "string set \<Rightarrow> device list \<Rightarrow> device \<Rightarrow> bool" where
  "reaches seen ds d \<longleftrightarrow>
     distinct (map dev_id (ds @ [d])) \<and> dev_id ` set (ds @ [d]) \<inter> seen = {} \<and>
     (\<forall>d' \<in> set ds. \<forall>g \<in> set (dev_signal_groups d'). group_ok g)"

lemma reaches_Nil: "reaches seen [] d \<longleftrightarrow> dev_id d \<notin> seen"
  by (simp add: reaches_def)

lemma reaches_Cons:
  "reaches seen (d' # ds) d \<longleftrightarrow>
     dev_id d' \<notin> seen \<and> (\<forall>g \<in> set (dev_signal_groups d'). group_ok g) \<and>
     reaches (insert (dev_id d') seen) ds d"
  by (auto simp: reaches_def)

lemma validate_devices_Panic:
  "validate_devices seen ds = (Panic :: (('io, 'de) config_error + unit) outcome) \<longleftrightarrow>
     (\<exists>ds1 d ds2. ds = ds1 @ d # ds2 \<and> reaches seen ds1 d \<and> groups_panic (dev_signal_groups d))"
proof (induction ds arbitrary: seen)
  case (Cons d ds)
  have "validate_devices seen (d # ds) = (Panic :: (('io, 'de) config_error + unit) outcome) \<longleftrightarrow>
      dev_id d \<notin> seen \<and> (groups_panic (dev_signal_groups d) \<or>
        (\<forall>g \<in> set (dev_signal_groups d). group_ok g) \<and>
        validate_devices (insert (dev_id d) seen) ds = (Panic :: (('io, 'de) config_error + unit) outcome))"
    by (simp add: validate_groups_ok validate_groups_Panic)
  then show ?case unfolding ex_split_Cons reaches_Nil reaches_Cons Cons.IH by blast
qed simp

lemma list_neq_zip:
  "length xs \<noteq> length ys \<or> (\<exists>(a, b) \<in> set (zip xs ys). a \<noteq> b) \<longleftrightarrow> xs \<noteq> ys"
proof -
  have "(\<exists>(a, b) \<in> set (zip xs ys). a \<noteq> b) \<longleftrightarrow> \<not> (\<forall>(a, b) \<in> set (zip xs ys). a = b)"
    by fastforce
  then show ?thesis unfolding list_eq_iff_zip_eq by blast
qed

lemma config_validate_ok: "config_validate c = Ret (Inr ()) \<longleftrightarrow> config_ok c"
  by (auto simp: config_validate_def config_ok_def validate_devices_ok validate_streams_ok)

section \<open>Properties\<close>

text \<open>C7: \<open>Config::validate\<close> returns \<open>Ok\<close> exactly on the configurations with unique device ids whose
  signal groups all have a prefixed decimal address up to 65535, distinct field names and fields
  that end (saturating at 65535) within the group, and whose streams poll every 5 to 5000 ms.  The
  ports of the server and of the devices are not among the conditions, port 0 included, although the
  documentation of the module lists the range of ports among what is validated.\<close>

theorem config_validate_ok_iff: "config_validate c = Ret (Inr ()) \<longleftrightarrow> config_ok c"
  by (rule config_validate_ok)

lemma validate_devices_port:
  "validate_devices seen (map (\<lambda>d. d\<lparr>dev_port := p\<rparr>) ds) = validate_devices seen ds"
  by (induction ds arbitrary: seen) simp_all

lemma ports_not_validated:
  "config_validate (c\<lparr>cfg_server := s\<rparr>) = config_validate c"
  "config_validate (c\<lparr>cfg_devices := map (\<lambda>d. d\<lparr>dev_port := p\<rparr>) (cfg_devices c)\<rparr>) = config_validate c"
  by (simp_all add: config_validate_def validate_devices_port)

text \<open>C33: \<open>Config::validate\<close> panics exactly when it reaches a signal group whose trimmed register
  address starts with a multi-byte character: every device id so far is new, and every group of the
  earlier devices and every earlier group of the same device is valid.\<close>

theorem config_validate_panic_iff:
  "config_validate c = (Panic :: (('a, 'b) config_error + unit) outcome) \<longleftrightarrow>
     (\<exists>ds1 d ds2 gs1 g gs2.
        cfg_devices c = ds1 @ d # ds2 \<and> dev_signal_groups d = gs1 @ g # gs2 \<and>
        distinct (map dev_id (ds1 @ [d])) \<and>
        (\<forall>d' \<in> set ds1. \<forall>g' \<in> set (dev_signal_groups d'). group_ok g') \<and>
        (\<forall>g' \<in> set gs1. group_ok g') \<and> address_panics (sg_register_address g))"
proof -
  have "config_validate c = (Panic :: (('a, 'b) config_error + unit) outcome) \<longleftrightarrow>
      validate_devices {} (cfg_devices c) = (Panic :: (('a, 'b) config_error + unit) outcome)"
    by (simp add: config_validate_def)
  then show ?thesis unfolding validate_devices_Panic groups_panic_def reaches_def
    by (simp only: Int_empty_right simp_thms)
       (intro iffI; elim exE conjE; intro exI conjI; assumption)
qed

definition sample_device :: "string \<Rightarrow> signal_group list \<Rightarrow> device" where
  "sample_device i gs =
     \<lparr>dev_id = i, dev_device_type = Plc, dev_address = ''10.0.0.1'', dev_port = 502,
      dev_unit_id = 1, dev_addressing_mode = ZeroBased, dev_byte_order = BigEndian,
      dev_tcp_nodelay = default_tcp_nodelay, dev_max_concurrent_ops = default_max_concurrent_ops,
      dev_max_pool_size = default_max_pool_size,
      dev_heartbeat_interval_sec = default_heartbeat_interval,
      dev_pool_health_check_interval_sec = 30, dev_signal_groups = gs\<rparr>"

definition sample_group :: "string \<Rightarrow> u16 \<Rightarrow> field_mapping list \<Rightarrow> signal_group" where
  "sample_group a n fs =
     \<lparr>sg_name = ''g'', sg_description = [], sg_register_address = a, sg_register_count = n,
      sg_fields = fs\<rparr>"

theorem config_validate_panic_witness:
  "config_validate (config_default
     \<lparr>cfg_devices := [sample_device ''plc'' [sample_group (map char_of [0xC3, 0xA9, 0x31 :: nat]) 1 []]]\<rparr>)
   = Panic"
proof -
  let ?g = "sample_group (map char_of [0xC3, 0xA9, 0x31 :: nat]) 1 []"
  have "address_panics (sg_register_address ?g)"
    by (simp add: sample_group_def address_panics_def is_continuation_def trim_def strip_lead.simps
        lead_len_def ws_utf8_def)
  then show ?thesis
    unfolding config_validate_panic_iff
    by (intro exI [of _ "[]"] exI [of _ "sample_device ''plc'' [?g]"] exI [of _ ?g])
       (simp add: sample_device_def)
qed

text \<open>\<open>Config::from_file\<close> returns a configuration exactly when the file is read, its content is
  parsed into that configuration and the configuration is valid.\<close>

theorem config_from_file_ok_iff:
  "config_from_file read_to_string from_str path
     = (Ret (Inr c) :: (('a, 'b) config_error + config) outcome) \<longleftrightarrow>
     (\<exists>content. read_to_string path = Inr content \<and> from_str content = Inr c \<and> config_ok c)"
proof -
  have "map_outcome (case_sum Inl (\<lambda>_. Inr c')) (config_validate c')
      = (Ret (Inr c) :: (('a, 'b) config_error + config) outcome) \<longleftrightarrow>
      c' = c \<and> config_ok c" for c'
  proof (cases "config_validate c' :: (('a, 'b) config_error + unit) outcome")
    case (Ret r)
    then show ?thesis using config_validate_ok [of c', where 'a = 'a and 'b = 'b]
      by (cases r) auto
  next
    case Panic
    then show ?thesis using config_validate_ok [of c', where 'a = 'a and 'b = 'b] by auto
  qed
  then show ?thesis by (auto simp: config_from_file_def split: sum.split)
qed

lemma streams_differ_iff: "streams_differ c other \<longleftrightarrow> cfg_streams c \<noteq> other"
  unfolding streams_differ_def by (rule list_neq_zip)

end
