(* ===== verification/Data_Conversion.thy ===== *)
theory Data_Conversion
  imports Float_Bits Config
begin

text \<open>
  \<open>src/data_conversion.rs\<close>: conversion between the bytes of a Modbus field and an \<open>f64\<close>, for
  every data type and byte order, and the \<open>RegisterPair\<close> helper.  The array indexing of
  \<open>from_bytes\<close> comes after its length check, so it cannot panic.

  The lemmas show that reordering bytes is an involution, what \<open>from_bytes\<close> makes of the output
  of \<open>to_bytes\<close> for any value, and that \<open>to_bytes\<close> restores the bytes \<open>from_bytes\<close> has read.
\<close>

unbundle bit_operations_syntax

section \<open>Byte orders\<close>

fun bytes_len :: "data_type \<Rightarrow> nat option" where
  "bytes_len U16 = Some 2"
| "bytes_len I16 = Some 2"
| "bytes_len U32 = Some 4"
| "bytes_len I32 = Some 4"
| "bytes_len TF32 = Some 4"
| "bytes_len TF64 = Some 8"
| "bytes_len TBool = Some 1"

text \<open>\<open>data.chunks(2).flat_map(|chunk| chunk.iter().rev())\<close>\<close>

fun swap_in_words :: "'a list \<Rightarrow> 'a list" where
  "swap_in_words (a # b # xs) = b # a # swap_in_words xs"
| "swap_in_words xs = xs"

fun convert_byte_order :: "u8 list \<Rightarrow> byte_order \<Rightarrow> u8 list" where
  "convert_byte_order xs BigEndian = xs"
| "convert_byte_order xs LittleEndian = rev xs"
| "convert_byte_order xs LittleEndianByteSwap =
     (if length xs = 4 then [xs ! 2, xs ! 3, xs ! 0, xs ! 1]
      else if length xs = 8
      then [xs ! 6, xs ! 7, xs ! 4, xs ! 5, xs ! 2, xs ! 3, xs ! 0, xs ! 1]
      else xs)"
| "convert_byte_order xs MidBig = swap_in_words xs"

section \<open>The converter\<close>

definition from_bytes :: "u8 list \<Rightarrow> data_type \<Rightarrow> byte_order \<Rightarrow> f64 option" where
  "from_bytes xs t ord =
     (case bytes_len t of
        None \<Rightarrow> None
      | Some expected_len \<Rightarrow>
          if length xs \<noteq> expected_len then None
          else let ordered = (if ord = BigEndian then xs else convert_byte_order xs ord) in
            (case t of
               U16 \<Rightarrow> Some (f64_of_int (uint (word_of_nat (be_value (map ((!) ordered) [0, 1])) :: u16)))
             | U32 \<Rightarrow>
                 Some (f64_of_int (uint (word_of_nat (be_value (map ((!) ordered) [0, 1, 2, 3])) :: u32)))
             | I16 \<Rightarrow> Some (f64_of_int (sint (word_of_nat (be_value (map ((!) ordered) [0, 1])) :: u16)))
             | I32 \<Rightarrow>
                 Some (f64_of_int (sint (word_of_nat (be_value (map ((!) ordered) [0, 1, 2, 3])) :: u32)))
             | TF32 \<Rightarrow>
                 Some (f32_to_f64 (F32 (word_of_nat (be_value (map ((!) ordered) [0, 1, 2, 3])))))
             | TF64 \<Rightarrow>
                 Some (F64 (word_of_nat (be_value (map ((!) ordered) [0, 1, 2, 3, 4, 5, 6, 7]))))
             | TBool \<Rightarrow> Some (f64_of_int (if ordered ! 0 \<noteq> 0 then 1 else 0))))"

definition to_bytes :: "f64 \<Rightarrow> data_type \<Rightarrow> byte_order \<Rightarrow> u8 list option" where
  "to_bytes v t ord =
     (let canonical =
        (case t of
           U16 \<Rightarrow> be_bytes 2 (unat (word_of_int (f64_to_int_sat 0 65535 v) :: u16))
         | U32 \<Rightarrow> be_bytes 4 (unat (word_of_int (f64_to_int_sat 0 4294967295 v) :: u32))
         | I16 \<Rightarrow> be_bytes 2 (unat (word_of_int (f64_to_int_sat (- 32768) 32767 v) :: u16))
         | I32 \<Rightarrow> be_bytes 4 (unat (word_of_int (f64_to_int_sat (- 2147483648) 2147483647 v) :: u32))
         | TF32 \<Rightarrow> be_bytes 4 (unat (f32_bits (f64_to_f32 v)))
         | TF64 \<Rightarrow> be_bytes 8 (unat (f64_bits v))
         | TBool \<Rightarrow> [if \<not> f64_is_zero v then 1 else 0])
      in if ord = BigEndian then Some canonical else Some (convert_byte_order canonical ord))"

section \<open>Register pairs\<close>

record register_pair =
  rp_high :: u16
  rp_low :: u16

definition register_pair_new :: "u16 \<Rightarrow> u16 \<Rightarrow> register_pair" where
  "register_pair_new high low = \<lparr>rp_high = high, rp_low = low\<rparr>"

definition to_u32 :: "register_pair \<Rightarrow> u32" where
  "to_u32 p = push_bit 16 (ucast (rp_high p)) OR ucast (rp_low p)"

definition to_i32 :: "register_pair \<Rightarrow> int" where
  "to_i32 p = sint (to_u32 p)"

definition to_f32 :: "register_pair \<Rightarrow> f32" where
  "to_f32 p = F32 (to_u32 p)"

section \<open>Reordering\<close>

lemma list_length_4: "length xs = 4 \<Longrightarrow> \<exists>a b c d. xs = [a, b, c, d]"
  by (auto simp: numeral_eq_Suc length_Suc_conv)

lemma list_length_8: "length xs = 8 \<Longrightarrow> \<exists>a b c d e f g h. xs = [a, b, c, d, e, f, g, h]"
  by (auto simp: numeral_eq_Suc length_Suc_conv)

lemma swap_in_words_twice [simp]: "swap_in_words (swap_in_words xs) = xs"
  by (induction xs rule: swap_in_words.induct) simp_all

lemma length_swap_in_words [simp]: "length (swap_in_words xs) = length xs"
  by (induction xs rule: swap_in_words.induct) simp_all

lemma length_convert_byte_order [simp]: "length (convert_byte_order xs ord) = length xs"
  by (cases ord) simp_all

lemma convert_byte_order_twice [simp]:
  "convert_byte_order (convert_byte_order xs ord) ord = xs"
proof (cases ord)
  case LittleEndianByteSwap
  consider "length xs = 4" | "length xs = 8" | "length xs \<noteq> 4" "length xs \<noteq> 8" by blast
  then show ?thesis
    by cases (auto simp: LittleEndianByteSwap dest!: list_length_4 list_length_8)
qed simp_all

lemma convert_byte_order_single [simp]: "convert_byte_order [b] ord = [b]"
  by (cases ord) simp_all

lemma if_big_endian: "(if ord = BigEndian then xs else convert_byte_order xs ord) = convert_byte_order xs ord"
  by simp

lemma map_nth_prefix:
  "length xs = 1 \<Longrightarrow> map ((!) xs) [0] = xs"
  "length xs = 2 \<Longrightarrow> map ((!) xs) [0, 1] = xs"
  "length xs = 4 \<Longrightarrow> map ((!) xs) [0, 1, 2, 3] = xs"
  "length xs = 8 \<Longrightarrow> map ((!) xs) [0, 1, 2, 3, 4, 5, 6, 7] = xs"
  by (auto simp: numeral_eq_Suc length_Suc_conv)

section \<open>Round trips\<close>

text \<open>The value a field of type \<open>t\<close> can hold that \<open>to_bytes\<close> stores for \<open>v\<close>.\<close>

definition quantize :: "data_type \<Rightarrow> f64 \<Rightarrow> f64" where
  "quantize t v =
     (case t of
        U16 \<Rightarrow> f64_of_int (f64_to_int_sat 0 65535 v)
      | U32 \<Rightarrow> f64_of_int (f64_to_int_sat 0 4294967295 v)
      | I16 \<Rightarrow> f64_of_int (f64_to_int_sat (- 32768) 32767 v)
      | I32 \<Rightarrow> f64_of_int (f64_to_int_sat (- 2147483648) 2147483647 v)
      | TF32 \<Rightarrow> f32_to_f64 (f64_to_f32 v)
      | TF64 \<Rightarrow> v
      | TBool \<Rightarrow> f64_of_int (if f64_is_zero v then 0 else 1))"

text \<open>The range of integers a type holds exactly.\<close>

fun int_range :: "data_type \<Rightarrow> int set" where
  "int_range U16 = {0..65535}"
| "int_range U32 = {0..4294967295}"
| "int_range I16 = {- 32768..32767}"
| "int_range I32 = {- 2147483648..2147483647}"
| "int_range TBool = {0..1}"
| "int_range TF32 = {}"
| "int_range TF64 = {}"

lemma length_to_bytes: "to_bytes v t ord = Some bs \<Longrightarrow> bytes_len t = Some (length bs)"
  by (cases t) (auto simp: to_bytes_def Let_def split: if_splits)

lemma to_bytes_convert:
  "to_bytes v t ord = Some (convert_byte_order (the (to_bytes v t BigEndian)) ord)"
  by (simp add: to_bytes_def Let_def)

lemma from_bytes_convert:
  "from_bytes (convert_byte_order xs ord) t ord = from_bytes xs t BigEndian"
  by (cases "ord = BigEndian"; cases "bytes_len t") (simp_all add: from_bytes_def)

lemma from_bytes_None: "bytes_len t \<noteq> Some (length xs) \<Longrightarrow> from_bytes xs t ord = None"
  by (cases t) (simp_all add: from_bytes_def)

text \<open>What the big-endian reading of a field's bytes is.\<close>

lemma from_bytes_BigEndian:
  assumes "bytes_len t = Some (length xs)"
  shows "from_bytes xs t BigEndian = Some
     (case t of
        U16 \<Rightarrow> f64_of_int (uint (word_of_nat (be_value xs) :: u16))
      | U32 \<Rightarrow> f64_of_int (uint (word_of_nat (be_value xs) :: u32))
      | I16 \<Rightarrow> f64_of_int (sint (word_of_nat (be_value xs) :: u16))
      | I32 \<Rightarrow> f64_of_int (sint (word_of_nat (be_value xs) :: u32))
      | TF32 \<Rightarrow> f32_to_f64 (F32 (word_of_nat (be_value xs)))
      | TF64 \<Rightarrow> F64 (word_of_nat (be_value xs))
      | TBool \<Rightarrow> f64_of_int (if hd xs \<noteq> 0 then 1 else 0))"
proof (cases t)
  case TBool
  with assms show ?thesis by (cases xs) (simp_all add: from_bytes_def)
qed (use assms in \<open>simp_all add: from_bytes_def map_nth_prefix
        del: list.map One_nat_def\<close>)

lemma uint_word_of_int_u16: "i \<in> {0..65535} \<Longrightarrow> uint (word_of_int i :: u16) = i"
  by (simp add: uint_word_of_int)

lemma uint_word_of_int_u32: "i \<in> {0..4294967295} \<Longrightarrow> uint (word_of_int i :: u32) = i"
  by (simp add: uint_word_of_int)

lemma sint_word_of_int_u16: "i \<in> {- 32768..32767} \<Longrightarrow> sint (word_of_int i :: u16) = i"
  by (simp add: sint_sbintrunc' signed_take_bit_int_eq_self)

lemma sint_word_of_int_u32: "i \<in> {- 2147483648..2147483647} \<Longrightarrow> sint (word_of_int i :: u32) = i"
  by (simp add: sint_sbintrunc' signed_take_bit_int_eq_self)

lemma word_of_nat_be_value:
  "word_of_nat (be_value (be_bytes 2 (unat (w :: u16)))) = w"
  "word_of_nat (be_value (be_bytes 4 (unat (x :: u32)))) = x"
  "word_of_nat (be_value (be_bytes 8 (unat (y :: u64)))) = y"
  by simp_all

lemmas word_of_int_exact =
  uint_word_of_int_u16 uint_word_of_int_u32 sint_word_of_int_u16 sint_word_of_int_u32

lemma f64_to_int_sat_range:
  "f64_to_int_sat 0 65535 v \<in> {0..65535}"
  "f64_to_int_sat 0 4294967295 v \<in> {0..4294967295}"
  "f64_to_int_sat (- 32768) 32767 v \<in> {- 32768..32767}"
  "f64_to_int_sat (- 2147483648) 2147483647 v \<in> {- 2147483648..2147483647}"
  by (simp_all add: f64_to_int_sat_bounds)

lemma from_bytes_to_bytes:
  "Option.bind (to_bytes v t ord) (\<lambda>bs. from_bytes bs t ord) = Some (quantize t v)"
proof -
  obtain bs where bs: "to_bytes v t BigEndian = Some bs" using to_bytes_convert by blast
  have "from_bytes bs t BigEndian = Some (quantize t v)"
    using bs length_to_bytes [OF bs]
    by (cases t) (auto simp: to_bytes_def from_bytes_BigEndian quantize_def word_of_nat_be_value
        word_of_int_exact(1) [OF f64_to_int_sat_range(1)] word_of_int_exact(2) [OF f64_to_int_sat_range(2)]
        word_of_int_exact(3) [OF f64_to_int_sat_range(3)] word_of_int_exact(4) [OF f64_to_int_sat_range(4)])
  with bs show ?thesis
    by (simp add: to_bytes_convert [of v t ord] from_bytes_convert)
qed

text \<open>Bytes a field can hold that \<open>to_bytes\<close> never produces: a NaN, a boolean byte above 1.\<close>

definition canonical_bytes :: "u8 list \<Rightarrow> data_type \<Rightarrow> bool" where
  "canonical_bytes xs t \<longleftrightarrow>
     bytes_len t = Some (length xs) \<and>
     (t = TF32 \<longrightarrow> \<not> f32_is_nan (F32 (word_of_nat (be_value xs)))) \<and>
     (t = TBool \<longrightarrow> hd xs \<in> {0, 1})"

lemma f64_is_zero_of_int: "f64_is_zero (f64_of_int 0)" "\<not> f64_is_zero (f64_of_int 1)"
  by (simp_all add: f64_is_zero_def f64_of_int_def f64_of_nat_def bit_len.simps)

lemma f64_to_int_sat_of_word:
  "f64_to_int_sat 0 65535 (f64_of_int (uint (w :: u16))) = uint w"
  "f64_to_int_sat 0 4294967295 (f64_of_int (uint (x :: u32))) = uint x"
  "f64_to_int_sat (- 32768) 32767 (f64_of_int (sint w)) = sint w"
  "f64_to_int_sat (- 2147483648) 2147483647 (f64_of_int (sint x)) = sint x"
proof -
  have u: "0 \<le> uint w" "uint w < 65536" "0 \<le> uint x" "uint x < 4294967296"
    using uint_bounded [of w] uint_bounded [of x] by simp_all
  have s: "- 32768 \<le> sint w" "sint w < 32768" "- 2147483648 \<le> sint x" "sint x < 2147483648"
    using sint_greater_eq [of w] sint_less [of w] sint_greater_eq [of x] sint_less [of x] by simp_all
  show "f64_to_int_sat 0 65535 (f64_of_int (uint w)) = uint w"
    "f64_to_int_sat 0 4294967295 (f64_of_int (uint x)) = uint x"
    "f64_to_int_sat (- 32768) 32767 (f64_of_int (sint w)) = sint w"
    "f64_to_int_sat (- 2147483648) 2147483647 (f64_of_int (sint x)) = sint x"
    using u s by (simp_all add: f64_to_int_sat_of_int)
qed

lemma be_bytes_of_words:
  "length xs = 2 \<Longrightarrow> be_bytes 2 (unat (word_of_nat (be_value xs) :: u16)) = xs"
  "length xs = 4 \<Longrightarrow> be_bytes 4 (unat (word_of_nat (be_value xs) :: u32)) = xs"
  "length xs = 8 \<Longrightarrow> be_bytes 8 (unat (word_of_nat (be_value xs) :: u64)) = xs"
  using be_value_less [of xs] by (simp_all add: unat_of_nat)

lemma to_bytes_from_bytes_BigEndian:
  assumes "canonical_bytes xs t"
  shows "Option.bind (from_bytes xs t BigEndian) (\<lambda>v. to_bytes v t BigEndian) = Some xs"
proof -
  have len: "bytes_len t = Some (length xs)" using assms by (simp add: canonical_bytes_def)
  show ?thesis
  proof (cases t)
    case TBool
    with len obtain b where "xs = [b]" by (cases xs) auto
    with assms TBool show ?thesis
      by (auto simp: from_bytes_BigEndian to_bytes_def canonical_bytes_def f64_is_zero_of_int)
  qed (use assms len in \<open>simp_all add: from_bytes_BigEndian to_bytes_def f64_to_int_sat_of_word
        be_bytes_of_words canonical_bytes_def f64_to_f32_to_f64\<close>)
qed

lemma quantize_of_int:
  assumes "i \<in> int_range t"
  shows "quantize t (f64_of_int i) = f64_of_int i"
proof (cases t)
  case TBool
  with assms have "i = 0 \<or> i = 1" by auto
  with TBool show ?thesis by (auto simp: quantize_def f64_is_zero_of_int)
qed (use assms in \<open>auto simp: quantize_def f64_to_int_sat_of_int\<close>)

lemma to_u32_bytes: "to_u32 p = word_of_nat (unat (rp_high p) * 65536 + unat (rp_low p))"
proof -
  have "push_bit 16 (ucast (rp_high p) :: u32) AND ucast (rp_low p) = 0"
  proof (rule bit_word_eqI)
    fix n
    assume "n < LENGTH(32)"
    have "bit (ucast (rp_low p) :: u32) n \<Longrightarrow> n < 16"
      using bit_imp_le_length [of "rp_low p" n] by (simp add: bit_simps)
    then show "bit (push_bit 16 (ucast (rp_high p) :: u32) AND ucast (rp_low p)) n = bit (0 :: u32) n"
      by (auto simp: bit_simps)
  qed
  then have "to_u32 p = push_bit 16 (ucast (rp_high p)) + ucast (rp_low p)"
    using word_plus_and_or [of "push_bit 16 (ucast (rp_high p) :: u32)" "ucast (rp_low p)"]
    by (simp add: to_u32_def)
  then show ?thesis by (simp add: push_bit_eq_mult mult.commute)
qed

lemma be_value_pair:
  "be_value (be_bytes 2 (unat (h :: u16)) @ be_bytes 2 (unat (l :: u16))) = unat h * 65536 + unat l"
  by (simp add: be_value_append)

section \<open>Properties\<close>

text \<open>Reordering bytes is an involution for every byte order and every length, and keeps the
  length, so the same function both reads and writes a device's byte order.\<close>

theorem convert_byte_order_involution:
  "convert_byte_order (convert_byte_order xs ord) ord = xs \<and>
   length (convert_byte_order xs ord) = length xs"
  by simp

text \<open>C30: \<open>to_bytes\<close> always gives the number of bytes of the type, and reading them back with the
  same type and byte order gives the value saturated and rounded to the type (NaN reads back as 0
  for the integer types).\<close>

theorem to_bytes_then_from_bytes:
  "\<exists>bs. to_bytes v t ord = Some bs \<and> bytes_len t = Some (length bs) \<and>
        from_bytes bs t ord = Some (quantize t v)"
proof -
  obtain bs where bs: "to_bytes v t ord = Some bs" using to_bytes_convert by blast
  with from_bytes_to_bytes [of v t ord] length_to_bytes [OF bs] show ?thesis by simp
qed

text \<open>An integer in the range of an integer or boolean type survives writing and reading in any
  byte order without change.\<close>

theorem integers_survive:
  assumes "i \<in> int_range t"
  shows "\<exists>bs. to_bytes (f64_of_int i) t ord = Some bs \<and> from_bytes bs t ord = Some (f64_of_int i)
           \<and> f64_trunc (f64_of_int i) = i"
proof -
  obtain bs where bs: "to_bytes (f64_of_int i) t ord = Some bs" using to_bytes_convert by blast
  have "\<bar>i\<bar> < 2 ^ 53" using assms by (cases t) auto
  with from_bytes_to_bytes [of "f64_of_int i" t ord] bs quantize_of_int [OF assms] f64_of_int_exact
  show ?thesis by simp
qed

theorem integers_survive_witness:
  "\<exists>bs. to_bytes (f64_of_int (- 12345)) I32 MidBig = Some bs
        \<and> from_bytes bs I32 MidBig = Some (f64_of_int (- 12345))
        \<and> f64_trunc (f64_of_int (- 12345)) = - 12345"
  by (rule integers_survive) simp

text \<open>C31: Reading the bytes of a field and writing the value back restores the bytes, in every byte
  order, unless they are a binary32 NaN or a boolean byte above 1.\<close>

theorem from_bytes_then_to_bytes:
  assumes "canonical_bytes (convert_byte_order xs ord) t"
  shows "\<exists>v. from_bytes xs t ord = Some v \<and> to_bytes v t ord = Some xs"
proof -
  let ?ys = "convert_byte_order xs ord"
  from to_bytes_from_bytes_BigEndian [OF assms] obtain v
    where v: "from_bytes ?ys t BigEndian = Some v" "to_bytes v t BigEndian = Some ?ys"
    by (auto simp: Option.bind_eq_Some_conv)
  with from_bytes_convert [of ?ys ord t] to_bytes_convert [of v t ord] show ?thesis by simp
qed

theorem from_bytes_then_to_bytes_witness:
  "\<exists>v. from_bytes [0x9A, 0x42, 0xC1, 0x3F] TF32 MidBig = Some v
     \<and> to_bytes v TF32 MidBig = Some [0x9A, 0x42, 0xC1, 0x3F]"
  by (rule from_bytes_then_to_bytes)
     (simp add: canonical_bytes_def f32_is_nan_def f32_exp_def f32_frac_def be_value_def)

text \<open>The three conversions of a \<open>RegisterPair\<close> agree with the big-endian converter on the bytes
  of its two registers.\<close>

theorem register_pair_agrees:
  "let bs = be_bytes 2 (unat (rp_high p)) @ be_bytes 2 (unat (rp_low p)) in
   from_bytes bs U32 BigEndian = Some (f64_of_int (uint (to_u32 p))) \<and>
   from_bytes bs I32 BigEndian = Some (f64_of_int (to_i32 p)) \<and>
   from_bytes bs TF32 BigEndian = Some (f32_to_f64 (to_f32 p))"
  by (simp add: Let_def from_bytes_BigEndian be_value_pair to_i32_def to_f32_def to_u32_bytes
      del: of_nat_add of_nat_mult)

end
