(* ===== verification/Parsing.thy ===== *)
theory Parsing
  imports Json Data_Conversion
begin

text \<open>
  \<open>src/workers/modbus/parsing.rs\<close>: the registers of a signal group against its fields.  Reading
  parses each field out of the register buffer; writing encodes the members of a JSON object into
  a zeroed buffer (\<open>encode_fields_to_registers\<close>, whose indexed stores may panic) or field by
  field (\<open>encode_fields_for_partial_write\<close>).

  The lemmas relate the bytes of a field to its registers, follow the encoding loop over the
  buffer and lead to the round trip, to the exact condition of a panic and to the agreement of the
  partial writes with \<open>encode_single_field\<close>.
\<close>

section \<open>Definitions\<close>

record parsed_field =
  pf_name :: string
  pf_value :: f64
  pf_data_type :: data_type

record encoded_field =
  ef_name :: string
  ef_offset :: u16
  ef_registers :: "u16 list"

fun bytes_to_registers :: "u8 list \<Rightarrow> u16 list" where
  "bytes_to_registers (high # low # bs) =
     (push_bit 8 (ucast high) OR ucast low) # bytes_to_registers bs"
| "bytes_to_registers [high] = [ucast high]"
| "bytes_to_registers [] = []"

definition extract_bytes_from_registers :: "u16 list \<Rightarrow> nat \<Rightarrow> nat \<Rightarrow> u8 list" where
  "extract_bytes_from_registers registers offset byte_count =
     (let registers_needed = (byte_count + 1) div 2;
          bytes = concat (map (\<lambda>i.
            if offset + i < length registers
            then let reg = registers ! (offset + i) in
              (if byte_count = 1 then [ucast (reg AND 0xFF)]
               else [ucast (drop_bit 8 reg), ucast (reg AND 0xFF)])
            else []) [0..<registers_needed])
      in take byte_count bytes)"

definition field_map :: "field_mapping list \<Rightarrow> (string \<rightharpoonup> field_mapping)" where
  "field_map fms = hash_collect (map (\<lambda>f. (fm_name f, f)) fms)"

definition encode_single_field ::
  "'n number_api \<Rightarrow> string \<Rightarrow> 'n json \<Rightarrow> field_mapping list \<Rightarrow> byte_order \<Rightarrow> encoded_field option" where
  "encode_single_field api name v fms ord =
     (case find (\<lambda>f. fm_name f = name) fms of
        None \<Rightarrow> None
      | Some f \<Rightarrow> (case as_f64 api v of
          None \<Rightarrow> None
        | Some x \<Rightarrow> (case to_bytes x (fm_data_type f) ord of
            None \<Rightarrow> None
          | Some bs \<Rightarrow> Some \<lparr>ef_name = name, ef_offset = fm_offset f,
                            ef_registers = bytes_to_registers bs\<rparr>)))"

fun encode_partial_loop ::
  "'n number_api \<Rightarrow> (string \<rightharpoonup> field_mapping) \<Rightarrow> byte_order \<Rightarrow> (string \<times> 'n json) list
     \<Rightarrow> encoded_field list" where
  "encode_partial_loop api fmap ord [] = []"
| "encode_partial_loop api fmap ord ((name, v) # data) =
     (let rest = encode_partial_loop api fmap ord data in
      case fmap name of
        None \<Rightarrow> rest
      | Some f \<Rightarrow> (case as_f64 api v of
          None \<Rightarrow> rest
        | Some x \<Rightarrow> (case to_bytes x (fm_data_type f) ord of
            None \<Rightarrow> rest
          | Some bs \<Rightarrow> \<lparr>ef_name = name, ef_offset = fm_offset f,
                       ef_registers = bytes_to_registers bs\<rparr> # rest)))"

definition encode_fields_for_partial_write ::
  "'n number_api \<Rightarrow> (string \<times> 'n json) list \<Rightarrow> field_mapping list \<Rightarrow> byte_order \<Rightarrow> encoded_field list"
where
  "encode_fields_for_partial_write api data fms ord =
     encode_partial_loop api (field_map fms) ord data"

fun field_byte_count :: "data_type \<Rightarrow> nat" where
  "field_byte_count TBool = 1"
| "field_byte_count U16 = 2"
| "field_byte_count I16 = 2"
| "field_byte_count U32 = 4"
| "field_byte_count I32 = 4"
| "field_byte_count TF32 = 4"
| "field_byte_count TF64 = 8"

fun field_registers :: "data_type \<Rightarrow> nat" where
  "field_registers U16 = 1"
| "field_registers I16 = 1"
| "field_registers TBool = 1"
| "field_registers U32 = 2"
| "field_registers I32 = 2"
| "field_registers TF32 = 2"
| "field_registers TF64 = 4"

fun parse_signal_group_fields ::
  "u16 list \<Rightarrow> field_mapping list \<Rightarrow> byte_order \<Rightarrow> parsed_field list" where
  "parse_signal_group_fields registers [] ord = []"
| "parse_signal_group_fields registers (f # fms) ord =
     (let rest = parse_signal_group_fields registers fms ord;
          offset = unat (fm_offset f)
      in if length registers < offset + field_registers (fm_data_type f) then rest
         else case from_bytes (extract_bytes_from_registers registers offset
                                 (field_byte_count (fm_data_type f))) (fm_data_type f) ord of
                None \<Rightarrow> rest
              | Some v \<Rightarrow> \<lparr>pf_name = fm_name f, pf_value = v, pf_data_type = fm_data_type f\<rparr> # rest)"

text \<open>\<open>for (i, reg) in regs.enumerate() { registers[offset + i] = reg }\<close>\<close>

fun store_registers :: "u16 list \<Rightarrow> nat \<Rightarrow> u16 list \<Rightarrow> u16 list outcome" where
  "store_registers registers i [] = Ret registers"
| "store_registers registers i (r # rs) =
     bind_outcome (vec_store registers i r) (\<lambda>registers'. store_registers registers' (Suc i) rs)"

fun encode_loop ::
  "'n number_api \<Rightarrow> (string \<rightharpoonup> field_mapping) \<Rightarrow> u16 \<Rightarrow> byte_order \<Rightarrow> u16 list
     \<Rightarrow> (string \<times> 'n json) list \<Rightarrow> u16 list option outcome" where
  "encode_loop api fmap cnt ord registers [] = Ret (Some registers)"
| "encode_loop api fmap cnt ord registers ((name, v) # data) =
     (case fmap name of
        None \<Rightarrow> Ret None
      | Some f \<Rightarrow> (case as_f64 api v of
          None \<Rightarrow> Ret None
        | Some x \<Rightarrow> (case to_bytes x (fm_data_type f) ord of
            None \<Rightarrow> Ret None
          | Some bs \<Rightarrow>
              (let end_offset = saturating_add (fm_offset f) (required_registers (fm_data_type f))
               in if cnt < end_offset then Ret None
                  else bind_outcome
                    (store_registers registers (unat (fm_offset f)) (bytes_to_registers bs))
                    (\<lambda>registers'. encode_loop api fmap cnt ord registers' data)))))"

definition encode_fields_to_registers ::
  "'n number_api \<Rightarrow> (string \<times> 'n json) list \<Rightarrow> field_mapping list \<Rightarrow> u16 \<Rightarrow> byte_order
     \<Rightarrow> u16 list option outcome" where
  "encode_fields_to_registers api data fms cnt ord =
     encode_loop api (field_map fms) cnt ord (replicate (unat cnt) 0) data"

section \<open>Bytes and registers\<close>

lemma bytes_len_count: "bytes_len t = Some (field_byte_count t)"
  by (cases t) simp_all

lemma unat_required_field_registers: "unat (required_registers t) = field_registers t"
  by (cases t) simp_all

lemma byte_count_registers: "(field_byte_count t + 1) div 2 = field_registers t"
  by (cases t) simp_all

lemma field_registers_pos: "0 < field_registers t" "field_registers t \<le> 4"
  by (cases t; simp)+

lemma length_bytes_to_registers: "length (bytes_to_registers bs) = (length bs + 1) div 2"
  by (induction bs rule: bytes_to_registers.induct) simp_all

lemma join_bytes:
  "ucast (drop_bit 8 (push_bit 8 (ucast (h :: u8)) OR ucast (l :: u8) :: u16)) = h"
  "ucast ((push_bit 8 (ucast (h :: u8)) OR ucast (l :: u8) :: u16) AND 0xFF) = l"
proof -
  have m: "(0xFF :: u16) = mask 8" by (simp add: mask_eq_exp_minus_1)
  have z: "\<not> bit l n" if "8 \<le> n" for n using bit_imp_le_length [of l n] that by auto
  show "ucast (drop_bit 8 (push_bit 8 (ucast h) OR ucast l :: u16)) = h"
    by (rule bit_word_eqI) (auto simp: bit_simps z)
  show "ucast ((push_bit 8 (ucast h) OR ucast l :: u16) AND 0xFF) = l"
    unfolding m by (rule bit_word_eqI) (auto simp: bit_simps)
qed

lemma low_byte: "ucast ((ucast (b :: u8) :: u16) AND 0xFF) = b"
  using join_bytes(2) [of 0 b] by simp

lemma bytes_to_registers_even:
  assumes "length bs = 2 * k"
  shows "concat (map (\<lambda>r. [ucast (drop_bit 8 r), ucast (r AND 0xFF)]) (bytes_to_registers bs)) = bs"
  using assms
proof (induction bs arbitrary: k rule: bytes_to_registers.induct)
  case (1 high low bs)
  then show ?case by (cases k) (simp_all add: join_bytes del: drop_bit_or)
qed auto

text \<open>The registers of a field, cut out of a buffer.\<close>

definition slice :: "nat \<Rightarrow> nat \<Rightarrow> 'a list \<Rightarrow> 'a list" where
  "slice i k xs = take k (drop i xs)"

lemma slice_map_nth: "i + k \<le> length xs \<Longrightarrow> slice i k xs = map (\<lambda>j. xs ! (i + j)) [0..<k]"
  by (rule nth_equalityI) (simp_all add: slice_def)

lemma extract_bytes_slice:
  assumes "slice i (field_registers t) regs = bytes_to_registers bs"
    and "length bs = field_byte_count t" and "i + field_registers t \<le> length regs"
  shows "extract_bytes_from_registers regs i (field_byte_count t) = bs"
proof -
  let ?k = "field_registers t"
  let ?g = "\<lambda>r :: u16. if field_byte_count t = 1 then [ucast (r AND 0xFF)]
              else [ucast (drop_bit 8 r), ucast (r AND 0xFF) :: u8]"
  have "map (\<lambda>j. if i + j < length regs then ?g (regs ! (i + j)) else []) [0..<?k]
      = map ?g (slice i ?k regs)"
    unfolding slice_map_nth [OF assms(3)] using assms(3) by auto
  then have e: "extract_bytes_from_registers regs i (field_byte_count t)
      = take (field_byte_count t) (concat (map ?g (bytes_to_registers bs)))"
    unfolding extract_bytes_from_registers_def byte_count_registers Let_def assms(1) [symmetric]
    by (rule arg_cong [where f = "\<lambda>xss. take (field_byte_count t) (concat xss)"])
  show ?thesis
  proof (cases "t = TBool")
    case True
    with assms(2) obtain b where "bs = [b]" by (cases bs) auto
    with e True show ?thesis by (simp add: low_byte)
  next
    case False
    then have "field_byte_count t \<noteq> 1" "\<exists>k. length bs = 2 * k"
      using assms(2) by (cases t; simp; presburger)+
    then obtain k where "length bs = 2 * k" "field_byte_count t \<noteq> 1" by blast
    with e bytes_to_registers_even [of bs k] assms(2) show ?thesis by simp
  qed
qed

section \<open>The encoding loop\<close>

lemma store_registers_eq:
  "store_registers regs i rs =
     (if rs = [] \<or> i + length rs \<le> length regs
      then Ret (take i regs @ rs @ drop (i + length rs) regs) else Panic)"
proof (induction rs arbitrary: regs i)
  case (Cons r rs)
  show ?case
  proof (cases "i < length regs")
    case True
    then have "take (Suc i) (regs[i := r]) = take i regs @ [r]"
      by (simp add: take_Suc_conv_app_nth)
    with True show ?thesis
      by (simp add: Cons.IH vec_store_def add_ac)
  qed (simp add: Cons.IH vec_store_def)
qed simp

lemma slice_stored:
  assumes "i + length rs \<le> length regs"
  shows "slice i (length rs) (take i regs @ rs @ drop (i + length rs) regs) = rs"
  using assms by (simp add: slice_def)

lemma slice_frame:
  assumes "i + length rs \<le> length regs" and "j + k \<le> i \<or> i + length rs \<le> j"
  shows "slice j k (take i regs @ rs @ drop (i + length rs) regs) = slice j k regs"
proof -
  have "take k (drop j (take i regs)) = take k (drop j regs)" if "j + k \<le> i"
    using that by (simp add: drop_take)
  moreover have "drop (j - i - length rs) (drop (i + length rs) regs) = drop j regs"
    if "i + length rs \<le> j" using that by simp
  ultimately show ?thesis using assms by (auto simp: slice_def)
qed

text \<open>The place of a field in the buffer; the unsaturated check that it fits.\<close>

definition in_buffer :: "nat \<Rightarrow> field_mapping \<Rightarrow> bool" where
  "in_buffer n f \<longleftrightarrow> unat (fm_offset f) + field_registers (fm_data_type f) \<le> n"

definition apart :: "field_mapping \<Rightarrow> field_mapping \<Rightarrow> bool" where
  "apart f g \<longleftrightarrow>
     unat (fm_offset f) + field_registers (fm_data_type f) \<le> unat (fm_offset g) \<or>
     unat (fm_offset g) + field_registers (fm_data_type g) \<le> unat (fm_offset f)"

definition field_slice :: "field_mapping \<Rightarrow> u16 list \<Rightarrow> u16 list" where
  "field_slice f regs = slice (unat (fm_offset f)) (field_registers (fm_data_type f)) regs"

definition field_code :: "field_mapping \<Rightarrow> byte_order \<Rightarrow> f64 \<Rightarrow> u16 list" where
  "field_code f ord x = bytes_to_registers (the (to_bytes x (fm_data_type f) ord))"

lemma to_bytes_Some: "to_bytes x t ord = Some (the (to_bytes x t ord))"
  using to_bytes_convert [of x t ord] by (simp only: option.sel)

lemma length_field_code: "length (field_code f ord x) = field_registers (fm_data_type f)"
  using length_to_bytes [OF to_bytes_Some [of x "fm_data_type f" ord]]
  by (simp add: field_code_def length_bytes_to_registers bytes_len_count byte_count_registers [symmetric])

lemma in_buffer_end_offset:
  "in_buffer (unat cnt) f \<Longrightarrow> \<not> cnt < saturating_add (fm_offset f) (required_registers (fm_data_type f))"
  by (simp add: in_buffer_def word_less_nat_alt unat_saturating_add unat_required_field_registers)

text \<open>One round of the encoding loop.\<close>

lemma encode_loop_Cons:
  "encode_loop api fmap cnt ord regs ((name, v) # data) =
     (case fmap name of
        None \<Rightarrow> Ret None
      | Some f \<Rightarrow> (case as_f64 api v of
          None \<Rightarrow> Ret None
        | Some x \<Rightarrow>
            if cnt < saturating_add (fm_offset f) (required_registers (fm_data_type f)) then Ret None
            else if in_buffer (length regs) f
            then encode_loop api fmap cnt ord
                   (take (unat (fm_offset f)) regs @ field_code f ord x @
                    drop (unat (fm_offset f) + field_registers (fm_data_type f)) regs) data
            else Panic))"
proof (cases "fmap name")
  case (Some f)
  show ?thesis
  proof (cases "as_f64 api v")
    case x: (Some x)
    obtain bs where bs: "to_bytes x (fm_data_type f) ord = Some bs" using to_bytes_convert by blast
    then have "field_code f ord x = bytes_to_registers bs" by (simp add: field_code_def)
    moreover from this have "length (bytes_to_registers bs) = field_registers (fm_data_type f)"
      "bytes_to_registers bs \<noteq> []"
      using length_field_code [of f ord x] field_registers_pos(1) [of "fm_data_type f"] by auto
    ultimately show ?thesis
      using Some x bs by (simp add: store_registers_eq in_buffer_def)
  qed (simp add: Some)
qed simp

lemma encode_loop_length:
  "encode_loop api fmap cnt ord regs data = Ret (Some regs') \<Longrightarrow> length regs' = length regs"
  by (induction data arbitrary: regs)
     (auto simp: encode_loop_Cons length_field_code in_buffer_def simp del: encode_loop.simps(2)
       split: option.splits if_splits)

lemma encode_loop_frame:
  assumes "encode_loop api fmap cnt ord regs data = Ret (Some regs')"
    and "\<forall>n \<in> fst ` set data. \<forall>g. fmap n = Some g \<longrightarrow> apart f g"
  shows "field_slice f regs' = field_slice f regs"
  using assms
proof (induction data arbitrary: regs)
  case (Cons nv data)
  obtain name v where nv: "nv = (name, v)" by (cases nv)
  with Cons.prems(1) obtain g x where g: "fmap name = Some g" "in_buffer (length regs) g"
    and e: "encode_loop api fmap cnt ord
       (take (unat (fm_offset g)) regs @ field_code g ord x @
        drop (unat (fm_offset g) + field_registers (fm_data_type g)) regs) data = Ret (Some regs')"
    by (auto simp: encode_loop_Cons simp del: encode_loop.simps(2) split: option.splits if_splits)
  from g Cons.prems(2) nv have "apart f g" by simp
  with g slice_frame [of "unat (fm_offset g)" "field_code g ord x" regs]
  have "field_slice f (take (unat (fm_offset g)) regs @ field_code g ord x @
        drop (unat (fm_offset g) + field_registers (fm_data_type g)) regs) = field_slice f regs"
    by (auto simp: field_slice_def length_field_code in_buffer_def apart_def)
  with Cons.IH [OF e] Cons.prems(2) show ?case by simp
qed simp

lemma encode_loop_succeeds:
  assumes "length regs = unat cnt"
    and "\<forall>(n, v) \<in> set data. \<exists>f x. fmap n = Some f \<and> as_f64 api v = Some x \<and> in_buffer (unat cnt) f"
  shows "\<exists>regs'. encode_loop api fmap cnt ord regs data = Ret (Some regs')"
  using assms
proof (induction data arbitrary: regs)
  case (Cons nv data)
  obtain n v where nv: "nv = (n, v)" by (cases nv)
  with Cons.prems obtain f x where "fmap n = Some f" "as_f64 api v = Some x" "in_buffer (unat cnt) f"
    by auto
  with Cons nv in_buffer_end_offset [of cnt f] show ?case
    by (simp add: encode_loop_Cons length_field_code in_buffer_def del: encode_loop.simps(2))
qed simp

lemma encode_loop_contents:
  assumes "encode_loop api fmap cnt ord regs data = Ret (Some regs')"
    and "distinct (map fst data)" and "(n, v) \<in> set data"
    and "\<forall>m \<in> fst ` set data. \<forall>m' \<in> fst ` set data. \<forall>f g.
           m \<noteq> m' \<longrightarrow> fmap m = Some f \<longrightarrow> fmap m' = Some g \<longrightarrow> apart f g"
  shows "\<exists>f x. fmap n = Some f \<and> as_f64 api v = Some x \<and> field_slice f regs' = field_code f ord x"
  using assms
proof (induction data arbitrary: regs)
  case (Cons mw data)
  obtain m w where mw: "mw = (m, w)" by (cases mw)
  with Cons.prems(1) obtain g x where g: "fmap m = Some g" "as_f64 api w = Some x"
    "in_buffer (length regs) g"
    and e: "encode_loop api fmap cnt ord
       (take (unat (fm_offset g)) regs @ field_code g ord x @
        drop (unat (fm_offset g) + field_registers (fm_data_type g)) regs) data = Ret (Some regs')"
    by (auto simp: encode_loop_Cons simp del: encode_loop.simps(2) split: option.splits if_splits)
  show ?case
  proof (cases "(n, v) \<in> set data")
    case True
    with Cons.IH [OF e] Cons.prems(2,4) show ?thesis by auto
  next
    case False
    with Cons.prems(3) mw have nv: "n = m" "v = w" by auto
    have "field_slice g regs' = field_slice g (take (unat (fm_offset g)) regs @ field_code g ord x @
        drop (unat (fm_offset g) + field_registers (fm_data_type g)) regs)"
      using Cons.prems(2,4) g(1) mw by (intro encode_loop_frame [OF e]) fastforce
    also have "\<dots> = field_code g ord x"
      using slice_stored [of "unat (fm_offset g)" "field_code g ord x" regs] g(3)
      by (simp add: field_slice_def length_field_code in_buffer_def)
    finally show ?thesis using g nv by blast
  qed
qed simp

section \<open>Parsing what was encoded\<close>

lemma parse_fields_eq:
  assumes "\<forall>f \<in> set fms. in_buffer (length regs) f \<and>
      (\<exists>bs. field_slice f regs = bytes_to_registers bs \<and>
            length bs = field_byte_count (fm_data_type f) \<and>
            from_bytes bs (fm_data_type f) ord = Some (val f))"
  shows "parse_signal_group_fields regs fms ord =
     map (\<lambda>f. \<lparr>pf_name = fm_name f, pf_value = val f, pf_data_type = fm_data_type f\<rparr>) fms"
  using assms
proof (induction fms)
  case (Cons f fms)
  then obtain bs where f: "unat (fm_offset f) + field_registers (fm_data_type f) \<le> length regs"
    "slice (unat (fm_offset f)) (field_registers (fm_data_type f)) regs = bytes_to_registers bs"
    "length bs = field_byte_count (fm_data_type f)"
    "from_bytes bs (fm_data_type f) ord = Some (val f)"
    by (auto simp: in_buffer_def field_slice_def)
  with Cons extract_bytes_slice [OF f(2,3,1)] show ?case by simp
qed simp

lemma convert_byte_order_replicate: "convert_byte_order (replicate n b) ord = replicate n b"
proof -
  have "set (swap_in_words xs) = set xs" for xs :: "u8 list"
    by (induction xs rule: swap_in_words.induct) auto
  then have "swap_in_words (replicate n b) = replicate n b"
    by (intro replicate_eqI) (auto simp: in_set_replicate)
  then show ?thesis by (cases ord) (auto simp: eval_nat_numeral)
qed

lemma bytes_to_registers_zero:
  "bytes_to_registers (replicate n 0) = replicate ((n + 1) div 2) 0"
proof -
  have "set (bytes_to_registers bs) \<subseteq> {0}" if "set bs \<subseteq> {0}" for bs
    using that by (induction bs rule: bytes_to_registers.induct) auto
  then have "set (bytes_to_registers (replicate n 0)) \<subseteq> {0}" by (auto simp: set_replicate_conv_if)
  then show ?thesis by (intro replicate_eqI) (auto simp: length_bytes_to_registers)
qed

lemma f64_of_int_0: "f64_of_int 0 = F64 0"
  by (simp add: f64_of_int_def f64_of_nat_def f64_make_def)

lemma from_bytes_zero: "from_bytes (replicate (field_byte_count t) 0) t ord = Some (F64 0)"
proof -
  have z: "be_value (replicate n 0) = 0" for n by (induction n) (simp_all add: be_value_def)
  have "from_bytes (replicate (field_byte_count t) 0) t BigEndian = Some (F64 0)"
    by (subst from_bytes_BigEndian)
       (simp_all add: bytes_len_count z f64_of_int_0 f32_to_f64_def f32_exp_def f32_frac_def
          f32_neg_def f64_make_def split: data_type.split)
  then show ?thesis
    using from_bytes_convert [of "replicate (field_byte_count t) 0" ord t]
    by (simp add: convert_byte_order_replicate)
qed

lemma field_slice_replicate:
  "in_buffer n f \<Longrightarrow> field_slice f (replicate n 0) = replicate (field_registers (fm_data_type f)) 0"
  by (simp add: in_buffer_def field_slice_def slice_def min_def)

lemma field_map_find:
  "distinct (map fm_name fms) \<Longrightarrow> field_map fms name = find (\<lambda>f. fm_name f = name) fms"
  by (simp add: field_map_def hash_collect_distinct o_def)
     (induction fms; auto)

lemma find_name:
  "distinct (map fm_name fms) \<Longrightarrow> f \<in> set fms \<Longrightarrow> find (\<lambda>g. fm_name g = fm_name f) fms = Some f"
  by (induction fms) auto

lemma find_name_Some: "find (\<lambda>f. fm_name f = name) fms = Some f \<Longrightarrow> f \<in> set fms \<and> fm_name f = name"
  by (auto simp: find_Some_iff)

text \<open>Fields that are named once, lie in a buffer of \<open>n\<close> registers and do not overlap.\<close>

definition layout_ok :: "nat \<Rightarrow> field_mapping list \<Rightarrow> bool" where
  "layout_ok n fms \<longleftrightarrow>
     distinct (map fm_name fms) \<and> (\<forall>f \<in> set fms. in_buffer n f) \<and>
     (\<forall>f \<in> set fms. \<forall>g \<in> set fms. f \<noteq> g \<longrightarrow> apart f g)"

text \<open>The members of the object: one per name, each a number for a field of the group.\<close>

definition data_ok :: "'n number_api \<Rightarrow> field_mapping list \<Rightarrow> (string \<times> 'n json) list \<Rightarrow> bool" where
  "data_ok api fms data \<longleftrightarrow>
     distinct (map fst data) \<and>
     (\<forall>(n, v) \<in> set data. n \<in> fm_name ` set fms \<and> as_f64 api v \<noteq> None)"

text \<open>The value of a field after a write: what its type makes of the member, or zero.\<close>

definition written_value :: "'n number_api \<Rightarrow> (string \<times> 'n json) list \<Rightarrow> field_mapping \<Rightarrow> f64" where
  "written_value api data f =
     (case Option.bind (map_of data (fm_name f)) (as_f64 api) of
        None \<Rightarrow> F64 0 | Some x \<Rightarrow> quantize (fm_data_type f) x)"

lemma encode_then_parse:
  assumes lay: "layout_ok (unat cnt) fms" and data: "data_ok api fms data"
  shows "\<exists>regs. encode_fields_to_registers api data fms cnt ord = Ret (Some regs) \<and>
           length regs = unat cnt \<and>
           parse_signal_group_fields regs fms ord =
             map (\<lambda>f. \<lparr>pf_name = fm_name f, pf_value = written_value api data f,
                       pf_data_type = fm_data_type f\<rparr>) fms"
proof -
  let ?zero = "replicate (unat cnt) (0 :: u16)" and ?find = "\<lambda>n. find (\<lambda>f. fm_name f = n) fms"
  have dist: "distinct (map fm_name fms)" and inb: "\<forall>f \<in> set fms. in_buffer (unat cnt) f"
    and apart: "\<forall>f \<in> set fms. \<forall>g \<in> set fms. f \<noteq> g \<longrightarrow> apart f g"
    using lay by (auto simp: layout_ok_def)
  note fm = field_map_find [OF dist]
  have ok: "\<forall>(n, v) \<in> set data. \<exists>f x. field_map fms n = Some f \<and> as_f64 api v = Some x \<and>
      in_buffer (unat cnt) f"
    using data inb find_name [OF dist] by (fastforce simp: data_ok_def fm)
  obtain regs where e: "encode_loop api (field_map fms) cnt ord ?zero data = Ret (Some regs)"
    using encode_loop_succeeds [of ?zero cnt data "field_map fms" api ord] ok by auto
  have len: "length regs = unat cnt" using encode_loop_length [OF e] by simp
  have "\<exists>bs. field_slice f regs = bytes_to_registers bs \<and>
            length bs = field_byte_count (fm_data_type f) \<and>
            from_bytes bs (fm_data_type f) ord = Some (written_value api data f)"
    if f: "f \<in> set fms" for f
  proof (cases "map_of data (fm_name f)")
    case None
    then have "\<forall>n \<in> fst ` set data. \<forall>g. field_map fms n = Some g \<longrightarrow> apart f g"
      using apart f by (auto simp: fm map_of_eq_None_iff dest!: find_name_Some) force
    from encode_loop_frame [OF e this] field_slice_replicate inb f
    have "field_slice f regs = bytes_to_registers (replicate (field_byte_count (fm_data_type f)) 0)"
      by (simp add: bytes_to_registers_zero flip: byte_count_registers)
    with None show ?thesis
      using from_bytes_zero by (intro exI [of _ "replicate (field_byte_count (fm_data_type f)) 0"])
        (simp add: written_value_def)
  next
    case (Some v)
    have "distinct (map fst data)" using data by (simp add: data_ok_def)
    moreover have "\<forall>m \<in> fst ` set data. \<forall>m' \<in> fst ` set data. \<forall>f g. m \<noteq> m' \<longrightarrow>
        field_map fms m = Some f \<longrightarrow> field_map fms m' = Some g \<longrightarrow> apart f g"
      using apart by (metis fm find_name_Some)
    ultimately obtain g x where g: "field_map fms (fm_name f) = Some g" "as_f64 api v = Some x"
      "field_slice g regs = field_code g ord x"
      using encode_loop_contents [OF e _ map_of_SomeD [OF Some]] by blast
    then have "g = f" using find_name [OF dist f] by (simp add: fm)
    obtain bs where bs: "to_bytes x (fm_data_type f) ord = Some bs" using to_bytes_convert by blast
    show ?thesis
      using g \<open>g = f\<close> Some bs length_to_bytes [OF bs] from_bytes_to_bytes [of x "fm_data_type f" ord]
      by (intro exI [of _ bs]) (simp add: field_code_def bytes_len_count written_value_def)
  qed
  with inb len have "parse_signal_group_fields regs fms ord =
      map (\<lambda>f. \<lparr>pf_name = fm_name f, pf_value = written_value api data f,
                pf_data_type = fm_data_type f\<rparr>) fms"
    by (intro parse_fields_eq) auto
  with e len show ?thesis by (simp add: encode_fields_to_registers_def)
qed

lemma encode_loop_Panic:
  "encode_loop api fmap cnt ord regs data = Panic \<Longrightarrow> length regs = unat cnt \<Longrightarrow>
     \<exists>n \<in> fst ` set data. \<exists>f. fmap n = Some f \<and> \<not> in_buffer (unat cnt) f \<and>
       \<not> cnt < saturating_add (fm_offset f) (required_registers (fm_data_type f))"
proof (induction data arbitrary: regs)
  case (Cons nv data)
  obtain n v where nv: "nv = (n, v)" by (cases nv)
  from Cons.prems obtain f x where f: "fmap n = Some f" "as_f64 api v = Some x"
    "\<not> cnt < saturating_add (fm_offset f) (required_registers (fm_data_type f))"
    by (auto simp: nv encode_loop_Cons simp del: encode_loop.simps(2) split: option.splits if_splits)
  show ?case
  proof (cases "in_buffer (unat cnt) f")
    case False
    with f nv show ?thesis by (intro bexI [of _ n]) auto
  next
    case True
    let ?regs = "take (unat (fm_offset f)) regs @ field_code f ord x @
        drop (unat (fm_offset f) + field_registers (fm_data_type f)) regs"
    have "length ?regs = unat cnt"
      using True Cons.prems(2) by (simp add: length_field_code in_buffer_def)
    moreover have "encode_loop api fmap cnt ord ?regs data = Panic"
      using Cons.prems True f by (simp add: nv encode_loop_Cons del: encode_loop.simps(2))
    ultimately show ?thesis using Cons.IH by fastforce
  qed
qed simp

lemma not_in_buffer_saturates:
  "\<not> in_buffer (unat cnt) f \<Longrightarrow>
   \<not> cnt < saturating_add (fm_offset f) (required_registers (fm_data_type f)) \<Longrightarrow>
   cnt = 65535 \<and> 65535 < unat (fm_offset f) + field_registers (fm_data_type f)"
proof -
  assume a: "\<not> in_buffer (unat cnt) f"
    and b: "\<not> cnt < saturating_add (fm_offset f) (required_registers (fm_data_type f))"
  from b have "min (unat (fm_offset f) + field_registers (fm_data_type f)) 65535 \<le> unat cnt"
    unfolding end_offset_le_iff by (simp add: field_fits_def unat_required_field_registers)
  with a have "65535 \<le> unat cnt" by (auto simp: in_buffer_def min_le_iff_disj)
  with unat_u16_less [of cnt] have "unat cnt = 65535" by linarith
  with a have "unat cnt = 65535" "65535 < unat (fm_offset f) + field_registers (fm_data_type f)"
    by (simp_all add: in_buffer_def)
  then show ?thesis by (simp add: word_unat_eq_iff)
qed

lemma encode_partial_loop_eq:
  assumes "\<forall>n. fmap n = find (\<lambda>f. fm_name f = n) fms"
  shows "encode_partial_loop api fmap ord data =
     List.map_filter (\<lambda>(n, v). encode_single_field api n v fms ord) data"
proof -
  have step: "encode_partial_loop api fmap ord ((n, v) # data) =
     (case encode_single_field api n v fms ord of
        None \<Rightarrow> encode_partial_loop api fmap ord data
      | Some e \<Rightarrow> e # encode_partial_loop api fmap ord data)" for n v data
    using assms by (simp add: encode_single_field_def Let_def split: option.split)
  show ?thesis
    by (induction data)
       (auto simp: step map_filter_simps simp del: encode_partial_loop.simps(2) split: option.split)
qed

section \<open>Types of the parsed values\<close>

text \<open>The values a field of a type can hold.\<close>

fun value_of_type :: "data_type \<Rightarrow> f64 \<Rightarrow> bool" where
  "value_of_type TF32 v \<longleftrightarrow> (\<exists>w. v = f32_to_f64 (F32 w))"
| "value_of_type TF64 v \<longleftrightarrow> True"
| "value_of_type t v \<longleftrightarrow> (\<exists>i \<in> int_range t. v = f64_of_int i)"

lemma value_of_type_int: "i \<in> int_range t \<Longrightarrow> value_of_type t (f64_of_int i)"
  by (cases t) auto

lemma word_value_of_type:
  "value_of_type U16 (f64_of_int (uint (w :: u16)))" "value_of_type I16 (f64_of_int (sint w))"
  "value_of_type U32 (f64_of_int (uint (x :: u32)))" "value_of_type I32 (f64_of_int (sint x))"
proof -
  have "uint w \<in> int_range U16" "uint x \<in> int_range U32"
    using uint_bounded [of w] uint_bounded [of x] by simp_all
  moreover have "sint w \<in> int_range I16" "sint x \<in> int_range I32"
    using sint_greater_eq [of w] sint_less [of w] sint_greater_eq [of x] sint_less [of x] by simp_all
  ultimately show "value_of_type U16 (f64_of_int (uint w))" "value_of_type I16 (f64_of_int (sint w))"
    "value_of_type U32 (f64_of_int (uint x))" "value_of_type I32 (f64_of_int (sint x))"
    by (simp_all only: value_of_type_int)
qed

lemma other_value_of_type:
  "value_of_type TF32 (f32_to_f64 z)" "value_of_type TF64 v"
  "value_of_type TBool (f64_of_int (if b then 1 else 0))"
  using value_of_type_int [of "if b then 1 else 0" TBool] by (cases z; auto)+

lemma from_bytes_BigEndian_typed:
  assumes "bytes_len t = Some (length bs)"
  shows "\<exists>v. from_bytes bs t BigEndian = Some v \<and> value_of_type t v"
  using assms
  by (cases t) (simp_all only: from_bytes_BigEndian data_type.case option.inject word_value_of_type
      other_value_of_type ex_simps simp_thms)

lemma from_bytes_typed:
  assumes "length bs = field_byte_count t"
  shows "\<exists>v. from_bytes bs t ord = Some v \<and> value_of_type t v"
  using from_bytes_BigEndian_typed [of t "convert_byte_order bs ord"] assms
    from_bytes_convert [of "convert_byte_order bs ord" ord t] by (simp add: bytes_len_count)

lemma length_concat_const: "(\<And>j. j < k \<Longrightarrow> length (g j) = c) \<Longrightarrow> length (concat (map g [0..<k])) = k * c"
  by (induction k) simp_all

lemma length_extract_bytes:
  assumes "i + field_registers t \<le> length regs"
  shows "length (extract_bytes_from_registers regs i (field_byte_count t)) = field_byte_count t"
proof -
  let ?n = "field_byte_count t" and ?k = "field_registers t"
  have "length (extract_bytes_from_registers regs i ?n) = min (?k * (if ?n = 1 then 1 else 2)) ?n"
    unfolding extract_bytes_from_registers_def byte_count_registers Let_def length_take
    using assms by (subst length_concat_const [where c = "if ?n = 1 then 1 else 2"]) auto
  then show ?thesis by (cases t) simp_all
qed

lemma parse_field_typed:
  assumes "in_buffer (length regs) f"
  shows "\<exists>v. value_of_type (fm_data_type f) v \<and>
     parse_signal_group_fields regs (f # fms) ord =
       \<lparr>pf_name = fm_name f, pf_value = v, pf_data_type = fm_data_type f\<rparr> #
       parse_signal_group_fields regs fms ord"
proof -
  have "unat (fm_offset f) + field_registers (fm_data_type f) \<le> length regs"
    using assms by (simp add: in_buffer_def)
  moreover from this obtain v where "from_bytes (extract_bytes_from_registers regs (unat (fm_offset f))
      (field_byte_count (fm_data_type f))) (fm_data_type f) ord = Some v"
    "value_of_type (fm_data_type f) v"
    using from_bytes_typed [OF length_extract_bytes] by blast
  ultimately show ?thesis by simp
qed

lemma parse_field_outside:
  "\<not> in_buffer (length regs) f \<Longrightarrow>
   parse_signal_group_fields regs (f # fms) ord = parse_signal_group_fields regs fms ord"
  by (simp add: in_buffer_def)

section \<open>Properties\<close>

definition sample_field :: "string \<Rightarrow> data_type \<Rightarrow> u16 \<Rightarrow> field_mapping" where
  "sample_field n t i = \<lparr>fm_name = n, fm_data_type = t, fm_offset = i\<rparr>"

text \<open>C2: Writing a JSON object into the registers of a group and parsing them gives, in the order of
  the fields, each member's value as its type stores it and zero for the fields without a member:
  for every byte order, when the fields have distinct names, lie within the group and do not
  overlap, and the members are numbers named after fields.\<close>

theorem encode_then_parse_roundtrip:
  assumes "layout_ok (unat cnt) fms" and "data_ok api fms data"
  shows "\<exists>regs. encode_fields_to_registers api data fms cnt ord = Ret (Some regs) \<and>
           length regs = unat cnt \<and>
           parse_signal_group_fields regs fms ord =
             map (\<lambda>f. \<lparr>pf_name = fm_name f, pf_value = written_value api data f,
                       pf_data_type = fm_data_type f\<rparr>) fms"
  using assms by (rule encode_then_parse)

theorem encode_then_parse_roundtrip_witness:
  "\<exists>regs. encode_fields_to_registers sample_api [(''a'', JNum (UInt 70000)), (''b'', JNum (UInt 7))]
             [sample_field ''a'' U32 1, sample_field ''b'' TBool 0, sample_field ''c'' I16 3] 4
             LittleEndianByteSwap = Ret (Some regs) \<and>
           length regs = unat (4 :: u16) \<and>
           parse_signal_group_fields regs
             [sample_field ''a'' U32 1, sample_field ''b'' TBool 0, sample_field ''c'' I16 3]
             LittleEndianByteSwap =
           map (\<lambda>f. \<lparr>pf_name = fm_name f,
                     pf_value = written_value sample_api
                       [(''a'', JNum (UInt 70000)), (''b'', JNum (UInt 7))] f,
                     pf_data_type = fm_data_type f\<rparr>)
             [sample_field ''a'' U32 1, sample_field ''b'' TBool 0, sample_field ''c'' I16 3]"
  by (rule encode_then_parse_roundtrip)
     (simp_all add: layout_ok_def data_ok_def sample_field_def in_buffer_def apart_def sample_api_def)

text \<open>C29: Encoding panics only for a group of 65535 registers, on a member whose field would end past
  65535: the saturated end offset passes the check and the indexed store is out of range.\<close>

theorem encode_panics_only_at_saturation:
  assumes "encode_fields_to_registers api data fms cnt ord = Panic"
  shows "cnt = 65535 \<and> (\<exists>f \<in> set fms. fm_name f \<in> fst ` set data \<and>
           65535 < unat (fm_offset f) + field_registers (fm_data_type f))"
proof -
  from encode_loop_Panic [OF assms [unfolded encode_fields_to_registers_def]]
  obtain n f where f: "n \<in> fst ` set data" "field_map fms n = Some f" "\<not> in_buffer (unat cnt) f"
    "\<not> cnt < saturating_add (fm_offset f) (required_registers (fm_data_type f))"
    by auto
  from f(2) have "f \<in> set fms \<and> fm_name f = n"
    by (auto simp: field_map_def hash_collect_lookup dest!: map_of_SomeD)
  with f not_in_buffer_saturates [OF f(3,4)] show ?thesis by auto
qed

text \<open>The group of the witness passes the validation of the configuration.\<close>

theorem encode_panics_only_at_saturation_witness:
  "group_fields_ok (sample_group ''h0'' 65535 [sample_field ''x'' U32 65535]) \<and>
   encode_fields_to_registers sample_api [(''x'', JNum (UInt 1))] [sample_field ''x'' U32 65535] 65535
     BigEndian = Panic \<and>
   65535 < unat (fm_offset (sample_field ''x'' U32 65535)) + field_registers U32"
proof -
  have p: "encode_fields_to_registers sample_api [(''x'', JNum (UInt 1))]
      [sample_field ''x'' U32 65535] 65535 BigEndian = Panic"
    by (simp add: encode_fields_to_registers_def encode_loop_Cons field_map_def hash_collect_lookup
        sample_field_def sample_api_def in_buffer_def saturating_add_def
        del: encode_loop.simps(2) replicate.simps)
  show ?thesis
    using p encode_panics_only_at_saturation [OF p]
    by (simp add: group_fields_ok_def sample_group_def sample_field_def field_fits_def)
qed

text \<open>When the field names are distinct, the batch of per-field writes is what
  \<open>encode_single_field\<close> gives for each member, in the order of the object, skipping the members
  it rejects.\<close>

theorem partial_write_is_pointwise:
  assumes "distinct (map fm_name fms)"
  shows "encode_fields_for_partial_write api data fms ord =
     List.map_filter (\<lambda>(n, v). encode_single_field api n v fms ord) data"
  unfolding encode_fields_for_partial_write_def
  by (rule encode_partial_loop_eq) (simp add: field_map_find [OF assms])

theorem partial_write_is_pointwise_witness:
  "encode_fields_for_partial_write sample_api [(''a'', JNum (UInt 5)), (''z'', JNull)]
     [sample_field ''a'' U16 2, sample_field ''b'' U16 0] BigEndian =
   List.map_filter (\<lambda>(n, v). encode_single_field sample_api n v
     [sample_field ''a'' U16 2, sample_field ''b'' U16 0] BigEndian)
     [(''a'', JNum (UInt 5)), (''z'', JNull)]"
  by (rule partial_write_is_pointwise) (simp add: sample_field_def)

text \<open>C13: Parsing the registers of a group gives exactly the fields of the group that lie within the
  registers that were read, in their order and with their names and types, and each value is one
  its type can hold: an integer of the range of the type, 0 or 1 for a boolean, a single-precision
  number for an \<open>f32\<close>.\<close>

theorem parsed_fields_are_typed:
  "map (\<lambda>p. (pf_name p, pf_data_type p)) (parse_signal_group_fields regs fms ord) =
     map (\<lambda>f. (fm_name f, fm_data_type f)) (filter (in_buffer (length regs)) fms) \<and>
   list_all (\<lambda>p. value_of_type (pf_data_type p) (pf_value p)) (parse_signal_group_fields regs fms ord)"
proof (induction fms)
  case (Cons f fms)
  show ?case
  proof (cases "in_buffer (length regs) f")
    case True
    from parse_field_typed [OF this, of fms ord] obtain v where "value_of_type (fm_data_type f) v"
      "parse_signal_group_fields regs (f # fms) ord =
       \<lparr>pf_name = fm_name f, pf_value = v, pf_data_type = fm_data_type f\<rparr> #
       parse_signal_group_fields regs fms ord" by blast
    with Cons True show ?thesis by (simp del: parse_signal_group_fields.simps)
  qed (use Cons in \<open>simp add: parse_field_outside del: parse_signal_group_fields.simps\<close>)
qed simp

end
