(* ===== verification/Modbus_Operations.thy ===== *)
theory Modbus_Operations
  imports Config
begin

text \<open>
  \<open>src/workers/modbus/operations.rs\<close>: the register types, their classification, and the parser of
  register addresses.  \<open>ModbusRegisterKind\<close> belongs to the \<open>roboplc\<close> crate; the sources match on
  it without a wildcard, so its constructors are the four named there.

  The lemmas show that the parser reads back every printed address and accepts every address the
  configuration validator accepts.
\<close>

datatype register_type = Coil | Discrete | Input | Holding
datatype modbus_register_kind = KindCoil | KindDiscrete | KindInput | KindHolding

fun register_type_prefix :: "register_type \<Rightarrow> char" where
  "register_type_prefix Coil = CHR ''c''"
| "register_type_prefix Discrete = CHR ''d''"
| "register_type_prefix Input = CHR ''i''"
| "register_type_prefix Holding = CHR ''h''"

definition is_read_only :: "register_type \<Rightarrow> bool" where
  "is_read_only t \<longleftrightarrow> t = Discrete \<or> t = Input"

definition is_writable :: "register_type \<Rightarrow> bool" where
  "is_writable t \<longleftrightarrow> t = Coil \<or> t = Holding"

fun to_modbus_register_kind :: "register_type \<Rightarrow> modbus_register_kind" where
  "to_modbus_register_kind Coil = KindCoil"
| "to_modbus_register_kind Discrete = KindDiscrete"
| "to_modbus_register_kind Input = KindInput"
| "to_modbus_register_kind Holding = KindHolding"

fun register_type_display :: "register_type \<Rightarrow> string" where
  "register_type_display Coil = ''Coil''"
| "register_type_display Discrete = ''Discrete''"
| "register_type_display Input = ''Input''"
| "register_type_display Holding = ''Holding''"

fun register_type_from_kind :: "modbus_register_kind \<Rightarrow> register_type" where
  "register_type_from_kind KindCoil = Coil"
| "register_type_from_kind KindDiscrete = Discrete"
| "register_type_from_kind KindInput = Input"
| "register_type_from_kind KindHolding = Holding"

definition parse_register_address :: "string \<Rightarrow> (register_type \<times> u16) option" where
  "parse_register_address s =
     (case trim s of
        [] \<Rightarrow> None
      | c # cs \<Rightarrow>
          let (reg_type, num_part) =
            (if c = CHR ''h'' \<or> c = CHR ''H'' then (Holding, cs)
             else if c = CHR ''i'' \<or> c = CHR ''I'' then (Input, cs)
             else if c = CHR ''c'' \<or> c = CHR ''C'' then (Coil, cs)
             else if c = CHR ''d'' \<or> c = CHR ''D'' then (Discrete, cs)
             else (Holding, c # cs))
          in map_option (\<lambda>n. (reg_type, word_of_nat n)) (parse_unsigned 65535 num_part))"

section \<open>Lemmas\<close>

lemma register_kind_inverse:
  "register_type_from_kind (to_modbus_register_kind t) = t"
  "to_modbus_register_kind (register_type_from_kind k) = k"
  by (cases t, simp_all, cases k, simp_all)

lemma read_only_iff_not_writable: "is_read_only t \<longleftrightarrow> \<not> is_writable t"
  by (cases t) (simp_all add: is_read_only_def is_writable_def)

lemma ascii_lower_eq:
  assumes "97 \<le> (of_char d :: nat)" and "(of_char d :: nat) \<le> 122"
  shows "ascii_lower c = d \<longleftrightarrow> c = d \<or> c = char_of (of_char d - 32 :: nat)"
proof
  assume "ascii_lower c = d"
  moreover have "c = char_of (of_char d - 32 :: nat)"
    if "65 \<le> (of_char c :: nat)" "(of_char c :: nat) \<le> 90" "char_of (of_char c + 32 :: nat) = d"
  proof -
    from that have "(of_char d :: nat) = of_char c + 32" by auto
    then have "char_of (of_char d - 32 :: nat) = (char_of (of_char c :: nat) :: char)" by simp
    then show ?thesis by simp
  qed
  ultimately show "c = d \<or> c = char_of (of_char d - 32 :: nat)"
    by (auto simp: ascii_lower_def Let_def split: if_splits)
next
  assume "c = d \<or> c = char_of (of_char d - 32 :: nat)"
  then show "ascii_lower c = d"
  proof
    assume c: "c = char_of (of_char d - 32 :: nat)"
    with assms have "(of_char c :: nat) = of_char d - 32" by simp
    with assms have "65 \<le> (of_char c :: nat)" "(of_char c :: nat) \<le> 90"
      "(of_char c :: nat) + 32 = of_char d" by linarith+
    then show ?thesis by (simp add: ascii_lower_def Let_def)
  qed (use assms in \<open>simp add: ascii_lower_def Let_def\<close>)
qed

lemma char_of_upper:
  "char_of (72 :: nat) = CHR ''H''" "char_of (68 :: nat) = CHR ''D''"
  "char_of (67 :: nat) = CHR ''C''" "char_of (73 :: nat) = CHR ''I''"
  by (simp_all add: char_of_eq_iff take_bit_eq_mod)

lemma ascii_lower_letter:
  "ascii_lower c = CHR ''h'' \<longleftrightarrow> c = CHR ''h'' \<or> c = CHR ''H''"
  "ascii_lower c = CHR ''d'' \<longleftrightarrow> c = CHR ''d'' \<or> c = CHR ''D''"
  "ascii_lower c = CHR ''c'' \<longleftrightarrow> c = CHR ''c'' \<or> c = CHR ''C''"
  "ascii_lower c = CHR ''i'' \<longleftrightarrow> c = CHR ''i'' \<or> c = CHR ''I''"
  by (simp_all add: ascii_lower_eq char_of_upper)

lemma digit_not_letter:
  "parse_unsigned m (c # cs) = Some n \<Longrightarrow> ascii_lower c \<noteq> register_type_prefix t"
  by (cases t) (auto simp: ascii_lower_letter parse_unsigned_def strip_plus_def digit_val_def Let_def
      split: if_splits option.splits)

lemma trim_address: "trim (register_type_prefix t # show_nat n) = register_type_prefix t # show_nat n"
proof (rule trim_graphic)
  show "ascii_graphic (hd (register_type_prefix t # show_nat n))"
    by (cases t) (simp_all add: ascii_graphic_def)
  have "last (show_nat n) \<in> set (show_nat n)" by (rule last_in_set) simp
  then show "ascii_graphic (last (register_type_prefix t # show_nat n))"
    using set_show_nat ascii_graphic_digit by fastforce
qed simp

lemma parse_register_address_print:
  "parse_register_address (register_type_prefix t # show_nat (unat n)) = Some (t, n)"
proof -
  have "unat n \<le> 65535" using unat_u16_less [of n] by linarith
  then show ?thesis
    by (cases t; simp add: parse_register_address_def trim_address [of Holding, simplified]
        trim_address [of Input, simplified] trim_address [of Coil, simplified]
        trim_address [of Discrete, simplified] parse_unsigned_show_nat)
qed

lemma address_ok_iff_parses:
  "address_ok a \<longleftrightarrow>
     (\<exists>t n. parse_register_address a = Some (t, n) \<and> ascii_lower (hd (trim a)) = register_type_prefix t)"
proof (cases "trim a")
  case (Cons c cs)
  show ?thesis
  proof (cases "ascii_lower c \<in> set ''hdci''")
    case True
    with Cons show ?thesis
      by (auto simp: address_ok_def parse_register_address_def Let_def ascii_lower_letter)
  next
    case False
    then have "ascii_lower c \<noteq> register_type_prefix t" for t by (cases t) auto
    with False Cons show ?thesis by (simp add: address_ok_def)
  qed
qed (simp add: address_ok_def parse_register_address_def)

section \<open>Properties\<close>

text \<open>Printing a register type's prefix and a 16-bit address in decimal and parsing the string
  gives back both, for every register type and address.\<close>

theorem parse_printed_address:
  "parse_register_address (register_type_prefix t # show_nat (unat n)) = Some (t, n)"
  by (rule parse_register_address_print)

text \<open>C32: The validator accepts a signal group exactly when the parser used at run time accepts its
  address, the first letter of the address is the prefix of the type the parser gives, and the group's
  fields are valid; so no address of a validated group can fail to parse in a request, and only the
  bare numbers (holding registers for the parser) are rejected by the validator alone.\<close>

theorem validator_agrees_with_parser:
  "validate_group dev g = Ret (Inr ()) \<longleftrightarrow>
     (\<exists>t n. parse_register_address (sg_register_address g) = Some (t, n) \<and>
            ascii_lower (hd (trim (sg_register_address g))) = register_type_prefix t) \<and>
     signal_group_validate g = Inr ()"
  unfolding validate_group_ok group_ok_def signal_group_validate_iff address_ok_iff_parses by (rule refl)

end
