(* ===== verification/Modbus_Types.thy ===== *)
theory Modbus_Types
  imports Prelude
begin

text \<open>
  \<open>src/workers/modbus/types.rs\<close>: transaction ids, connection states, the exponential backoff, the
  adaptive timeout, the capacity limiter \<open>OperationQueue\<close> and the RAII \<open>OperationGuard\<close>.
  Durations and instants are naturals; the clock is an argument.

  The queue is modelled twice: as the caller sees it behind its mutex (\<open>operation_queue\<close> and its
  operations, where the first compare-and-swap succeeds), and as the lock-free loops themselves
  (\<open>thread_step\<close>), any number of threads interleaving their atomic accesses to the counter.  The
  locale \<open>capacity\<close> is the contract the rest of the program relies on.
\<close>

section \<open>Constants\<close>

definition DEFAULT_CONNECT_TIMEOUT_MS :: nat where "DEFAULT_CONNECT_TIMEOUT_MS = 200"
definition DEFAULT_OPERATION_TIMEOUT_MS :: nat where "DEFAULT_OPERATION_TIMEOUT_MS = 1000"
definition MAX_OPERATION_TIMEOUT_MS :: nat where "MAX_OPERATION_TIMEOUT_MS = 30000"
definition BASE_TIMEOUT :: nat where "BASE_TIMEOUT = DEFAULT_OPERATION_TIMEOUT_MS"
definition MAX_TIMEOUT :: nat where "MAX_TIMEOUT = MAX_OPERATION_TIMEOUT_MS"
definition BACKOFF_BASE_MS :: u64 where "BACKOFF_BASE_MS = 100"
definition BACKOFF_MAX_MS :: u64 where "BACKOFF_MAX_MS = 30000"

section \<open>Transaction ids and connection states\<close>

record transaction_id =
  tid_id :: u32
  tid_created_at :: nat

text \<open>The global counter is the first argument and result; \<open>fetch_add\<close> wraps.\<close>

definition transaction_id_new :: "u32 \<Rightarrow> nat \<Rightarrow> transaction_id \<times> u32" where
  "transaction_id_new counter now = (\<lparr>tid_id = counter, tid_created_at = now\<rparr>, counter + 1)"

text \<open>A clock that went back gives zero, as truncated subtraction does.\<close>

definition transaction_id_elapsed :: "transaction_id \<Rightarrow> nat \<Rightarrow> nat" where
  "transaction_id_elapsed t now = now - tid_created_at t"

datatype connection_state = Disconnected | Connecting | Connected

section \<open>Backoff\<close>

record backoff =
  bo_attempts :: u32
  bo_next_delay_ms :: u64

definition backoff_new :: backoff where
  "backoff_new = \<lparr>bo_attempts = 0, bo_next_delay_ms = BACKOFF_BASE_MS\<rparr>"

definition next_delay :: "backoff \<Rightarrow> u64 \<times> backoff" where
  "next_delay b =
     (let jitter = (bo_next_delay_ms b div 10) * (ucast (bo_attempts b) mod 3);
          delay = bo_next_delay_ms b + jitter
      in (delay, \<lparr>bo_attempts = bo_attempts b + 1,
                  bo_next_delay_ms = min (bo_next_delay_ms b * 2) BACKOFF_MAX_MS\<rparr>))"

definition backoff_reset :: "backoff \<Rightarrow> backoff" where
  "backoff_reset b = b\<lparr>bo_attempts := 0, bo_next_delay_ms := BACKOFF_BASE_MS\<rparr>"

section \<open>Adaptive timeout\<close>

record timeout_handler =
  th_current :: nat
  th_base :: nat
  th_max :: nat

definition timeout_handler_new :: timeout_handler where
  "timeout_handler_new = \<lparr>th_current = BASE_TIMEOUT, th_base = BASE_TIMEOUT, th_max = MAX_TIMEOUT\<rparr>"

definition timeout :: "timeout_handler \<Rightarrow> nat" where
  "timeout t = th_current t"

definition on_timeout :: "timeout_handler \<Rightarrow> timeout_handler" where
  "on_timeout t = t\<lparr>th_current := min (th_current t * 2) (th_max t)\<rparr>"

definition on_success :: "timeout_handler \<Rightarrow> timeout_handler" where
  "on_success t = t\<lparr>th_current := th_base t\<rparr>"

definition is_at_max :: "timeout_handler \<Rightarrow> bool" where
  "is_at_max t \<longleftrightarrow> th_max t \<le> th_current t"

section \<open>The operation queue behind its mutex\<close>

record 'a operation_queue =
  oq_pending :: "'a list"
  oq_in_flight :: usize
  oq_max_in_flight :: usize

definition operation_queue_new :: "usize \<Rightarrow> 'a operation_queue" where
  "operation_queue_new m = \<lparr>oq_pending = [], oq_in_flight = 0, oq_max_in_flight = m\<rparr>"

definition queue_push :: "'a \<Rightarrow> 'a operation_queue \<Rightarrow> 'a operation_queue" where
  "queue_push x q = q\<lparr>oq_pending := oq_pending q @ [x]\<rparr>"

definition pop_if_ready :: "'a operation_queue \<Rightarrow> 'a option \<times> 'a operation_queue" where
  "pop_if_ready q =
     (if oq_max_in_flight q \<le> oq_in_flight q then (None, q)
      else let q1 = q\<lparr>oq_in_flight := oq_in_flight q + 1\<rparr> in
        (case oq_pending q1 of
           x # rest \<Rightarrow> (Some x, q1\<lparr>oq_pending := rest\<rparr>)
         | [] \<Rightarrow> (None, q1\<lparr>oq_in_flight := oq_in_flight q1 - 1\<rparr>)))"

definition queue_complete :: "'a operation_queue \<Rightarrow> 'a operation_queue" where
  "queue_complete q =
     (if oq_in_flight q = 0 then q else q\<lparr>oq_in_flight := oq_in_flight q - 1\<rparr>)"

definition in_flight_count :: "'a operation_queue \<Rightarrow> usize" where
  "in_flight_count q = oq_in_flight q"

definition can_start :: "'a operation_queue \<Rightarrow> bool" where
  "can_start q \<longleftrightarrow> oq_in_flight q < oq_max_in_flight q"

definition pending_count :: "'a operation_queue \<Rightarrow> nat" where
  "pending_count q = length (oq_pending q)"

definition try_acquire_atomic :: "'a operation_queue \<Rightarrow> bool \<times> 'a operation_queue" where
  "try_acquire_atomic q =
     (if oq_max_in_flight q \<le> oq_in_flight q then (False, q)
      else (True, q\<lparr>oq_in_flight := oq_in_flight q + 1\<rparr>))"

section \<open>The guard\<close>

text \<open>\<open>on_drop\<close> acts on the state the callback captured; \<open>take()\<close> leaves nothing to run again.\<close>

record 's operation_guard =
  og_on_drop :: "('s \<Rightarrow> 's) option"

definition operation_guard_new :: "('s \<Rightarrow> 's) \<Rightarrow> 's operation_guard" where
  "operation_guard_new f = \<lparr>og_on_drop = Some f\<rparr>"

definition guard_drop :: "'s operation_guard \<Rightarrow> 's \<Rightarrow> 's operation_guard \<times> 's" where
  "guard_drop g s =
     (case og_on_drop g of
        None \<Rightarrow> (g, s)
      | Some on_drop \<Rightarrow> (g\<lparr>og_on_drop := None\<rparr>, on_drop s))"

section \<open>The lock-free loops\<close>

text \<open>
  Where a thread is in \<open>try_acquire_atomic\<close> (\<open>Acq\<close>), \<open>pop_if_ready\<close> (\<open>Pop\<close>) or \<open>complete\<close> (\<open>Rel\<close>):
  about to load the counter for its \<open>n\<close>th attempt, or about to compare and swap the value it loaded.
  \<open>Pop_Undo\<close> is \<open>pop_if_ready\<close> before its \<open>fetch_sub\<close>, having found no pending operation.  \<open>Gave_up\<close> is
  \<open>complete\<close> returning without having released its permit: the operation is over, the permit is lost.
  The flag \<open>b\<close> is the choice of the thread that starts (whether it pops), and of the queue (whether an
  operation is pending).
\<close>

definition MAX_CAS_RETRIES :: nat where "MAX_CAS_RETRIES = 100"

datatype pc =
    Idle
  | Acq_Load nat
  | Acq_Cas nat usize
  | Pop_Load nat
  | Pop_Cas nat usize
  | Pop_Undo
  | Holds
  | Rel_Load nat
  | Rel_Cas nat usize
  | Gave_up

fun thread_step :: "usize \<Rightarrow> bool \<Rightarrow> usize \<Rightarrow> pc \<Rightarrow> usize \<times> pc" where
  "thread_step mx b f Idle = (f, if b then Pop_Load 0 else Acq_Load 0)"
| "thread_step mx b f (Acq_Load n) =
     (if MAX_CAS_RETRIES \<le> n then (f, Idle)
      else if mx \<le> f then (f, Idle)
      else (f, Acq_Cas n f))"
| "thread_step mx b f (Acq_Cas n cur) =
     (if f = cur then (cur + 1, Holds) else (f, Acq_Load (Suc n)))"
| "thread_step mx b f (Pop_Load n) =
     (if MAX_CAS_RETRIES \<le> n then (f, Idle)
      else if mx \<le> f then (f, Idle)
      else (f, Pop_Cas n f))"
| "thread_step mx b f (Pop_Cas n cur) =
     (if f = cur then (cur + 1, if b then Holds else Pop_Undo) else (f, Pop_Load (Suc n)))"
| "thread_step mx b f Pop_Undo = (f - 1, Idle)"
| "thread_step mx b f Holds = (f, Rel_Load 0)"
| "thread_step mx b f (Rel_Load n) =
     (if MAX_CAS_RETRIES \<le> n then (f, Gave_up)
      else if f = 0 then (f, Gave_up)
      else (f, Rel_Cas n f))"
| "thread_step mx b f (Rel_Cas n cur) =
     (if f = cur then (cur - 1, Idle) else (f, Rel_Load (Suc n)))"
| "thread_step mx b f Gave_up = (f, Gave_up)"

text \<open>The reachable states of \<open>k\<close> threads that share the counter, one step of one thread at a time.\<close>

inductive interleaved :: "usize \<Rightarrow> nat \<Rightarrow> usize \<times> pc list \<Rightarrow> bool" for mx :: usize and k :: nat where
  start: "interleaved mx k (0, replicate k Idle)"
| step: "interleaved mx k (f, ts) \<Longrightarrow> i < k \<Longrightarrow> thread_step mx b f (ts ! i) = (f', t)
           \<Longrightarrow> interleaved mx k (f', ts[i := t])"

text \<open>Whose unit of the counter it is: an operation that runs or is being completed, a \<open>pop_if_ready\<close>
  that is about to take its unit back, and a \<open>complete\<close> that has left it behind.\<close>

fun operating :: "pc \<Rightarrow> bool" where
  "operating Holds = True"
| "operating (Rel_Load n) = True"
| "operating (Rel_Cas n cur) = True"
| "operating _ = False"

definition counted :: "pc \<Rightarrow> bool" where
  "counted t \<longleftrightarrow> operating t \<or> t = Pop_Undo \<or> t = Gave_up"

section \<open>The capacity contract\<close>

locale capacity =
  fixes acquire :: "'s \<Rightarrow> bool \<times> 's"
    and release :: "'s \<Rightarrow> 's"
    and used :: "'s \<Rightarrow> nat"
    and cap :: "'s \<Rightarrow> nat"
  assumes acquire_free: "used s < cap s \<Longrightarrow> fst (acquire s) \<and> used (snd (acquire s)) = Suc (used s)"
    and acquire_full: "cap s \<le> used s \<Longrightarrow> acquire s = (False, s)"
    and acquire_cap: "cap (snd (acquire s)) = cap s"
    and release_used: "used (release s) = used s - 1"
    and release_cap: "cap (release s) = cap s"
begin

lemma acquire_iff: "fst (acquire s) \<longleftrightarrow> used s < cap s"
  using acquire_free [of s] acquire_full [of s] by (cases "used s < cap s") auto

lemma acquire_used: "used (snd (acquire s)) = used s + (if fst (acquire s) then 1 else 0)"
  using acquire_free [of s] acquire_full [of s] by (cases "used s < cap s") auto

text \<open>A schedule of requests (\<open>True\<close>) and completions of earlier grants (\<open>False\<close>).\<close>

fun run :: "bool list \<Rightarrow> 's \<Rightarrow> bool list \<times> 's" where
  "run [] s = ([], s)"
| "run (True # evs) s =
     (let (g, s1) = acquire s; (gs, s2) = run evs s1 in (g # gs, s2))"
| "run (False # evs) s = run evs (release s)"

lemma run_bounded: "used s \<le> cap s \<Longrightarrow> used (snd (run evs s)) \<le> cap s \<and> cap (snd (run evs s)) = cap s"
proof (induction evs arbitrary: s)
  case (Cons ev evs)
  show ?case
  proof (cases ev)
    case True
    have "used (snd (acquire s)) \<le> cap (snd (acquire s))"
      using Cons.prems acquire_used [of s] acquire_iff [of s] by (auto simp: acquire_cap)
    with Cons.IH [of "snd (acquire s)"] True show ?thesis
      by (simp add: split_beta Let_def acquire_cap)
  next
    case False
    have "used (release s) \<le> cap (release s)" using Cons.prems by (simp add: release_used release_cap)
    with Cons.IH [of "release s"] False show ?thesis by (simp add: release_cap)
  qed
qed simp

end

section \<open>Lemmas\<close>

lemma unat_plus_one: "x < (y :: 'a::len word) \<Longrightarrow> unat (x + 1) = Suc (unat x)"
proof -
  assume "x < y"
  then have "unat x < unat y" by (simp add: word_less_nat_alt)
  moreover have "unat y < 2 ^ LENGTH('a)" by (rule unsigned_less)
  ultimately have "Suc (unat x) < 2 ^ LENGTH('a)" by linarith
  then show ?thesis by (simp add: unat_word_ariths)
qed

lemma unat_minus_one_word: "x \<noteq> 0 \<Longrightarrow> unat (x - 1 :: 'a::len word) = unat x - 1"
  by (rule unat_minus_one)

interpretation queue: capacity try_acquire_atomic queue_complete
  "\<lambda>q :: 'a operation_queue. unat (oq_in_flight q)" "\<lambda>q. unat (oq_max_in_flight q)"
  by unfold_locales
     (auto simp: try_acquire_atomic_def queue_complete_def word_le_nat_alt not_le unat_plus_one
        word_less_nat_alt unat_minus_one_word)

lemma length_filter_update:
  assumes "i < length xs"
  shows "length (filter P (xs[i := x])) + (if P (xs ! i) then 1 else 0) =
     length (filter P xs) + (if P x then 1 else 0)"
  using assms
proof (induction xs arbitrary: i)
  case (Cons a xs)
  show ?case
  proof (cases i)
    case (Suc j)
    with Cons have "length (filter P (xs[j := x])) + (if P (xs ! j) then 1 else 0) =
        length (filter P xs) + (if P x then 1 else 0)" by simp
    with Suc show ?thesis by simp
  qed simp
qed simp

lemma counted_simps [simp]:
  "counted Holds" "counted (Rel_Load n)" "counted (Rel_Cas n cur)" "counted Pop_Undo" "counted Gave_up"
  "\<not> counted Idle" "\<not> counted (Acq_Load n)" "\<not> counted (Acq_Cas n cur)"
  "\<not> counted (Pop_Load n)" "\<not> counted (Pop_Cas n cur)"
  by (simp_all add: counted_def)

lemma length_counted:
  "length (filter counted ts) =
     length (filter operating ts) + length (filter ((=) Pop_Undo) ts) + length (filter ((=) Gave_up) ts)"
  by (induction ts) (auto simp: counted_def)

text \<open>What a thread remembers of the counter was within its bounds.\<close>

fun loaded_ok :: "usize \<Rightarrow> pc \<Rightarrow> bool" where
  "loaded_ok mx (Acq_Cas n cur) \<longleftrightarrow> cur < mx"
| "loaded_ok mx (Pop_Cas n cur) \<longleftrightarrow> cur < mx"
| "loaded_ok mx (Rel_Cas n cur) \<longleftrightarrow> cur \<noteq> 0"
| "loaded_ok mx _ \<longleftrightarrow> True"

lemma unat_pred: "(x :: usize) \<noteq> 0 \<Longrightarrow> Suc (unat (x - 1)) = unat x"
  using unat_minus_one_word [of x] unat_eq_0 [of x] by simp

lemma thread_step_local:
  assumes "thread_step mx b f t = (f', t')" and "f \<le> mx"
    and "counted t \<Longrightarrow> f \<noteq> 0" and "loaded_ok mx t"
  shows "f' \<le> mx \<and> unat f' + (if counted t then 1 else 0) = unat f + (if counted t' then 1 else 0) \<and>
    loaded_ok mx t'"
proof (cases t)
  case (Acq_Cas n cur)
  with assms unat_plus_one [of cur mx] show ?thesis
    by (auto simp: word_le_nat_alt word_less_nat_alt split: if_splits)
next
  case (Pop_Cas n cur)
  with assms unat_plus_one [of cur mx] show ?thesis
    by (auto simp: word_le_nat_alt word_less_nat_alt split: if_splits)
next
  case (Rel_Cas n cur)
  with assms unat_pred [of cur] show ?thesis
    by (auto simp: word_le_nat_alt split: if_splits)
next
  case Pop_Undo
  with assms unat_pred [of f] show ?thesis by (auto simp: word_le_nat_alt)
qed (use assms in \<open>auto split: if_splits\<close>)

lemma interleaved_stepI:
  "interleaved mx k (f, ts) \<Longrightarrow> i < k \<Longrightarrow> thread_step mx b f (ts ! i) = (f', t) \<Longrightarrow> ts' = ts[i := t]
     \<Longrightarrow> interleaved mx k (f', ts')"
  by (simp add: interleaved.step)

text \<open>A thread that is not interrupted does what the model of the queue behind its mutex does.\<close>

lemma uninterrupted_acquire:
  assumes "thread_step mx False f Idle = (f1, t1)" and "thread_step mx b f1 t1 = (f2, t2)"
  shows "(if t2 = Idle then (False, f2) else (True, fst (thread_step mx b f2 t2))) =
     map_prod id oq_in_flight (try_acquire_atomic \<lparr>oq_pending = [], oq_in_flight = f, oq_max_in_flight = mx\<rparr>)"
  using assms by (auto simp: try_acquire_atomic_def MAX_CAS_RETRIES_def)

lemma uninterrupted_complete:
  assumes "thread_step mx b f Holds = (f1, t1)" and "thread_step mx b f1 t1 = (f2, t2)"
  shows "fst (thread_step mx b f2 t2) =
     oq_in_flight (queue_complete \<lparr>oq_pending = [], oq_in_flight = f, oq_max_in_flight = mx\<rparr>)"
  using assms by (auto simp: queue_complete_def MAX_CAS_RETRIES_def)

lemma uninterrupted_pop:
  fixes pending :: "'a list"
  assumes "thread_step mx True f Idle = (f1, t1)" and "thread_step mx b f1 t1 = (f2, t2)"
    and "thread_step mx (pending \<noteq> []) f2 t2 = (f3, t3)"
  shows "oq_in_flight (snd (pop_if_ready \<lparr>oq_pending = pending, oq_in_flight = f, oq_max_in_flight = mx\<rparr>)) =
     (if t2 = Idle then f2 else if t3 = Pop_Undo then fst (thread_step mx b f3 t3) else f3)"
  using assms by (cases pending; cases "mx \<le> f") (auto simp: pop_if_ready_def MAX_CAS_RETRIES_def Let_def)

lemma interleaved_inv:
  assumes "interleaved mx k (f, ts)"
  shows "length ts = k \<and> f \<le> mx \<and> unat f = length (filter counted ts) \<and> (\<forall>i < k. loaded_ok mx (ts ! i))"
  using assms
proof (induction "(f, ts)" arbitrary: f ts rule: interleaved.induct)
  case start
  show ?case by simp
next
  case (step f ts i b f' t)
  then have l: "length ts = k" "f \<le> mx" "unat f = length (filter counted ts)" "loaded_ok mx (ts ! i)" by auto
  have "f \<noteq> 0" if "counted (ts ! i)"
  proof -
    have "ts ! i \<in> set (filter counted ts)" using that l step by simp
    then have "0 < length (filter counted ts)" by (rule length_pos_if_in_set)
    with l show ?thesis by auto
  qed
  from thread_step_local [OF step(4) l(2) this l(4)]
  have t: "f' \<le> mx" "loaded_ok mx t"
    "unat f' + (if counted (ts ! i) then 1 else 0) = unat f + (if counted t then 1 else 0)" by simp_all
  moreover have "length (filter counted (ts[i := t])) + (if counted (ts ! i) then 1 else 0) =
     length (filter counted ts) + (if counted t then 1 else 0)"
    using step l by (intro length_filter_update) simp
  ultimately show ?case using step l by (auto simp: nth_list_update)
qed

lemma unat_min: "unat (min a b :: 'a::len word) = min (unat a) (unat b)"
  by (simp add: min_def word_le_nat_alt)

lemma unat_of_u32_mod: "unat (ucast (x :: u32) mod 3 :: u64) = unat x mod 3"
proof -
  have "unat x < 2 ^ 64" by (rule order_less_trans [OF unat_u32_less]) simp
  then have "unat (ucast x :: u64) = unat x"
    by (simp add: unsigned_ucast_eq take_bit_nat_eq_self)
  then show ?thesis by (simp add: unat_mod)
qed

definition backoff_after :: "nat \<Rightarrow> backoff" where
  "backoff_after n = ((\<lambda>b. snd (next_delay b)) ^^ n) backoff_new"

definition backoff_base :: "nat \<Rightarrow> nat" where
  "backoff_base n = min (100 * 2 ^ n) 30000"

lemma backoff_base_le: "100 \<le> backoff_base n" "backoff_base n \<le> 30000"
  by (simp_all add: backoff_base_def)

lemma backoff_after_state:
  "unat (bo_attempts (backoff_after n)) = n mod 2 ^ 32 \<and>
   unat (bo_next_delay_ms (backoff_after n)) = backoff_base n"
proof (induction n)
  case 0
  show ?case by (simp add: backoff_after_def backoff_new_def BACKOFF_BASE_MS_def backoff_base_def)
next
  case (Suc n)
  have s: "backoff_after (Suc n) = snd (next_delay (backoff_after n))" by (simp add: backoff_after_def)
  have "unat (bo_attempts (backoff_after n) + 1) = Suc n mod 2 ^ 32"
    using Suc.IH by (simp add: unat_word_ariths mod_Suc_eq)
  moreover have "unat (bo_next_delay_ms (backoff_after n) * 2) = backoff_base n * 2"
    using Suc.IH backoff_base_le [of n] by (simp add: unat_word_ariths)
  then have "unat (min (bo_next_delay_ms (backoff_after n) * 2) BACKOFF_MAX_MS) = backoff_base (Suc n)"
    by (simp add: unat_min BACKOFF_MAX_MS_def backoff_base_def)
  ultimately show ?case by (simp add: s next_delay_def Let_def)
qed

lemma timeouts_in_a_row:
  "(on_timeout ^^ n) timeout_handler_new
     = \<lparr>th_current = min (1000 * 2 ^ n) 30000, th_base = 1000, th_max = 30000\<rparr>"
proof (induction n)
  case 0
  show ?case
    by (simp add: timeout_handler_new_def BASE_TIMEOUT_def MAX_TIMEOUT_def
        DEFAULT_OPERATION_TIMEOUT_MS_def MAX_OPERATION_TIMEOUT_MS_def)
next
  case (Suc n)
  then show ?case by (auto simp: on_timeout_def min_def)
qed

section \<open>Properties\<close>

text \<open>C11: However the atomic accesses of any number of threads in \<open>try_acquire_atomic\<close>, \<open>pop_if_ready\<close>
  and \<open>complete\<close> interleave, the counter is the number of operations that run or are being completed,
  of pops about to give their unit back, and of permits that \<open>complete\<close> has lost by giving up after a
  hundred failed attempts; and it never exceeds the maximum, so neither do the operations in flight.\<close>

theorem cas_interleaving_safe:
  assumes "interleaved mx k (f, ts)"
  shows "unat f = length (filter operating ts) + length (filter ((=) Pop_Undo) ts)
       + length (filter ((=) Gave_up) ts) \<and> f \<le> mx"
  using interleaved_inv [OF assms] by (simp add: length_counted)

theorem cas_interleaving_safe_witness:
  "unat (1 :: usize) = length (filter operating [Pop_Undo, Acq_Load 1])
     + length (filter ((=) Pop_Undo) [Pop_Undo, Acq_Load 1]) + length (filter ((=) Gave_up) [Pop_Undo, Acq_Load 1]) \<and>
   (1 :: usize) \<le> 1"
proof (rule cas_interleaving_safe [of 1 2])
  have "interleaved 1 2 (0, [Idle, Idle])" using interleaved.start [of 1 2] by (simp add: numeral_2_eq_2)
  then have "interleaved 1 2 (0, [Pop_Load 0, Idle])" by (rule interleaved_stepI [where i = 0 and b = True]) simp_all
  then have "interleaved 1 2 (0, [Pop_Load 0, Acq_Load 0])"
    by (rule interleaved_stepI [where i = 1 and b = False]) simp_all
  then have "interleaved 1 2 (0, [Pop_Cas 0 0, Acq_Load 0])"
    by (rule interleaved_stepI [where i = 0]) (simp_all add: MAX_CAS_RETRIES_def)
  then have "interleaved 1 2 (0, [Pop_Cas 0 0, Acq_Cas 0 0])"
    by (rule interleaved_stepI [where i = 1]) (simp_all add: MAX_CAS_RETRIES_def)
  then have "interleaved 1 2 (1, [Pop_Undo, Acq_Cas 0 0])"
    by (rule interleaved_stepI [where i = 0 and b = False]) simp_all
  then show "interleaved 1 2 (1, [Pop_Undo, Acq_Load 1])" by (rule interleaved_stepI [where i = 1]) simp_all
qed

text \<open>A permit can be lost: a thread that acquires and completes at every attempt of another makes the
  hundred attempts of its \<open>complete\<close> fail, and the unit stays counted with no operation in flight.\<close>

lemma release_disturbed_once:
  assumes "interleaved 2 2 (1, [Rel_Load n, Idle])" and "n < MAX_CAS_RETRIES"
  shows "interleaved 2 2 (2, [Rel_Load (Suc n), Holds])"
proof -
  from assms(1) have "interleaved 2 2 (1, [Rel_Cas n 1, Idle])"
    by (rule interleaved_stepI [where i = 0]) (use assms(2) in simp_all)
  then have "interleaved 2 2 (1, [Rel_Cas n 1, Acq_Load 0])"
    by (rule interleaved_stepI [where i = 1 and b = False]) simp_all
  then have "interleaved 2 2 (1, [Rel_Cas n 1, Acq_Cas 0 1])"
    by (rule interleaved_stepI [where i = 1]) (simp_all add: MAX_CAS_RETRIES_def word_le_nat_alt)
  then have "interleaved 2 2 (2, [Rel_Cas n 1, Holds])" by (rule interleaved_stepI [where i = 1]) simp_all
  then show ?thesis by (rule interleaved_stepI [where i = 0]) simp_all
qed

lemma release_disturbed_twice:
  assumes "interleaved 2 2 (2, [Rel_Load n, Holds])" and "n < MAX_CAS_RETRIES"
  shows "interleaved 2 2 (1, [Rel_Load (Suc n), Idle])"
proof -
  from assms(1) have "interleaved 2 2 (2, [Rel_Cas n 2, Holds])"
    by (rule interleaved_stepI [where i = 0]) (use assms(2) in simp_all)
  then have "interleaved 2 2 (2, [Rel_Cas n 2, Rel_Load 0])" by (rule interleaved_stepI [where i = 1]) simp_all
  then have "interleaved 2 2 (2, [Rel_Cas n 2, Rel_Cas 0 2])"
    by (rule interleaved_stepI [where i = 1]) (simp_all add: MAX_CAS_RETRIES_def)
  then have "interleaved 2 2 (1, [Rel_Cas n 2, Idle])" by (rule interleaved_stepI [where i = 1]) simp_all
  then show ?thesis by (rule interleaved_stepI [where i = 0]) simp_all
qed

lemma permit_can_leak: "interleaved 2 2 (1, [Gave_up, Idle])"
proof -
  have "interleaved 2 2 (0, [Idle, Idle])" using interleaved.start [of 2 2] by (simp add: numeral_2_eq_2)
  then have "interleaved 2 2 (0, [Acq_Load 0, Idle])" by (rule interleaved_stepI [where i = 0 and b = False]) simp_all
  then have "interleaved 2 2 (0, [Acq_Cas 0 0, Idle])"
    by (rule interleaved_stepI [where i = 0]) (simp_all add: MAX_CAS_RETRIES_def)
  then have "interleaved 2 2 (1, [Holds, Idle])" by (rule interleaved_stepI [where i = 0]) simp_all
  then have start: "interleaved 2 2 (1, [Rel_Load 0, Idle])" by (rule interleaved_stepI [where i = 0]) simp_all
  have "2 * n \<le> MAX_CAS_RETRIES \<Longrightarrow> interleaved 2 2 (1, [Rel_Load (2 * n), Idle])" for n
  proof (induction n)
    case (Suc n)
    then have "interleaved 2 2 (1, [Rel_Load (Suc (Suc (2 * n))), Idle])"
      by (intro release_disturbed_twice release_disturbed_once) simp_all
    then show ?case by simp
  qed (simp add: start)
  from this [of 50] have "interleaved 2 2 (1, [Rel_Load 100, Idle])" by (simp add: MAX_CAS_RETRIES_def)
  then show ?thesis by (rule interleaved_stepI [where i = 0]) (simp_all add: MAX_CAS_RETRIES_def)
qed

text \<open>The delay of the \<open>n\<close>th call since a reset is the base \<open>min (100 * 2 ^ n) 30000\<close> ms plus 0, 10
  or 20 percent of it in rotation, so every delay lies between 100 and 36000 ms and no
  multiplication overflows, however often the 32-bit attempt counter wraps.\<close>

theorem backoff_closed_form:
  "unat (fst (next_delay (backoff_after n)))
     = backoff_base n + backoff_base n div 10 * (n mod 2 ^ 32 mod 3) \<and>
   100 \<le> unat (fst (next_delay (backoff_after n))) \<and>
   unat (fst (next_delay (backoff_after n))) \<le> 36000"
proof -
  let ?b = "backoff_after n"
  define j where "j = n mod 2 ^ 32 mod 3"
  have j: "j \<le> 2" by (simp add: j_def)
  have m: "unat (ucast (bo_attempts ?b) mod 3 :: u64) = j"
    using backoff_after_state [of n] by (simp add: unat_of_u32_mod j_def)
  have d: "unat (bo_next_delay_ms ?b div 10) = backoff_base n div 10"
    using backoff_after_state [of n] by (simp add: unat_div)
  have p: "backoff_base n div 10 * j \<le> 6000"
    using mult_le_mono [of "backoff_base n div 10" 3000 j 2] j backoff_base_le [of n] by simp
  have "unat ((bo_next_delay_ms ?b div 10) * (ucast (bo_attempts ?b) mod 3)) = backoff_base n div 10 * j"
    unfolding unat_word_ariths(2) m d using p by simp
  moreover have "unat (bo_next_delay_ms ?b) = backoff_base n" using backoff_after_state [of n] by simp
  ultimately have "unat (fst (next_delay ?b)) = backoff_base n + backoff_base n div 10 * j"
    unfolding next_delay_def Let_def fst_conv unat_word_ariths(1)
    using p backoff_base_le [of n] by simp
  with p backoff_base_le [of n] show ?thesis by (simp add: j_def)
qed

text \<open>After \<open>n\<close> timeouts in a row the adaptive timeout is \<open>min (1000 * 2 ^ n) 30000\<close> ms; it reports
  its maximum exactly from the fifth timeout on, and a success brings back the base.\<close>

theorem timeout_closed_form:
  "timeout ((on_timeout ^^ n) timeout_handler_new) = min (1000 * 2 ^ n) 30000 \<and>
   (is_at_max ((on_timeout ^^ n) timeout_handler_new) \<longleftrightarrow> 5 \<le> n) \<and>
   timeout (on_success ((on_timeout ^^ n) timeout_handler_new)) = 1000"
proof -
  have "30000 \<le> 1000 * (2 :: nat) ^ n \<longleftrightarrow> 5 \<le> n"
  proof
    assume "5 \<le> n"
    then have "(2 :: nat) ^ 5 \<le> 2 ^ n" by (rule power_increasing) simp
    then show "30000 \<le> 1000 * (2 :: nat) ^ n" by simp
  next
    assume a: "30000 \<le> 1000 * (2 :: nat) ^ n"
    show "5 \<le> n"
    proof (rule ccontr)
      assume "\<not> 5 \<le> n"
      then have "(2 :: nat) ^ n \<le> 2 ^ 4" by (intro power_increasing) simp_all
      with a show False by simp
    qed
  qed
  then show ?thesis by (simp add: timeouts_in_a_row timeout_def is_at_max_def on_success_def)
qed

text \<open>A schedule of calls on the queue, with the operations it started.\<close>

datatype 'a queue_call = Push 'a | Pop | Complete

fun queue_run :: "'a queue_call list \<Rightarrow> 'a operation_queue \<Rightarrow> 'a list \<times> 'a operation_queue" where
  "queue_run [] q = ([], q)"
| "queue_run (Push x # cs) q = queue_run cs (queue_push x q)"
| "queue_run (Complete # cs) q = queue_run cs (queue_complete q)"
| "queue_run (Pop # cs) q =
     (let (r, q1) = pop_if_ready q; (xs, q2) = queue_run cs q1
      in (case r of None \<Rightarrow> xs | Some x \<Rightarrow> x # xs, q2))"

fun pushed :: "'a queue_call list \<Rightarrow> 'a list" where
  "pushed [] = []"
| "pushed (Push x # cs) = x # pushed cs"
| "pushed (c # cs) = pushed cs"

lemma queue_run_fifo:
  assumes "queue_run cs q = (xs, q')" and "oq_in_flight q \<le> oq_max_in_flight q"
  shows "xs @ oq_pending q' = oq_pending q @ pushed cs \<and>
     oq_in_flight q' \<le> oq_max_in_flight q' \<and> oq_max_in_flight q' = oq_max_in_flight q"
  using assms
proof (induction cs q arbitrary: xs rule: queue_run.induct)
  case (2 x cs q)
  then show ?case by (auto simp: queue_push_def)
next
  case (3 cs q)
  then show ?case using queue.run_bounded [of q "[False]"]
    by (auto simp: queue_complete_def word_le_nat_alt split: if_splits)
next
  case (4 cs q)
  obtain r q1 where pop: "pop_if_ready q = (r, q1)" by (cases "pop_if_ready q")
  obtain xs1 where run: "queue_run cs q1 = (xs1, q')" and xs: "xs = (case r of None \<Rightarrow> xs1 | Some x \<Rightarrow> x # xs1)"
    using "4.prems" pop by (auto split: prod.splits)
  have q1: "oq_max_in_flight q1 = oq_max_in_flight q" "oq_in_flight q1 \<le> oq_max_in_flight q1"
    "oq_pending q = (case r of None \<Rightarrow> oq_pending q1 | Some x \<Rightarrow> x # oq_pending q1)"
    using pop "4.prems"(2) unat_plus_one [of "oq_in_flight q" "oq_max_in_flight q"]
    by (auto simp: pop_if_ready_def word_le_nat_alt word_less_nat_alt Let_def
        split: if_splits list.splits)
  from "4.IH" [OF pop [symmetric] refl run q1(2)] q1 xs show ?case
    by (cases r) auto
qed simp

text \<open>Whatever calls are made on a new queue, the operations it starts followed by those still
  pending are the pushed ones in their order, and the number in flight never exceeds the
  maximum.\<close>

theorem queue_is_fifo_and_bounded:
  assumes "queue_run cs (operation_queue_new m) = (started, q)"
  shows "started @ oq_pending q = pushed cs \<and> oq_in_flight q \<le> m"
  using queue_run_fifo [OF assms] by (auto simp: operation_queue_new_def)

theorem queue_is_fifo_and_bounded_witness:
  "[7, 8] @ [9 :: nat] = pushed [Push 7, Push 8, Pop, Push 9, Pop, Complete, Pop] \<and> (1 :: usize) \<le> 1"
  using queue_is_fifo_and_bounded
    [of "[Push (7 :: nat), Push 8, Pop, Push 9, Pop, Complete, Pop]" 1 "[7, 8]"
        "\<lparr>oq_pending = [9], oq_in_flight = 1, oq_max_in_flight = 1\<rparr>"]
  by (simp add: operation_queue_new_def queue_push_def pop_if_ready_def queue_complete_def Let_def)

end
