(* ===== verification/Modbus_Client.thy ===== *)
theory Modbus_Client
  imports Json Modbus_Operations Modbus_Types
begin

text \<open>
  \<open>src/workers/modbus/client.rs\<close>: the Modbus operations and their dispatch to reads and writes of
  register mappings, the client that reconnects lazily and retries once, and the connection pool.

  The TCP client and the register mappings belong to the \<open>roboplc\<close> crate.  They are the record
  \<open>modbus_io\<close>, an argument of every operation that talks to a device: a world of the caller's
  choice is threaded through its functions, an error is the text of its \<open>Display\<close>, a read gives
  the raw bytes of the response with its endianness, and \<open>io_now\<close> is the clock in nanoseconds.
\<close>

section \<open>The interface to the device\<close>

datatype write_payload = PWord u16 | PBytes "u8 list" | PWords "u16 list"

datatype endian = Big | Little

record ('w, 'c, 'm) modbus_io =
  io_tcp_connect :: "string \<Rightarrow> nat \<Rightarrow> 'w \<Rightarrow> (string + 'c) \<times> 'w"
  io_client_connect :: "'c \<Rightarrow> 'w \<Rightarrow> (string + unit) \<times> 'w"
  io_mapping_create :: "'c \<Rightarrow> u8 \<Rightarrow> modbus_register_kind \<Rightarrow> u16 \<Rightarrow> u16 \<Rightarrow> 'w \<Rightarrow> (string + 'm) \<times> 'w"
  io_mapping_read :: "'m \<Rightarrow> 'w \<Rightarrow> (string + endian \<times> u8 list) \<times> 'w"
  io_mapping_write :: "'m \<Rightarrow> write_payload \<Rightarrow> 'w \<Rightarrow> (string + unit) \<times> 'w"
  io_now :: "'w \<Rightarrow> nat"

text \<open>\<open>DEFAULT_CONNECT_TIMEOUT\<close> and \<open>POOL_CONNECTION_TIMEOUT\<close> in nanoseconds.\<close>

definition DEFAULT_CONNECT_TIMEOUT :: nat where
  "DEFAULT_CONNECT_TIMEOUT = DEFAULT_CONNECT_TIMEOUT_MS * 1000000"

definition POOL_CONNECTION_TIMEOUT :: nat where
  "POOL_CONNECTION_TIMEOUT = DEFAULT_CONNECT_TIMEOUT"

text \<open>
  \<open>BinaryData<T>::read_options\<close> reads values until the end of the data; a trailing byte that does
  not fill a \<open>u16\<close> is an end of file too.
\<close>

fun binary_data_u8 :: "u8 list \<Rightarrow> u8 list" where
  "binary_data_u8 [] = []"
| "binary_data_u8 (b # bs) = b # binary_data_u8 bs"

fun binary_data_u16 :: "endian \<Rightarrow> u8 list \<Rightarrow> u16 list" where
  "binary_data_u16 e (a # b # bs) =
     (case e of Big \<Rightarrow> word_of_nat (unat a * 256 + unat b)
              | Little \<Rightarrow> word_of_nat (unat b * 256 + unat a)) # binary_data_u16 e bs"
| "binary_data_u16 e bs = []"

section \<open>Operations and results\<close>

datatype write_value = WCoil bool | WHolding u16

datatype modbus_op =
    ReadCoil u16 u16
  | ReadDiscrete u16 u16
  | ReadInput u16 u16
  | ReadHolding u16 u16
  | WriteSingle u16 u16
  | WriteMultiple u16 "u16 list"
  | WriteSingleCoil u16 bool
  | WriteMultipleCoils u16 "bool list"

record 'n operation_result =
  or_success :: bool
  or_data :: "'n json"
  or_error :: "string option"

definition failed :: "string \<Rightarrow> 'n operation_result" where
  "failed e = \<lparr>or_success = False, or_data = JNull, or_error = Some e\<rparr>"

definition read_registers_static_with_tr_id ::
  "'n number_api \<Rightarrow> ('w, 'c, 'm) modbus_io \<Rightarrow> 'c \<Rightarrow> u8 \<Rightarrow> modbus_register_kind \<Rightarrow> u16 \<Rightarrow> u16
     \<Rightarrow> u16 option \<Rightarrow> 'w \<Rightarrow> 'n operation_result \<times> 'w" where
  "read_registers_static_with_tr_id api io client unit_id kind address cnt tr_id w =
     (case io_mapping_create io client unit_id kind address cnt w of
        (Inl e, w1) \<Rightarrow> (failed (''Failed to create mapping: '' @ e), w1)
      | (Inr mapping, w1) \<Rightarrow>
          let start = io_now io w1;
              (response, w2) = io_mapping_read io mapping w1;
              vals = (if kind = KindCoil \<or> kind = KindDiscrete
                then map_sum id (\<lambda>(e, bs). map (\<lambda>b. if b \<noteq> 0 then 1 else 0) (binary_data_u8 bs)) response
                else map_sum id (\<lambda>(e, bs). binary_data_u16 e bs) response)
          in (case vals of
                Inr vs \<Rightarrow>
                  let latency_us = word_of_nat ((io_now io w2 - start) div 1000) in
                  (\<lparr>or_success = True,
                    or_data = json_object
                      [(''values'', JArr (map (\<lambda>v :: u16. json_u64 api (ucast v)) vs)),
                       (''latency_us'', json_u64 api latency_us)],
                    or_error = None\<rparr>, w2)
              | Inl e \<Rightarrow> (failed (''Read failed: '' @ e), w2)))"

definition read_registers_static ::
  "'n number_api \<Rightarrow> ('w, 'c, 'm) modbus_io \<Rightarrow> 'c \<Rightarrow> u8 \<Rightarrow> modbus_register_kind \<Rightarrow> u16 \<Rightarrow> u16
     \<Rightarrow> 'w \<Rightarrow> 'n operation_result \<times> 'w" where
  "read_registers_static api io client unit_id kind address cnt w =
     read_registers_static_with_tr_id api io client unit_id kind address cnt None w"

definition build_write_result_static ::
  "'n number_api \<Rightarrow> string + unit \<Rightarrow> u16 \<Rightarrow> u16 \<Rightarrow> nat \<Rightarrow> 'n operation_result" where
  "build_write_result_static api result address cnt duration =
     (case result of
        Inr _ \<Rightarrow>
          \<lparr>or_success = True,
           or_data = json_object
             [(''address'', json_u64 api (ucast address)), (''count'', json_u64 api (ucast cnt)),
              (''latency_us'', json_u64 api (word_of_nat (duration div 1000)))],
           or_error = None\<rparr>
      | Inl e \<Rightarrow> failed (''Write failed: '' @ e))"

definition write_coils_static ::
  "'n number_api \<Rightarrow> ('w, 'c, 'm) modbus_io \<Rightarrow> 'c \<Rightarrow> u8 \<Rightarrow> u16 \<Rightarrow> write_value list
     \<Rightarrow> 'w \<Rightarrow> 'n operation_result \<times> 'w" where
  "write_coils_static api io client unit_id address values w =
     (let coil_values = List.map_filter (\<lambda>v. case v of WCoil b \<Rightarrow> Some b | WHolding _ \<Rightarrow> None) values;
          cnt = word_of_nat (length coil_values)
      in case io_mapping_create io client unit_id KindCoil address cnt w of
           (Inl e, w1) \<Rightarrow> (failed (''Failed to create mapping: '' @ e), w1)
         | (Inr mapping, w1) \<Rightarrow>
             let start = io_now io w1;
                 payload = (if cnt = 1
                   then PWord (if coil_values ! 0 then 0xFF00 else 0)
                   else PBytes (map (\<lambda>b. if b then 0xFF else 0) coil_values));
                 (result, w2) = io_mapping_write io mapping payload w1
             in (build_write_result_static api result address cnt (io_now io w2 - start), w2))"

definition write_holding_registers_static ::
  "'n number_api \<Rightarrow> ('w, 'c, 'm) modbus_io \<Rightarrow> 'c \<Rightarrow> u8 \<Rightarrow> u16 \<Rightarrow> write_value list
     \<Rightarrow> 'w \<Rightarrow> 'n operation_result \<times> 'w" where
  "write_holding_registers_static api io client unit_id address values w =
     (let holding_values = List.map_filter (\<lambda>v. case v of WHolding u \<Rightarrow> Some u | WCoil _ \<Rightarrow> None) values;
          cnt = word_of_nat (length holding_values)
      in case io_mapping_create io client unit_id KindHolding address cnt w of
           (Inl e, w1) \<Rightarrow> (failed (''Failed to create mapping: '' @ e), w1)
         | (Inr mapping, w1) \<Rightarrow>
             let start = io_now io w1;
                 payload = (if cnt = 1 then PWord (holding_values ! 0) else PWords holding_values);
                 (result, w2) = io_mapping_write io mapping payload w1
             in (build_write_result_static api result address cnt (io_now io w2 - start), w2))"

fun same_kind :: "write_value \<Rightarrow> write_value \<Rightarrow> bool" where
  "same_kind (WCoil _) (WCoil _) = True"
| "same_kind (WHolding _) (WHolding _) = True"
| "same_kind _ _ = False"

definition write_registers_static ::
  "'n number_api \<Rightarrow> ('w, 'c, 'm) modbus_io \<Rightarrow> 'c \<Rightarrow> u8 \<Rightarrow> u16 \<Rightarrow> write_value list
     \<Rightarrow> 'w \<Rightarrow> 'n operation_result \<times> 'w" where
  "write_registers_static api io client unit_id address values w =
     (if values = [] then (failed ''Cannot write empty values slice'', w)
      else let first_kind = values ! 0 in
        if \<not> list_all (same_kind first_kind) values
        then (failed ''Cannot mix Coil and Holding types in single write operation'', w)
        else case first_kind of
               WCoil _ \<Rightarrow> write_coils_static api io client unit_id address values w
             | WHolding _ \<Rightarrow> write_holding_registers_static api io client unit_id address values w)"

fun dispatch_op_static ::
  "'n number_api \<Rightarrow> ('w, 'c, 'm) modbus_io \<Rightarrow> 'c \<Rightarrow> u8 \<Rightarrow> modbus_op \<Rightarrow> 'w
     \<Rightarrow> 'n operation_result \<times> 'w" where
  "dispatch_op_static api io client unit_id (ReadCoil address cnt) w =
     read_registers_static api io client unit_id KindCoil address cnt w"
| "dispatch_op_static api io client unit_id (ReadDiscrete address cnt) w =
     read_registers_static api io client unit_id KindDiscrete address cnt w"
| "dispatch_op_static api io client unit_id (ReadInput address cnt) w =
     read_registers_static api io client unit_id KindInput address cnt w"
| "dispatch_op_static api io client unit_id (ReadHolding address cnt) w =
     read_registers_static api io client unit_id KindHolding address cnt w"
| "dispatch_op_static api io client unit_id (WriteSingle address v) w =
     write_registers_static api io client unit_id address [WHolding v] w"
| "dispatch_op_static api io client unit_id (WriteMultiple address vs) w =
     write_registers_static api io client unit_id address (map WHolding vs) w"
| "dispatch_op_static api io client unit_id (WriteSingleCoil address v) w =
     write_registers_static api io client unit_id address [WCoil v] w"
| "dispatch_op_static api io client unit_id (WriteMultipleCoils address vs) w =
     write_registers_static api io client unit_id address (map WCoil vs) w"

section \<open>The client with lazy recovery\<close>

record 'c modbus_client =
  mc_endpoint :: string
  mc_connection :: "'c option"
  mc_unit_id :: u8

definition modbus_client_new :: "string \<Rightarrow> u8 \<Rightarrow> 'c modbus_client" where
  "modbus_client_new endpoint unit_id =
     \<lparr>mc_endpoint = endpoint, mc_connection = None, mc_unit_id = unit_id\<rparr>"

text \<open>\<open>tcp::connect(..)?\<close> followed by \<open>client.connect()?\<close>\<close>

definition open_connection ::
  "('w, 'c, 'm) modbus_io \<Rightarrow> string \<Rightarrow> nat \<Rightarrow> 'w \<Rightarrow> (string + 'c) \<times> 'w" where
  "open_connection io endpoint tmo w =
     (case io_tcp_connect io endpoint tmo w of
        (Inl e, w1) \<Rightarrow> (Inl e, w1)
      | (Inr client, w1) \<Rightarrow>
          (case io_client_connect io client w1 of
             (Inl e, w2) \<Rightarrow> (Inl e, w2)
           | (Inr _, w2) \<Rightarrow> (Inr client, w2)))"

definition client_connect ::
  "('w, 'c, 'm) modbus_io \<Rightarrow> 'c modbus_client \<Rightarrow> nat \<Rightarrow> 'w \<Rightarrow> (string + unit) \<times> 'c modbus_client \<times> 'w"
where
  "client_connect io mc tmo w =
     (case open_connection io (mc_endpoint mc) tmo w of
        (Inl e, w1) \<Rightarrow> (Inl e, mc, w1)
      | (Inr client, w1) \<Rightarrow> (Inr (), mc\<lparr>mc_connection := Some client\<rparr>, w1))"

definition is_connection_broken :: "string \<Rightarrow> bool" where
  "is_connection_broken e \<longleftrightarrow>
     str_contains ''I/O error'' e \<or> str_contains ''failed to fill'' e \<or>
     str_contains ''Broken pipe'' e \<or> str_contains ''connection closed'' e \<or>
     str_contains ''connection reset'' e"

definition client_ensure_connected ::
  "('w, 'c, 'm) modbus_io \<Rightarrow> 'c modbus_client \<Rightarrow> nat \<Rightarrow> 'w \<Rightarrow> (string + unit) \<times> 'c modbus_client \<times> 'w"
where
  "client_ensure_connected io mc tmo w =
     (if mc_connection mc = None then client_connect io mc tmo w else (Inr (), mc, w))"

definition dispatch_op ::
  "'n number_api \<Rightarrow> ('w, 'c, 'm) modbus_io \<Rightarrow> 'c modbus_client \<Rightarrow> 'c \<Rightarrow> modbus_op \<Rightarrow> 'w
     \<Rightarrow> 'n operation_result \<times> 'w" where
  "dispatch_op api io mc client op w = dispatch_op_static api io client (mc_unit_id mc) op w"

definition client_execute_operation ::
  "'n number_api \<Rightarrow> ('w, 'c, 'm) modbus_io \<Rightarrow> 'c modbus_client \<Rightarrow> modbus_op \<Rightarrow> 'w
     \<Rightarrow> 'n operation_result \<times> 'c modbus_client \<times> 'w" where
  "client_execute_operation api io mc op w =
     (case client_ensure_connected io mc DEFAULT_CONNECT_TIMEOUT w of
        (Inl e, mc1, w1) \<Rightarrow> (failed (''Connection failed: '' @ e), mc1, w1)
      | (Inr _, mc1, w1) \<Rightarrow>
          (case mc_connection mc1 of
             None \<Rightarrow> (failed ''Connection lost during retry'', mc1, w1)
           | Some client \<Rightarrow>
               let (result, w2) = dispatch_op api io mc1 client op w1 in
               if \<not> or_success result \<and> (case or_error result of None \<Rightarrow> False | Some e \<Rightarrow> is_connection_broken e)
               then (case client_ensure_connected io (mc1\<lparr>mc_connection := None\<rparr>) DEFAULT_CONNECT_TIMEOUT w2 of
                       (Inl e, mc2, w3) \<Rightarrow> (failed (''Reconnection failed: '' @ e), mc2, w3)
                     | (Inr _, mc2, w3) \<Rightarrow>
                         (case mc_connection mc2 of
                            None \<Rightarrow> (failed ''Connection lost after ensure_connected'', mc2, w3)
                          | Some client2 \<Rightarrow>
                              let (result2, w4) = dispatch_op api io mc2 client2 op w3
                              in (result2, mc2, w4)))
               else (result, mc1, w2)))"

section \<open>The connection pool\<close>

record 'c pooled_connection =
  pc_client :: 'c
  pc_last_used :: nat
  pc_is_healthy :: bool

definition pooled_connection_new :: "nat \<Rightarrow> 'c \<Rightarrow> 'c pooled_connection" where
  "pooled_connection_new now client =
     \<lparr>pc_client = client, pc_last_used = now, pc_is_healthy = True\<rparr>"

definition pooled_age :: "nat \<Rightarrow> 'c pooled_connection \<Rightarrow> nat" where
  "pooled_age now p = now - pc_last_used p"

record 'c connection_pool =
  cp_endpoint :: string
  cp_unit_id :: u8
  cp_pool_size :: usize
  cp_health_check_interval :: nat
  cp_available :: "'c pooled_connection list"
  cp_total_created :: usize
  cp_transaction_id :: u16

definition pool_new :: "string \<Rightarrow> u8 \<Rightarrow> usize \<Rightarrow> nat \<Rightarrow> 'c connection_pool" where
  "pool_new endpoint unit_id pool_size interval =
     \<lparr>cp_endpoint = endpoint, cp_unit_id = unit_id, cp_pool_size = pool_size,
      cp_health_check_interval = interval, cp_available = [], cp_total_created = 0,
      cp_transaction_id = 1\<rparr>"

definition pool_clone :: "'c connection_pool \<Rightarrow> 'c connection_pool" where
  "pool_clone p = p\<lparr>cp_available := [], cp_total_created := 0, cp_transaction_id := 1\<rparr>"

definition available_count :: "'c connection_pool \<Rightarrow> nat" where
  "available_count p = length (cp_available p)"

definition create_connection ::
  "('w, 'c, 'm) modbus_io \<Rightarrow> 'c connection_pool \<Rightarrow> 'w \<Rightarrow> (string + 'c) \<times> 'c connection_pool \<times> 'w" where
  "create_connection io p w =
     (case open_connection io (cp_endpoint p) POOL_CONNECTION_TIMEOUT w of
        (Inl e, w1) \<Rightarrow> (Inl e, p, w1)
      | (Inr client, w1) \<Rightarrow> (Inr client, p\<lparr>cp_total_created := cp_total_created p + 1\<rparr>, w1))"

text \<open>The clean-up loop at the front of the queue; the clock is read once.\<close>

fun drop_stale ::
  "nat \<Rightarrow> nat \<Rightarrow> 'c pooled_connection list \<Rightarrow> usize \<Rightarrow> 'c pooled_connection list \<times> usize" where
  "drop_stale now interval [] created = ([], created)"
| "drop_stale now interval (front # rest) created =
     (if pc_is_healthy front \<and> pooled_age now front < interval then (front # rest, created)
      else drop_stale now interval rest (created - 1))"

definition acquire_connection ::
  "('w, 'c, 'm) modbus_io \<Rightarrow> 'c connection_pool \<Rightarrow> 'w \<Rightarrow> (string + 'c) \<times> 'c connection_pool \<times> 'w" where
  "acquire_connection io p w =
     (let (available, created) =
            drop_stale (io_now io w) (cp_health_check_interval p) (cp_available p) (cp_total_created p)
      in case available of
           pooled # rest \<Rightarrow>
             (Inr (pc_client pooled), p\<lparr>cp_available := rest, cp_total_created := created\<rparr>, w)
         | [] \<Rightarrow> create_connection io (p\<lparr>cp_available := [], cp_total_created := created\<rparr>) w)"

definition release_connection ::
  "nat \<Rightarrow> 'c connection_pool \<Rightarrow> 'c \<Rightarrow> bool \<Rightarrow> 'c connection_pool" where
  "release_connection now p client is_healthy =
     (if \<not> is_healthy then p\<lparr>cp_total_created := cp_total_created p - 1\<rparr>
      else if length (cp_available p) < unat (cp_pool_size p)
      then p\<lparr>cp_available := cp_available p @ [pooled_connection_new now client]\<rparr>
      else p\<lparr>cp_total_created := cp_total_created p - 1\<rparr>)"

definition pool_execute_operation ::
  "'n number_api \<Rightarrow> ('w, 'c, 'm) modbus_io \<Rightarrow> 'c connection_pool \<Rightarrow> modbus_op \<Rightarrow> 'w
     \<Rightarrow> 'n operation_result \<times> 'c connection_pool \<times> 'w" where
  "pool_execute_operation api io p op w =
     (case acquire_connection io p w of
        (Inl e, p1, w1) \<Rightarrow> (failed (''Pool connection failed: '' @ e), p1, w1)
      | (Inr client, p1, w1) \<Rightarrow>
          let p2 = p1\<lparr>cp_transaction_id := cp_transaction_id p1 + 1\<rparr>;
              (result, w2) = dispatch_op_static api io client (cp_unit_id p2) op w1
          in (result, release_connection (io_now io w2) p2 client (or_success result), w2))"

definition execute_on_client ::
  "'n number_api \<Rightarrow> ('w, 'c, 'm) modbus_io \<Rightarrow> 'c \<Rightarrow> u8 \<Rightarrow> modbus_op \<Rightarrow> 'w \<Rightarrow> 'n operation_result \<times> 'w" where
  "execute_on_client api io client unit_id op w = dispatch_op_static api io client unit_id op w"

section \<open>Accounting of the pool\<close>

text \<open>What \<open>total_created\<close> counts beyond the idle connections: those handed out.\<close>

definition handed_out :: "'c connection_pool \<Rightarrow> usize" where
  "handed_out p = cp_total_created p - of_nat (length (cp_available p))"

lemma drop_stale_suffix:
  assumes "drop_stale now interval av n = (av', n')"
  shows "n' - of_nat (length av') = n - of_nat (length av)"
    and "\<exists>ds. av = ds @ av'"
    and "av' \<noteq> [] \<Longrightarrow> pc_is_healthy (hd av') \<and> pooled_age now (hd av') < interval"
proof -
  have "n' - of_nat (length av') = n - of_nat (length av) \<and> (\<exists>ds. av = ds @ av') \<and>
      (av' \<noteq> [] \<longrightarrow> pc_is_healthy (hd av') \<and> pooled_age now (hd av') < interval)"
    using assms
  proof (induction av arbitrary: n)
    case (Cons a av)
    show ?case
    proof (cases "pc_is_healthy a \<and> pooled_age now a < interval")
      case True
      with Cons.prems show ?thesis by auto
    next
      case False
      with Cons.prems have "drop_stale now interval av (n - 1) = (av', n')" by simp
      from Cons.IH [OF this] show ?thesis by (auto simp: algebra_simps)
    qed
  qed simp
  then show "n' - of_nat (length av') = n - of_nat (length av)"
    "\<exists>ds. av = ds @ av'"
    "av' \<noteq> [] \<Longrightarrow> pc_is_healthy (hd av') \<and> pooled_age now (hd av') < interval"
    by blast+
qed

lemma open_connection_pool_fields:
  "create_connection io p w = (Inr c, p', w') \<Longrightarrow> p' = p\<lparr>cp_total_created := cp_total_created p + 1\<rparr>"
  "create_connection io p w = (Inl e, p', w') \<Longrightarrow> p' = p"
  by (auto simp: create_connection_def split: prod.splits sum.splits)

text \<open>The pools a sequence of calls can reach, with the number of connections handed out and the
  instant of the last call; the clock does not go back.\<close>

inductive pool_reach :: "('w, 'c, 'm) modbus_io \<Rightarrow> nat \<Rightarrow> 'c connection_pool \<Rightarrow> nat \<Rightarrow> bool"
  for io :: "('w, 'c, 'm) modbus_io" where
  new: "pool_reach io 0 (pool_new endpoint unit_id sz interval) now"
| acquired: "pool_reach io n p t \<Longrightarrow> t \<le> io_now io w \<Longrightarrow>
     acquire_connection io p w = (Inr c, p', w') \<Longrightarrow> pool_reach io (Suc n) p' (io_now io w)"
| refused: "pool_reach io n p t \<Longrightarrow> t \<le> io_now io w \<Longrightarrow>
     acquire_connection io p w = (Inl e, p', w') \<Longrightarrow> pool_reach io n p' (io_now io w)"
| released: "pool_reach io (Suc n) p t \<Longrightarrow> t \<le> now \<Longrightarrow>
     pool_reach io n (release_connection now p c healthy) now"

definition pool_inv :: "nat \<Rightarrow> 'c connection_pool \<Rightarrow> nat \<Rightarrow> bool" where
  "pool_inv n p t \<longleftrightarrow>
     cp_total_created p = of_nat (length (cp_available p) + n) \<and>
     length (cp_available p) \<le> unat (cp_pool_size p) \<and>
     list_all pc_is_healthy (cp_available p) \<and>
     sorted (map pc_last_used (cp_available p)) \<and>
     (\<forall>q \<in> set (cp_available p). pc_last_used q \<le> t)"

lemma pool_inv_dropped:
  assumes "pool_inv n p t" and "t \<le> now"
    and "drop_stale now (cp_health_check_interval p) (cp_available p) (cp_total_created p) = (av, created)"
  shows "pool_inv n (p\<lparr>cp_available := av, cp_total_created := created\<rparr>) now"
    and "\<forall>q \<in> set av. pooled_age now q < cp_health_check_interval p"
proof -
  note d = drop_stale_suffix [OF assms(3)]
  obtain ds where ds: "cp_available p = ds @ av" using d(2) by blast
  have "created = of_nat (length av + n)"
    using d(1) assms(1) ds by (simp add: pool_inv_def algebra_simps)
  then show "pool_inv n (p\<lparr>cp_available := av, cp_total_created := created\<rparr>) now"
    using assms(1,2) ds by (auto simp: pool_inv_def sorted_append intro: order_trans)
  have s: "sorted (map pc_last_used av)" using assms(1) ds by (simp add: pool_inv_def sorted_append)
  show "\<forall>q \<in> set av. pooled_age now q < cp_health_check_interval p"
  proof
    fix q assume q: "q \<in> set av"
    then have "pc_last_used (hd av) \<le> pc_last_used q" using s by (cases av) auto
    moreover have "pooled_age now (hd av) < cp_health_check_interval p" using d(3) q by (cases av) auto
    ultimately show "pooled_age now q < cp_health_check_interval p" by (simp add: pooled_age_def)
  qed
qed

lemma pool_inv_acquire:
  assumes inv: "pool_inv n p t" and "t \<le> io_now io w" and a: "acquire_connection io p w = (r, p', w')"
  shows "pool_inv (case r of Inl _ \<Rightarrow> n | Inr _ \<Rightarrow> Suc n) p' (io_now io w)"
    and "\<forall>q \<in> set (cp_available p'). pooled_age (io_now io w) q < cp_health_check_interval p"
proof -
  obtain av created where d:
    "drop_stale (io_now io w) (cp_health_check_interval p) (cp_available p) (cp_total_created p) = (av, created)"
    by fastforce
  note i = pool_inv_dropped [OF assms(1,2) d]
  have "pool_inv (case r of Inl _ \<Rightarrow> n | Inr _ \<Rightarrow> Suc n) p' (io_now io w) \<and> set (cp_available p') \<subseteq> set av"
  proof (cases av)
    case Nil
    with a d have c: "create_connection io (p\<lparr>cp_available := [], cp_total_created := created\<rparr>) w = (r, p', w')"
      by (simp add: acquire_connection_def)
    with i(1) Nil show ?thesis
      by (cases r) (auto simp: pool_inv_def algebra_simps dest!: open_connection_pool_fields)
  next
    case (Cons q av')
    with a d have "r = Inr (pc_client q)" "p' = p\<lparr>cp_available := av', cp_total_created := created\<rparr>"
      by (simp_all add: acquire_connection_def)
    with i(1) Cons show ?thesis by (auto simp: pool_inv_def algebra_simps)
  qed
  with i(2) show "pool_inv (case r of Inl _ \<Rightarrow> n | Inr _ \<Rightarrow> Suc n) p' (io_now io w)"
    "\<forall>q \<in> set (cp_available p'). pooled_age (io_now io w) q < cp_health_check_interval p" by auto
qed

lemma pool_inv_release:
  "pool_inv (Suc n) p t \<Longrightarrow> t \<le> now \<Longrightarrow> pool_inv n (release_connection now p c healthy) now"
  by (auto simp: pool_inv_def release_connection_def pooled_connection_new_def sorted_append algebra_simps
      intro: order_trans)

lemma pool_reach_inv: "pool_reach io n p t \<Longrightarrow> pool_inv n p t"
proof (induction rule: pool_reach.induct)
  case (new endpoint unit_id sz interval now)
  show ?case by (simp add: pool_inv_def pool_new_def)
next
  case (acquired n p t w c p' w')
  then show ?case using pool_inv_acquire(1) [of n p t io w "Inr c"] by simp
next
  case (refused n p t w e p' w')
  then show ?case using pool_inv_acquire(1) [of n p t io w "Inl e"] by simp
qed (rule pool_inv_release)

lemma handed_out_acquire:
  assumes "acquire_connection io p w = (r, p', w')"
  shows "handed_out p' = handed_out p + (case r of Inl _ \<Rightarrow> 0 | Inr _ \<Rightarrow> 1)"
proof -
  obtain av created where d:
    "drop_stale (io_now io w) (cp_health_check_interval p) (cp_available p) (cp_total_created p) = (av, created)"
    by fastforce
  note h = drop_stale_suffix(1) [OF d]
  show ?thesis
  proof (cases av)
    case Nil
    with assms d have c: "create_connection io (p\<lparr>cp_available := [], cp_total_created := created\<rparr>) w = (r, p', w')"
      by (simp add: acquire_connection_def)
    with h Nil show ?thesis
      by (cases r) (auto simp: handed_out_def dest!: open_connection_pool_fields)
  next
    case (Cons q av')
    with assms d have "r = Inr (pc_client q)" "p' = p\<lparr>cp_available := av', cp_total_created := created\<rparr>"
      by (simp_all add: acquire_connection_def)
    with h Cons show ?thesis by (simp add: handed_out_def algebra_simps)
  qed
qed

lemma handed_out_transaction_id [simp]: "handed_out (p\<lparr>cp_transaction_id := x\<rparr>) = handed_out p"
  by (simp add: handed_out_def)

lemma handed_out_release: "handed_out (release_connection now p c healthy) = handed_out p - 1"
  by (simp add: handed_out_def release_connection_def)

text \<open>What no operation on a pool changes, and its bound on idle connections.\<close>

definition same_pool :: "'c connection_pool \<Rightarrow> 'c connection_pool \<Rightarrow> bool" where
  "same_pool p p' \<longleftrightarrow>
     cp_endpoint p' = cp_endpoint p \<and> cp_unit_id p' = cp_unit_id p \<and>
     cp_pool_size p' = cp_pool_size p \<and> cp_health_check_interval p' = cp_health_check_interval p \<and>
     (length (cp_available p) \<le> unat (cp_pool_size p) \<longrightarrow>
      length (cp_available p') \<le> unat (cp_pool_size p))"

lemma same_pool_acquire:
  assumes "acquire_connection io p w = (r, p', w')"
  shows "same_pool p p'"
proof -
  obtain av created where d:
    "drop_stale (io_now io w) (cp_health_check_interval p) (cp_available p) (cp_total_created p) = (av, created)"
    by fastforce
  from drop_stale_suffix(2) [OF d] have "length av \<le> length (cp_available p)" by auto
  with assms d show ?thesis
    by (cases av; cases r)
       (auto simp: acquire_connection_def same_pool_def dest!: open_connection_pool_fields)
qed

lemma same_pool_release: "same_pool p (release_connection now p c healthy)"
  by (simp add: same_pool_def release_connection_def)

lemma same_pool_trans: "same_pool p q \<Longrightarrow> same_pool q r \<Longrightarrow> same_pool p r"
  by (simp add: same_pool_def)

lemma same_pool_transaction_id: "same_pool p (p\<lparr>cp_transaction_id := x\<rparr>)"
  by (simp add: same_pool_def)

lemma same_pool_execute:
  assumes "pool_execute_operation api io p op w = (r, p', w')"
  shows "same_pool p p'"
proof (cases "acquire_connection io p w")
  case (fields q p1 w1)
  note acq = same_pool_acquire [OF fields]
  show ?thesis
  proof (cases q)
    case (Inl e)
    with fields assms acq show ?thesis by (simp add: pool_execute_operation_def)
  next
    case (Inr c)
    obtain res w2 where "dispatch_op_static api io c (cp_unit_id p1) op w1 = (res, w2)" by fastforce
    with fields assms Inr
    have "p' = release_connection (io_now io w2) (p1\<lparr>cp_transaction_id := cp_transaction_id p1 + 1\<rparr>) c (or_success res)"
      by (auto simp: pool_execute_operation_def)
    with same_pool_trans [OF acq same_pool_trans [OF same_pool_transaction_id same_pool_release]]
    show ?thesis by simp
  qed
qed

text \<open>A device on which every exchange fails with a broken connection, and the number of exchanges.\<close>

definition flaky_io :: "(nat, unit, unit) modbus_io" where
  "flaky_io =
     \<lparr>io_tcp_connect = (\<lambda>endpoint tmo w. (Inr (), w)),
      io_client_connect = (\<lambda>c w. (Inr (), w)),
      io_mapping_create = (\<lambda>c u k a n w. (Inr (), w)),
      io_mapping_read = (\<lambda>m w. (Inl ''Broken pipe'', Suc w)),
      io_mapping_write = (\<lambda>m pl w. (Inl ''Broken pipe'', Suc w)),
      io_now = (\<lambda>w. w)\<rparr>"

text \<open>\<open>n\<close> counts the exchanges with the device: reads and writes, and nothing else.\<close>

definition counts_exchanges :: "('w, 'c, 'm) modbus_io \<Rightarrow> ('w \<Rightarrow> nat) \<Rightarrow> bool" where
  "counts_exchanges io n \<longleftrightarrow>
     (\<forall>e t w. n (snd (io_tcp_connect io e t w)) = n w) \<and>
     (\<forall>c w. n (snd (io_client_connect io c w)) = n w) \<and>
     (\<forall>c u k a m w. n (snd (io_mapping_create io c u k a m w)) = n w) \<and>
     (\<forall>m w. n (snd (io_mapping_read io m w)) = Suc (n w)) \<and>
     (\<forall>m pl w. n (snd (io_mapping_write io m pl w)) = Suc (n w))"

lemma counts_connect: "counts_exchanges io n \<Longrightarrow> n (snd (open_connection io e t w)) = n w"
  by (auto simp: counts_exchanges_def open_connection_def split: prod.split sum.split)
     (metis snd_conv)+

text \<open>The world a read or a write leaves.\<close>

definition after_read :: "('w, 'c, 'm) modbus_io \<Rightarrow> (string + 'm) \<times> 'w \<Rightarrow> 'w" where
  "after_read io r = (case r of (Inl e, w) \<Rightarrow> w | (Inr mp, w) \<Rightarrow> snd (io_mapping_read io mp w))"

definition after_write :: "('w, 'c, 'm) modbus_io \<Rightarrow> write_payload \<Rightarrow> (string + 'm) \<times> 'w \<Rightarrow> 'w" where
  "after_write io pl r = (case r of (Inl e, w) \<Rightarrow> w | (Inr mp, w) \<Rightarrow> snd (io_mapping_write io mp pl w))"

lemma world_read:
  "snd (read_registers_static api io c u k a m w) = after_read io (io_mapping_create io c u k a m w)"
  by (simp add: read_registers_static_def read_registers_static_with_tr_id_def Let_def after_read_def
      split: prod.split sum.split)

lemma world_write_coils:
  "\<exists>m pl. snd (write_coils_static api io c u a vs w) = after_write io pl (io_mapping_create io c u KindCoil a m w)"
proof -
  let ?vs = "List.map_filter (\<lambda>v. case v of WCoil b \<Rightarrow> Some b | WHolding _ \<Rightarrow> None) vs"
  let ?m = "word_of_nat (length ?vs) :: u16"
  let ?pl = "if ?m = 1 then PWord (if ?vs ! 0 then 0xFF00 else 0)
             else PBytes (map (\<lambda>b. if b then 0xFF else 0) ?vs)"
  have "snd (write_coils_static api io c u a vs w) = after_write io ?pl (io_mapping_create io c u KindCoil a ?m w)"
    unfolding write_coils_static_def Let_def after_write_def by (simp split: prod.split sum.split)
  then show ?thesis by blast
qed

lemma world_write_holding:
  "\<exists>m pl. snd (write_holding_registers_static api io c u a vs w) =
     after_write io pl (io_mapping_create io c u KindHolding a m w)"
proof -
  let ?vs = "List.map_filter (\<lambda>v. case v of WHolding x \<Rightarrow> Some x | WCoil _ \<Rightarrow> None) vs"
  let ?m = "word_of_nat (length ?vs) :: u16"
  let ?pl = "if ?m = 1 then PWord (?vs ! 0) else PWords ?vs"
  have "snd (write_holding_registers_static api io c u a vs w) =
      after_write io ?pl (io_mapping_create io c u KindHolding a ?m w)"
    unfolding write_holding_registers_static_def Let_def after_write_def by (simp split: prod.split sum.split)
  then show ?thesis by blast
qed

lemma world_write:
  "snd (write_registers_static api io c u a vs w) = w \<or>
   (\<exists>k m pl. k \<in> {KindCoil, KindHolding} \<and> snd (write_registers_static api io c u a vs w) =
      after_write io pl (io_mapping_create io c u k a m w))"
proof (cases "vs = [] \<or> \<not> list_all (same_kind (vs ! 0)) vs")
  case True
  then show ?thesis by (auto simp: write_registers_static_def)
next
  case False
  then have "snd (write_registers_static api io c u a vs w) =
      (case vs ! 0 of WCoil _ \<Rightarrow> snd (write_coils_static api io c u a vs w)
                    | WHolding _ \<Rightarrow> snd (write_holding_registers_static api io c u a vs w))"
    by (auto simp: write_registers_static_def split: write_value.split)
  then show ?thesis
    using world_write_coils [of api io c u a vs w] world_write_holding [of api io c u a vs w]
    by (cases "vs ! 0") fastforce+
qed

lemma counts_after:
  assumes "counts_exchanges io n" and "n (snd r) = k"
  shows "n (after_read io r) \<le> Suc k" and "n (after_write io pl r) \<le> Suc k"
  using assms by (cases r; cases "fst r"; auto simp: counts_exchanges_def after_read_def after_write_def)+

lemma counts_dispatch:
  assumes "counts_exchanges io n"
  shows "n (snd (dispatch_op_static api io c u op w)) \<le> Suc (n w)"
proof -
  have m: "n (snd (io_mapping_create io c u k a m w)) = n w" for k a m
    using assms by (simp add: counts_exchanges_def)
  have "n (snd (read_registers_static api io c u k a m w)) \<le> Suc (n w)" for k a m
    unfolding world_read by (rule counts_after(1) [OF assms m])
  moreover have "n (snd (write_registers_static api io c u a vs w)) \<le> Suc (n w)" for a vs
    using world_write [of api io c u a vs w] counts_after(2) [OF assms m] by force
  ultimately show ?thesis by (cases op) simp_all
qed

section \<open>Properties\<close>

text \<open>C10: In every state a sequence of acquisitions, refused acquisitions and releases can reach,
  \<open>total_created\<close> is the number of idle connections plus the number handed out, at most
  \<open>pool_size\<close> connections are idle, and all of them are healthy.\<close>

theorem pool_accounting:
  assumes "pool_reach io n p t"
  shows "cp_total_created p = of_nat (length (cp_available p) + n) \<and>
     length (cp_available p) \<le> unat (cp_pool_size p) \<and>
     list_all pc_is_healthy (cp_available p)"
  using pool_reach_inv [OF assms] by (simp add: pool_inv_def)

theorem pool_accounting_witness:
  "let p = release_connection 9 ((pool_new ''10.0.0.1:502'' 1 2 60)\<lparr>cp_total_created := 1\<rparr>) () True in
   cp_total_created p = of_nat (length (cp_available p) + 0) \<and>
     length (cp_available p) \<le> unat (cp_pool_size p) \<and>
     list_all pc_is_healthy (cp_available p)"
proof -
  have "acquire_connection flaky_io (pool_new ''10.0.0.1:502'' 1 2 60) 5
      = (Inr (), (pool_new ''10.0.0.1:502'' 1 2 60)\<lparr>cp_total_created := 1\<rparr>, 5)"
    by (simp add: acquire_connection_def create_connection_def open_connection_def flaky_io_def pool_new_def)
  from pool_reach.acquired [OF pool_reach.new _ this, of 0]
  have "pool_reach flaky_io (Suc 0) ((pool_new ''10.0.0.1:502'' 1 2 60)\<lparr>cp_total_created := 1\<rparr>) 5"
    by (simp add: flaky_io_def)
  from pool_reach.released [OF this, of 9 "()" True] show ?thesis
    unfolding Let_def by (intro pool_accounting) simp
qed

text \<open>An acquisition that reuses a connection hands out a healthy one used less than the health
  check interval ago, and leaves only such connections in the pool, although it looks only at the
  front of the queue.\<close>

theorem acquire_leaves_no_stale_connection:
  assumes "pool_reach io n p t" and "t \<le> io_now io w" and "acquire_connection io p w = (Inr c, p', w')"
  shows "(\<forall>q \<in> set (cp_available p'). pooled_age (io_now io w) q < cp_health_check_interval p) \<and>
     (cp_available p' = [] \<or>
      (\<exists>q \<in> set (cp_available p). pc_client q = c \<and> pc_is_healthy q \<and>
         pooled_age (io_now io w) q < cp_health_check_interval p))"
proof -
  obtain av created where d:
    "drop_stale (io_now io w) (cp_health_check_interval p) (cp_available p) (cp_total_created p) = (av, created)"
    by fastforce
  have "cp_available p' = [] \<or> (\<exists>q \<in> set (cp_available p). pc_client q = c \<and> pc_is_healthy q \<and>
         pooled_age (io_now io w) q < cp_health_check_interval p)"
  proof (cases av)
    case Nil
    with assms(3) d have
      "create_connection io (p\<lparr>cp_available := [], cp_total_created := created\<rparr>) w = (Inr c, p', w')"
      by (simp add: acquire_connection_def)
    then show ?thesis by (auto dest!: open_connection_pool_fields)
  next
    case (Cons q av')
    with assms(3) d have "c = pc_client q" by (simp add: acquire_connection_def)
    with drop_stale_suffix(2,3) [OF d] Cons show ?thesis by auto
  qed
  with pool_inv_acquire(2) [OF pool_reach_inv [OF assms(1)] assms(2,3)] show ?thesis by blast
qed

theorem acquire_leaves_no_stale_connection_witness:
  "let p = \<lparr>cp_endpoint = ''plc:502'', cp_unit_id = 1, cp_pool_size = 2, cp_health_check_interval = 60,
            cp_available = [pooled_connection_new 9 ()], cp_total_created = 1, cp_transaction_id = 1\<rparr>
   in acquire_connection flaky_io p 20 = (Inr (), p\<lparr>cp_available := []\<rparr>, 20) \<and>
     (cp_available (p\<lparr>cp_available := []\<rparr>) = [] \<or>
      (\<exists>q \<in> set (cp_available p). pc_client q = () \<and> pc_is_healthy q \<and>
         pooled_age 20 q < cp_health_check_interval p))"
proof -
  let ?new = "pool_new ''plc:502'' 1 2 60 :: unit connection_pool"
  let ?p0 = "?new\<lparr>cp_total_created := 1\<rparr>"
  define p where "p = \<lparr>cp_endpoint = ''plc:502'', cp_unit_id = 1, cp_pool_size = 2,
    cp_health_check_interval = 60, cp_available = [pooled_connection_new 9 ()],
    cp_total_created = 1, cp_transaction_id = 1\<rparr>"
  have "acquire_connection flaky_io ?new 5 = (Inr (), ?p0, 5)"
    by (simp add: acquire_connection_def create_connection_def open_connection_def flaky_io_def pool_new_def)
  from pool_reach.acquired [OF pool_reach.new _ this, of 0]
  have "pool_reach flaky_io (Suc 0) ?p0 5" by (simp add: flaky_io_def)
  from pool_reach.released [OF this, of 9 "()" True] have "pool_reach flaky_io 0 p 9"
    by (simp add: release_connection_def pool_new_def p_def)
  moreover have "acquire_connection flaky_io p 20 = (Inr (), p\<lparr>cp_available := []\<rparr>, 20)"
    by (simp add: acquire_connection_def flaky_io_def p_def pooled_connection_new_def pooled_age_def)
  ultimately show ?thesis
    unfolding Let_def p_def [symmetric]
    using acquire_leaves_no_stale_connection [of flaky_io 0 p 9 20 "()" "p\<lparr>cp_available := []\<rparr>" 20]
    by (simp add: flaky_io_def)
qed

text \<open>Executing an operation through the pool never leaks a connection: whatever the device does,
  the number of connections handed out is the same before and after.\<close>

theorem pool_execute_leaks_nothing:
  "handed_out (fst (snd (pool_execute_operation api io p op w))) = handed_out p"
proof (cases "acquire_connection io p w")
  case (fields r p1 w1)
  show ?thesis
    using handed_out_acquire [OF fields] fields
    by (auto simp: pool_execute_operation_def Let_def handed_out_release split: sum.split prod.split)
qed

text \<open>C35: The client exchanges at most two messages with the device for one operation, and only one
  unless the first exchange failed with an error that tells of a broken connection.\<close>

theorem client_retries_at_most_once:
  assumes "counts_exchanges io n"
    and "client_execute_operation api io mc op w = (r, mc', w')"
  shows "n w' \<le> n w + 2 \<and>
     (n w' = n w + 2 \<longrightarrow> (\<exists>mc1 w1 c e.
        client_ensure_connected io mc DEFAULT_CONNECT_TIMEOUT w = (Inr (), mc1, w1) \<and>
        mc_connection mc1 = Some c \<and>
        or_error (fst (dispatch_op api io mc1 c op w1)) = Some e \<and> is_connection_broken e))"
proof -
  have ens: "n w2 = n w1" if "client_ensure_connected io mc1 t w1 = (r1, mc2, w2)" for mc1 mc2 w1 w2 t r1
    using that counts_connect [OF assms(1), of "mc_endpoint mc1" t w1]
    by (auto simp: client_ensure_connected_def client_connect_def split: if_splits prod.splits sum.splits)
  have disp: "n w2 \<le> Suc (n w1)" if "dispatch_op api io mc1 c op w1 = (r1, w2)" for mc1 c w1 w2 r1
    using counts_dispatch [OF assms(1), of api c "mc_unit_id mc1" op w1] that by (simp add: dispatch_op_def)
  show ?thesis
    using assms(2)
    by (fastforce simp: client_execute_operation_def Let_def
        dest!: ens disp split: prod.splits sum.splits option.splits if_splits)
qed

theorem client_retries_at_most_once_witness:
  "(\<exists>mc1 w1 c e.
        client_ensure_connected flaky_io (modbus_client_new ''plc:502'' 1) DEFAULT_CONNECT_TIMEOUT 0
          = (Inr (), mc1, w1) \<and>
        mc_connection mc1 = Some c \<and>
        or_error (fst (dispatch_op sample_api flaky_io mc1 c (ReadHolding 0 1) w1)) = Some e \<and>
        is_connection_broken e)"
proof -
  have e: "client_execute_operation sample_api flaky_io (modbus_client_new ''plc:502'' 1) (ReadHolding 0 1) 0
      = (failed ''Read failed: Broken pipe'', (modbus_client_new ''plc:502'' 1)\<lparr>mc_connection := Some ()\<rparr>, 2)"
    by (simp add: client_execute_operation_def client_ensure_connected_def client_connect_def
        open_connection_def modbus_client_new_def flaky_io_def dispatch_op_def read_registers_static_def
        read_registers_static_with_tr_id_def failed_def is_connection_broken_def)
  have "counts_exchanges flaky_io id" by (simp add: counts_exchanges_def flaky_io_def)
  from client_retries_at_most_once [OF this e] show ?thesis by simp
qed

end
