(* ===== verification/Messages.thy ===== *)
theory Messages
  imports Json
begin

text \<open>
  The shared vocabulary of the workers: the hub messages of \<open>src/messages.rs\<close>, the correlation ids
  of \<open>src/correlation.rs\<close>, and the data cache and shared records of \<open>src/lib.rs\<close>.  A channel end
  held in a message is a value of the type parameter \<open>'ch\<close>.
\<close>

section \<open>Messages\<close>

datatype operation = ReadSignalGroup | WriteSignalGroup | GetStatus

record system_status_response =
  ssr_devices_count :: u32
  ssr_system_healthy :: bool
  ssr_uptime_secs :: u64

type_synonym 'n device_response_data = "bool \<times> 'n json \<times> string option"

datatype ('n, 'ch) message =
    DeviceControl string operation "'n json" u64 "'ch option"
  | DeviceResponse string bool "'n json" "string option" u64
  | DeviceHeartbeat string u64 u64
  | ConfigUpdate string
  | DataStreamUpdate string string "'n json" u64 u64 u64
  | SystemStatus string 'ch

text \<open>The attribute \<open>#[data_delivery(..)]\<close> of a message, from which \<open>DataPolicy\<close> derives how the hub
  delivers it.\<close>

datatype data_delivery = Always | Single

fun delivery_policy :: "('n, 'ch) message \<Rightarrow> data_delivery option" where
  "delivery_policy (DeviceControl i p ps c r) = Some Single"
| "delivery_policy (DeviceResponse i ok d e c) = None"
| "delivery_policy (DeviceHeartbeat i t l) = Some Always"
| "delivery_policy (ConfigUpdate c) = Some Always"
| "delivery_policy (DataStreamUpdate i g v t l s) = Some Always"
| "delivery_policy (SystemStatus r ch) = None"

section \<open>Correlation ids\<close>

text \<open>The global counter starts at 1; \<open>fetch_add\<close> returns the old value and wraps.\<close>

definition GLOBAL_CORRELATION_COUNTER :: u64 where "GLOBAL_CORRELATION_COUNTER = 1"

definition next_correlation_id :: "u64 \<Rightarrow> u64 \<times> u64" where
  "next_correlation_id counter = (counter, counter + 1)"

fun correlation_ids :: "nat \<Rightarrow> u64 \<Rightarrow> u64 list" where
  "correlation_ids 0 counter = []"
| "correlation_ids (Suc k) counter =
     (let (i, counter') = next_correlation_id counter in i # correlation_ids k counter')"

section \<open>The data cache\<close>

record 'n data_cache_entry =
  ce_values :: "'n json"
  ce_timestamp_ms :: u64
  ce_latency_us :: u64
  ce_error :: bool

definition data_cache_entry_new :: "'n json \<Rightarrow> u64 \<Rightarrow> u64 \<Rightarrow> bool \<Rightarrow> 'n data_cache_entry" where
  "data_cache_entry_new vs ts lat err =
     \<lparr>ce_values = vs, ce_timestamp_ms = ts, ce_latency_us = lat, ce_error = err\<rparr>"

type_synonym 'n data_cache = "string \<rightharpoonup> 'n data_cache_entry"

definition data_cache_new :: "'n data_cache" where
  "data_cache_new = Map.empty"

definition data_cache_get :: "'n data_cache \<Rightarrow> string \<Rightarrow> 'n data_cache_entry option" where
  "data_cache_get c key = c key"

definition data_cache_set :: "string \<Rightarrow> 'n data_cache_entry \<Rightarrow> 'n data_cache \<Rightarrow> 'n data_cache" where
  "data_cache_set key e c = c(key \<mapsto> e)"

text \<open>\<open>now\<close> is \<open>SystemTime::now()\<close> in milliseconds since the epoch, as a \<open>u64\<close>.\<close>

definition data_cache_get_age :: "'n data_cache \<Rightarrow> string \<Rightarrow> u64 \<Rightarrow> u64 option" where
  "data_cache_get_age c key now =
     map_option (\<lambda>e. saturating_sub now (ce_timestamp_ms e)) (c key)"

definition data_cache_is_fresh :: "'n data_cache \<Rightarrow> string \<Rightarrow> u64 \<Rightarrow> u64 \<Rightarrow> bool" where
  "data_cache_is_fresh c key ttl_ms now =
     (case data_cache_get_age c key now of Some age \<Rightarrow> age \<le> ttl_ms | None \<Rightarrow> False)"

interpretation data_cache: keyed_store data_cache_get data_cache_set data_cache_new
  by unfold_locales (auto simp: data_cache_get_def data_cache_set_def data_cache_new_def)

section \<open>Shared records\<close>

record device_status =
  ds_connected :: bool
  ds_last_communication :: nat
  ds_error_count :: u32
  ds_reconnect_count :: u32

record modbus_log_entry =
  ml_device_id :: string
  ml_timestamp_ms :: u64
  ml_operation :: string
  ml_address :: string
  ml_success :: bool
  ml_latency_us :: u64

datatype device_event_type = EvConnected | EvDisconnected | EvReconnecting | EvError | EvHeartbeatMissed

record device_event =
  de_device_id :: string
  de_event_type :: device_event_type
  de_timestamp_ms :: u64
  de_details :: string

record latency_sample =
  ls_device_id :: string
  ls_latency_us :: u64
  ls_timestamp_ms :: u64

section \<open>Lemmas\<close>

lemma length_correlation_ids [simp]: "length (correlation_ids k c) = k"
  by (induction k arbitrary: c) (simp_all add: next_correlation_id_def)

lemma nth_correlation_ids: "i < k \<Longrightarrow> correlation_ids k c ! i = c + of_nat i"
proof (induction k arbitrary: c i)
  case (Suc k)
  then show ?case by (cases i) (simp_all add: next_correlation_id_def algebra_simps)
qed simp

section \<open>Properties\<close>

text \<open>The correlation ids handed out since the start are pairwise distinct for the first
  \<open>2 ^ 64\<close> calls, and none of the first \<open>2 ^ 64 - 1\<close> is the reserved 0; in whatever order the
  threads perform their atomic increments, the ids are those of this list.\<close>

theorem correlation_ids_unique:
  assumes "k \<le> 2 ^ 64"
  shows "distinct (correlation_ids k GLOBAL_CORRELATION_COUNTER) \<and>
     (k < 2 ^ 64 \<longrightarrow> 0 \<notin> set (correlation_ids k GLOBAL_CORRELATION_COUNTER))"
proof
  have inj: "i = j" if "i < 2 ^ 64" "j < 2 ^ 64" "(of_nat i :: u64) = of_nat j" for i j
    using that by (metis unat_of_nat_u64)
  show "distinct (correlation_ids k GLOBAL_CORRELATION_COUNTER)"
    unfolding distinct_conv_nth
    using assms inj by (auto simp: nth_correlation_ids)
  show "k < 2 ^ 64 \<longrightarrow> 0 \<notin> set (correlation_ids k GLOBAL_CORRELATION_COUNTER)"
  proof (intro impI notI)
    assume k: "k < 2 ^ 64" and "0 \<in> set (correlation_ids k GLOBAL_CORRELATION_COUNTER)"
    then obtain i where i: "i < k" "(1 :: u64) + of_nat i = 0"
      by (auto simp: in_set_conv_nth nth_correlation_ids GLOBAL_CORRELATION_COUNTER_def)
    then have "(of_nat (Suc i) :: u64) = of_nat 0" by simp
    moreover have "Suc i < 2 ^ 64" using i(1) k by linarith
    ultimately have "Suc i = 0" by (rule inj [rotated 2]) simp_all
    then show False by simp
  qed
qed

theorem correlation_ids_unique_witness:
  "distinct (correlation_ids 1000 GLOBAL_CORRELATION_COUNTER) \<and>
     0 \<notin> set (correlation_ids 1000 GLOBAL_CORRELATION_COUNTER)"
  using correlation_ids_unique [of 1000] by simp

text \<open>A cache entry is fresh exactly when the key is present and the current time is at most its
  timestamp plus the time to live, compared without wrap-around; a timestamp in the future counts
  as fresh, and entries of other keys do not matter.\<close>

theorem cache_fresh_iff:
  "data_cache_is_fresh c key ttl now \<longleftrightarrow>
     (\<exists>e. data_cache_get c key = Some e \<and> unat now \<le> unat (ce_timestamp_ms e) + unat ttl)"
  by (auto simp: data_cache_is_fresh_def data_cache_get_age_def data_cache_get_def word_le_nat_alt
      unat_saturating_sub split: option.split)

end
