(* ===== verification/Modbus_State.thy ===== *)
theory Modbus_State
  imports Modbus_Client Messages
begin

text \<open>
  \<open>src/workers/modbus/state.rs\<close>: the state of one Modbus worker.  The pool and the operation queue
  are behind an \<open>Arc\<close> that is never replaced once set, so the single copy in the record is the
  one the tasks share.  Device events pushed to the hub's buffer are returned as a list.

  The lemmas keep the worker's invariant through every operation and describe the connection life
  cycle: once a pool exists the device is never contacted again to decide that it is connected.
\<close>

section \<open>Definitions\<close>

record 'c worker_state =
  ws_device :: device
  ws_connection_pool :: "'c connection_pool option"
  ws_connection_state :: connection_state
  ws_backoff :: backoff
  ws_timeout_handler :: timeout_handler
  ws_operation_queue :: "unit operation_queue"

definition worker_state_new :: "device \<Rightarrow> 'c worker_state" where
  "worker_state_new d =
     \<lparr>ws_device = d, ws_connection_pool = None, ws_connection_state = Disconnected,
      ws_backoff = backoff_new, ws_timeout_handler = timeout_handler_new,
      ws_operation_queue = operation_queue_new (ucast (dev_max_concurrent_ops d))\<rparr>"

definition update_device_config :: "device \<Rightarrow> 'c worker_state \<Rightarrow> 'c worker_state" where
  "update_device_config new_device s =
     s\<lparr>ws_device := (ws_device s)\<lparr>dev_signal_groups := dev_signal_groups new_device\<rparr>\<rparr>"

definition device_endpoint :: "device \<Rightarrow> string" where
  "device_endpoint d = dev_address d @ '':'' @ show_nat (unat (dev_port d))"

text \<open>Timeouts are in milliseconds and the health check interval in seconds; the interface to the
  device counts nanoseconds.\<close>

definition connect_pool ::
  "('w, 'c, 'm) modbus_io \<Rightarrow> nat \<Rightarrow> 'c worker_state \<Rightarrow> 'w \<Rightarrow> (string + unit) \<times> 'c worker_state \<times> 'w" where
  "connect_pool io tmo s w =
     (let d = ws_device s;
          endpoint = device_endpoint d;
          requested = ucast (dev_max_concurrent_ops d) :: usize;
          max_pool = ucast (dev_max_pool_size d) :: usize;
          pool_size = min requested max_pool
      in case open_connection io endpoint (tmo * 1000000) w of
           (Inl e, w1) \<Rightarrow> (Inl e, s, w1)
         | (Inr test_client, w1) \<Rightarrow>
             let interval = unat (dev_pool_health_check_interval_sec d) * 1000000000
             in (Inr (), s\<lparr>ws_connection_pool := Some (pool_new endpoint (dev_unit_id d) pool_size interval)\<rparr>,
                 w1))"

fun connection_state_debug :: "connection_state \<Rightarrow> string" where
  "connection_state_debug Disconnected = ''Disconnected''"
| "connection_state_debug Connecting = ''Connecting''"
| "connection_state_debug Connected = ''Connected''"

fun connection_event :: "connection_state \<Rightarrow> device_event_type" where
  "connection_event Connected = EvConnected"
| "connection_event Disconnected = EvDisconnected"
| "connection_event Connecting = EvReconnecting"

text \<open>\<open>now\<close> is in nanoseconds since the epoch; the event carries milliseconds.\<close>

definition update_connection_state_with ::
  "nat \<Rightarrow> connection_state \<Rightarrow> 'c worker_state \<Rightarrow> 'c worker_state \<times> device_event list" where
  "update_connection_state_with now new_state s =
     (if ws_connection_state s \<noteq> new_state
      then (s\<lparr>ws_connection_state := new_state\<rparr>,
            [\<lparr>de_device_id = dev_id (ws_device s), de_event_type = connection_event new_state,
              de_timestamp_ms = word_of_nat (now div 1000000),
              de_details = ''Connection state: '' @ connection_state_debug new_state\<rparr>])
      else (s, []))"

definition update_connection_state ::
  "nat \<Rightarrow> connection_state \<Rightarrow> 'c worker_state \<Rightarrow> 'c worker_state \<times> device_event list" where
  "update_connection_state now new_state s = update_connection_state_with now new_state s"

definition record_communication :: "u64 \<Rightarrow> 'c worker_state \<Rightarrow> 'c worker_state" where
  "record_communication latency_us s = s"

text \<open>The second half of \<open>ensure_connected\<close>, once a pool exists.\<close>

definition mark_connected :: "nat \<Rightarrow> 'c worker_state \<Rightarrow> 'c worker_state \<times> device_event list" where
  "mark_connected now s =
     (let (s1, ev) = update_connection_state now Connected s
      in (s1\<lparr>ws_timeout_handler := on_success (ws_timeout_handler s1),
             ws_backoff := backoff_reset (ws_backoff s1)\<rparr>, ev))"

definition ensure_connected ::
  "('w, 'c, 'm) modbus_io \<Rightarrow> 'c worker_state \<Rightarrow> 'w \<Rightarrow> bool \<times> 'c worker_state \<times> device_event list \<times> 'w" where
  "ensure_connected io s w =
     (let tmo = timeout (ws_timeout_handler s) in
      if ws_connection_pool s = None
      then let (s1, ev1) = update_connection_state (io_now io w) Connecting s in
        (case connect_pool io tmo s1 w of
           (Inl e, s2, w2) \<Rightarrow>
             let s3 = s2\<lparr>ws_timeout_handler := on_timeout (ws_timeout_handler s2)\<rparr>;
                 (s4, ev2) = update_connection_state (io_now io w2) Disconnected s3
             in (False, s4, ev1 @ ev2, w2)
         | (Inr _, s2, w2) \<Rightarrow>
             let (s3, ev2) = mark_connected (io_now io w2) s2 in (True, s3, ev1 @ ev2, w2))
      else let (s1, ev) = mark_connected (io_now io w) s in (True, s1, ev, w))"

definition state_execute_operation ::
  "'n number_api \<Rightarrow> ('w, 'c, 'm) modbus_io \<Rightarrow> modbus_op \<Rightarrow> 'c worker_state \<Rightarrow> 'w
     \<Rightarrow> 'n operation_result \<times> 'c worker_state \<times> device_event list \<times> 'w" where
  "state_execute_operation api io op s w =
     (let (ok, s1, ev, w1) = ensure_connected io s w in
      if \<not> ok then (failed ''Failed to establish connection pool'', s1, ev, w1)
      else case ws_connection_pool s1 of
             Some pool \<Rightarrow>
               let (r, pool', w2) = pool_execute_operation api io pool op w1
               in (r, s1\<lparr>ws_connection_pool := Some pool'\<rparr>, ev, w2)
           | None \<Rightarrow> (failed ''Connection pool not available'', s1, ev, w1))"

definition get_pool :: "'c worker_state \<Rightarrow> 'c connection_pool option" where
  "get_pool s = ws_connection_pool s"

definition try_acquire_operation :: "'c worker_state \<Rightarrow> bool \<times> 'c worker_state" where
  "try_acquire_operation s =
     (let (r, q) = pop_if_ready (queue_push () (ws_operation_queue s))
      in (r \<noteq> None, s\<lparr>ws_operation_queue := q\<rparr>))"

definition try_acquire_operation_atomic :: "'c worker_state \<Rightarrow> bool \<times> 'c worker_state" where
  "try_acquire_operation_atomic s =
     (let (ok, q) = try_acquire_atomic (ws_operation_queue s) in (ok, s\<lparr>ws_operation_queue := q\<rparr>))"

definition complete_operation :: "'c worker_state \<Rightarrow> 'c worker_state" where
  "complete_operation s = s\<lparr>ws_operation_queue := queue_complete (ws_operation_queue s)\<rparr>"

definition state_in_flight_count :: "'c worker_state \<Rightarrow> usize" where
  "state_in_flight_count s = in_flight_count (ws_operation_queue s)"

definition execute_operation_direct ::
  "'n number_api \<Rightarrow> ('w, 'c, 'm) modbus_io \<Rightarrow> modbus_op \<Rightarrow> 'c worker_state \<Rightarrow> 'w
     \<Rightarrow> 'n operation_result \<times> 'c worker_state \<times> 'w" where
  "execute_operation_direct api io op s w =
     (case ws_connection_pool s of
        Some pool \<Rightarrow>
          let (r, pool', w1) = pool_execute_operation api io pool op w
          in (r, s\<lparr>ws_connection_pool := Some pool'\<rparr>, w1)
      | None \<Rightarrow> (failed ''Connection pool not available'', s, w))"

section \<open>Capacity\<close>

interpretation worker_capacity: capacity try_acquire_operation_atomic complete_operation
  "\<lambda>s :: 'c worker_state. unat (oq_in_flight (ws_operation_queue s))"
  "\<lambda>s. unat (oq_max_in_flight (ws_operation_queue s))"
proof
  fix s :: "'c worker_state"
  let ?q = "ws_operation_queue s"
  show "unat (oq_in_flight ?q) < unat (oq_max_in_flight ?q) \<Longrightarrow>
      fst (try_acquire_operation_atomic s) \<and>
      unat (oq_in_flight (ws_operation_queue (snd (try_acquire_operation_atomic s)))) = Suc (unat (oq_in_flight ?q))"
    using queue.acquire_free [of ?q] by (simp add: try_acquire_operation_atomic_def split_beta)
  show "unat (oq_max_in_flight ?q) \<le> unat (oq_in_flight ?q) \<Longrightarrow> try_acquire_operation_atomic s = (False, s)"
    using queue.acquire_full [of ?q] by (simp add: try_acquire_operation_atomic_def)
  show "unat (oq_max_in_flight (ws_operation_queue (snd (try_acquire_operation_atomic s)))) =
      unat (oq_max_in_flight ?q)"
    using queue.acquire_cap [of ?q] by (simp add: try_acquire_operation_atomic_def split_beta)
  show "unat (oq_in_flight (ws_operation_queue (complete_operation s))) = unat (oq_in_flight ?q) - 1"
    using queue.release_used [of ?q] by (simp add: complete_operation_def)
  show "unat (oq_max_in_flight (ws_operation_queue (complete_operation s))) = unat (oq_max_in_flight ?q)"
    using queue.release_cap [of ?q] by (simp add: complete_operation_def)
qed

section \<open>The invariant\<close>

text \<open>
  The queue is bounded by the device's limit, the pool is for the device's endpoint and no larger
  than either limit, a worker that says it is connected has a pool, and between operations the
  state is never \<open>Connecting\<close>.
\<close>

definition pool_ok :: "device \<Rightarrow> 'c connection_pool \<Rightarrow> bool" where
  "pool_ok d p \<longleftrightarrow>
     cp_endpoint p = device_endpoint d \<and> cp_unit_id p = dev_unit_id d \<and>
     unat (cp_pool_size p) = min (unat (dev_max_concurrent_ops d)) (unat (dev_max_pool_size d)) \<and>
     length (cp_available p) \<le> unat (cp_pool_size p)"

definition worker_inv :: "'c worker_state \<Rightarrow> bool" where
  "worker_inv s \<longleftrightarrow>
     unat (oq_max_in_flight (ws_operation_queue s)) = unat (dev_max_concurrent_ops (ws_device s)) \<and>
     oq_in_flight (ws_operation_queue s) \<le> oq_max_in_flight (ws_operation_queue s) \<and>
     (\<forall>p. ws_connection_pool s = Some p \<longrightarrow> pool_ok (ws_device s) p) \<and>
     (ws_connection_state s = Connected \<longleftrightarrow> ws_connection_pool s \<noteq> None) \<and>
     ws_connection_state s \<noteq> Connecting"

lemma pool_ok_same: "pool_ok d p \<Longrightarrow> same_pool p p' \<Longrightarrow> pool_ok d p'"
  unfolding pool_ok_def same_pool_def by auto

lemma pool_ok_device: "pool_ok (d\<lparr>dev_signal_groups := gs\<rparr>) p \<longleftrightarrow> pool_ok d p"
  by (simp add: pool_ok_def device_endpoint_def)

lemma unat_ucast_u8: "unat (ucast (b :: u8) :: u64) = unat b"
proof -
  have "unat b < 2 ^ 64" by (rule order_less_trans [OF unat_u8_less]) simp
  then show ?thesis by (simp add: unsigned_ucast_eq take_bit_nat_eq_self)
qed

lemma pool_ok_new:
  "pool_ok d (pool_new (device_endpoint d) (dev_unit_id d)
     (min (ucast (dev_max_concurrent_ops d)) (ucast (dev_max_pool_size d))) interval)"
  by (simp add: pool_ok_def pool_new_def unat_min unat_ucast_u8)

text \<open>Whether the worker is connected decides everything \<open>ensure_connected\<close> does.\<close>

lemma ensure_connected_pooled:
  assumes "ws_connection_pool s = Some p"
  shows "ensure_connected io s w =
     (True, s\<lparr>ws_connection_state := Connected, ws_timeout_handler := on_success (ws_timeout_handler s),
              ws_backoff := backoff_reset (ws_backoff s)\<rparr>,
      snd (update_connection_state (io_now io w) Connected s), w)"
  using assms
  by (cases s)
     (simp add: ensure_connected_def mark_connected_def update_connection_state_def
       update_connection_state_with_def)

lemma ensure_connected_unpooled:
  assumes "ws_connection_pool s = None" and "ws_connection_state s = Disconnected"
    and "ensure_connected io s w = (ok, s', ev, w')"
  shows "ok \<longleftrightarrow> ws_connection_pool s' \<noteq> None"
    and "ws_connection_state s' = (if ok then Connected else Disconnected)"
    and "ws_device s' = ws_device s" and "ws_operation_queue s' = ws_operation_queue s"
    and "ws_connection_pool s' = Some p \<Longrightarrow> pool_ok (ws_device s) p"
    and "map de_event_type ev = [EvReconnecting, if ok then EvConnected else EvDisconnected]"
    and "ws_timeout_handler s' =
           (if ok then on_success (ws_timeout_handler s) else on_timeout (ws_timeout_handler s))"
  using assms pool_ok_new [of "ws_device s"]
  by (auto simp: ensure_connected_def mark_connected_def connect_pool_def update_connection_state_def
        update_connection_state_with_def Let_def split: prod.splits sum.splits if_splits)

lemma worker_inv_new: "worker_inv (worker_state_new d)"
  by (simp add: worker_inv_def worker_state_new_def operation_queue_new_def unat_ucast_u8)

lemma worker_inv_ensure_connected:
  assumes inv: "worker_inv s" and e: "ensure_connected io s w = (ok, s', ev, w')"
  shows "worker_inv s' \<and> (ok \<longleftrightarrow> ws_connection_pool s' \<noteq> None)"
proof (cases "ws_connection_pool s")
  case None
  with inv have "ws_connection_state s = Disconnected"
    by (cases "ws_connection_state s") (auto simp: worker_inv_def)
  note u = ensure_connected_unpooled [OF None this e]
  show ?thesis
    using u(1-4) u(5) inv unfolding worker_inv_def by (metis connection_state.distinct(3,5) connection_state.distinct(1))
next
  case (Some p)
  with e inv show ?thesis by (auto simp: ensure_connected_pooled worker_inv_def)
qed

lemma worker_inv_pool:
  "worker_inv s \<Longrightarrow> ws_connection_pool s = Some p \<Longrightarrow> same_pool p p' \<Longrightarrow>
     worker_inv (s\<lparr>ws_connection_pool := Some p'\<rparr>)"
  by (auto simp: worker_inv_def dest: pool_ok_same)

lemma worker_inv_execute:
  assumes inv: "worker_inv s" and e: "state_execute_operation api io op s w = (r, s', ev, w')"
  shows "worker_inv s'"
proof -
  obtain ok s1 ev1 w1 where c: "ensure_connected io s w = (ok, s1, ev1, w1)"
    by (cases "ensure_connected io s w")
  note i = worker_inv_ensure_connected [OF inv c]
  show ?thesis
  proof (cases "ok \<and> ws_connection_pool s1 \<noteq> None")
    case False
    with e c i show ?thesis by (auto simp: state_execute_operation_def)
  next
    case True
    then obtain p where p: "ws_connection_pool s1 = Some p" by auto
    obtain r1 p' w2 where x: "pool_execute_operation api io p op w1 = (r1, p', w2)"
      by (cases "pool_execute_operation api io p op w1")
    with e c True p have "s' = s1\<lparr>ws_connection_pool := Some p'\<rparr>"
      by (simp add: state_execute_operation_def)
    with i p same_pool_execute [OF x] show ?thesis by (simp add: worker_inv_pool)
  qed
qed

lemma worker_inv_capacity:
  assumes "worker_inv s"
  shows "worker_inv (snd (try_acquire_operation_atomic s))" and "worker_inv (complete_operation s)"
proof -
  have "oq_in_flight (snd (try_acquire_atomic q)) \<le> oq_max_in_flight q"
    "oq_max_in_flight (snd (try_acquire_atomic q)) = oq_max_in_flight q"
    if "oq_in_flight q \<le> oq_max_in_flight q" for q :: "unit operation_queue"
    using queue.run_bounded [of q "[True]"] queue.acquire_cap [of q] that
    by (auto simp: word_le_nat_alt split_beta Let_def word_unat_eq_iff)
  with assms show "worker_inv (snd (try_acquire_operation_atomic s))"
    by (auto simp: worker_inv_def try_acquire_operation_atomic_def split_beta)
  have "oq_in_flight (queue_complete q) \<le> oq_max_in_flight q"
    "oq_max_in_flight (queue_complete q) = oq_max_in_flight q"
    if "oq_in_flight q \<le> oq_max_in_flight q" for q :: "unit operation_queue"
    using queue.run_bounded [of q "[False]"] that
    by (auto simp: word_le_nat_alt queue_complete_def)
  with assms show "worker_inv (complete_operation s)"
    by (auto simp: worker_inv_def complete_operation_def)
qed

lemma worker_inv_update_config: "worker_inv s \<Longrightarrow> worker_inv (update_device_config d s)"
  by (simp add: worker_inv_def update_device_config_def pool_ok_device)

section \<open>Properties\<close>

text \<open>The states of a worker for device \<open>d\<close>: operations of the worker's thread and of its tasks, in
  any order, in any world.\<close>

inductive worker_reach ::
  "'n number_api \<Rightarrow> ('w, 'c, 'm) modbus_io \<Rightarrow> device \<Rightarrow> 'c worker_state \<Rightarrow> bool"
  for api :: "'n number_api" and io :: "('w, 'c, 'm) modbus_io" and d :: device where
  new: "worker_reach api io d (worker_state_new d)"
| ensure: "worker_reach api io d s \<Longrightarrow> ensure_connected io s w = (ok, s', ev, w') \<Longrightarrow> worker_reach api io d s'"
| execute: "worker_reach api io d s \<Longrightarrow> state_execute_operation api io op s w = (r, s', ev, w')
    \<Longrightarrow> worker_reach api io d s'"
| task: "worker_reach api io d s \<Longrightarrow> execute_operation_direct api io op s w = (r', s', w')
    \<Longrightarrow> worker_reach api io d s'"
| acquire: "worker_reach api io d s \<Longrightarrow> try_acquire_operation_atomic s = (g, s') \<Longrightarrow> worker_reach api io d s'"
| complete: "worker_reach api io d s \<Longrightarrow> worker_reach api io d (complete_operation s)"
| update: "worker_reach api io d s \<Longrightarrow> worker_reach api io d (update_device_config d' s)"

lemma worker_inv_direct:
  assumes "worker_inv s" and "execute_operation_direct api io op s w = (r, s', w')"
  shows "worker_inv s'"
proof (cases "ws_connection_pool s")
  case None
  with assms show ?thesis by (simp add: execute_operation_direct_def)
next
  case (Some p)
  obtain r1 p' w2 where x: "pool_execute_operation api io p op w = (r1, p', w2)"
    by (cases "pool_execute_operation api io p op w")
  with assms Some have "s' = s\<lparr>ws_connection_pool := Some p'\<rparr>" by (simp add: execute_operation_direct_def)
  with assms(1) Some same_pool_execute [OF x] show ?thesis by (simp add: worker_inv_pool)
qed

lemma worker_reach_inv: "worker_reach api io d s \<Longrightarrow> worker_inv s"
proof (induction rule: worker_reach.induct)
  case (ensure s w ok s' ev w')
  from worker_inv_ensure_connected [OF ensure.IH ensure.hyps(2)] show ?case by (rule conjunct1)
next
  case (execute s op w r s' ev w')
  from execute.IH execute.hyps(2) show ?case by (rule worker_inv_execute)
next
  case (task s op w r' s' w')
  from task.IH task.hyps(2) show ?case by (rule worker_inv_direct)
next
  case (acquire s g s')
  then show ?case using worker_inv_capacity(1) [of s] by simp
qed (auto intro: worker_inv_new worker_inv_capacity(2) worker_inv_update_config)

text \<open>In every reachable state of a Modbus worker the number of operations in flight is at most the
  device's \<open>max_concurrent_ops\<close>, the state is \<open>Connected\<close> exactly when a pool exists, and the pool
  keeps at most \<open>min(max_concurrent_ops, max_pool_size)\<close> idle connections to the device's
  endpoint.\<close>

theorem worker_state_invariant:
  assumes "worker_reach api io d s"
  shows "unat (oq_in_flight (ws_operation_queue s)) \<le> unat (dev_max_concurrent_ops (ws_device s)) \<and>
     (ws_connection_state s = Connected \<longleftrightarrow> ws_connection_pool s \<noteq> None) \<and>
     (\<forall>p. ws_connection_pool s = Some p \<longrightarrow>
        cp_endpoint p = device_endpoint (ws_device s) \<and>
        length (cp_available p) \<le>
          min (unat (dev_max_concurrent_ops (ws_device s))) (unat (dev_max_pool_size (ws_device s))))"
  using worker_reach_inv [OF assms] by (auto simp: worker_inv_def pool_ok_def word_le_nat_alt)

theorem worker_state_invariant_witness:
  "let s = snd (try_acquire_operation_atomic (worker_state_new (sample_device ''plc'' [])
              :: unit worker_state)) in
   unat (oq_in_flight (ws_operation_queue s)) \<le> unat (dev_max_concurrent_ops (ws_device s)) \<and>
     (ws_connection_state s = Connected \<longleftrightarrow> ws_connection_pool s \<noteq> None) \<and>
     (\<forall>p. ws_connection_pool s = Some p \<longrightarrow>
        cp_endpoint p = device_endpoint (ws_device s) \<and>
        length (cp_available p) \<le>
          min (unat (dev_max_concurrent_ops (ws_device s))) (unat (dev_max_pool_size (ws_device s))))"
proof -
  have "worker_reach sample_api flaky_io (sample_device ''plc'' [])
      (snd (try_acquire_operation_atomic (worker_state_new (sample_device ''plc'' []))))"
    by (rule worker_reach.acquire [OF worker_reach.new prod.collapse [symmetric]])
  from worker_state_invariant [OF this] show ?thesis by (simp add: Let_def)
qed

text \<open>A worker that calls \<open>ensure_connected\<close> once in each of the given worlds.\<close>

fun attempts ::
  "('w, 'c, 'm) modbus_io \<Rightarrow> 'w list \<Rightarrow> 'c worker_state \<Rightarrow> bool list \<times> device_event list \<times> 'c worker_state"
where
  "attempts io [] s = ([], [], s)"
| "attempts io (w # ws) s =
     (let (ok, s1, ev, _) = ensure_connected io s w; (oks, evs, s2) = attempts io ws s1
      in (ok # oks, ev @ evs, s2))"

text \<open>Every attempt after the pool exists succeeds without an event.\<close>

lemma attempts_pooled:
  assumes "ws_connection_pool s = Some p" and "ws_connection_state s = Connected"
    and "timeout (ws_timeout_handler s) = th_base (ws_timeout_handler s)"
    and "attempts io ws s = (oks, evs, s')"
  shows "oks = replicate (length ws) True \<and> evs = [] \<and>
     timeout (ws_timeout_handler s') = th_base (ws_timeout_handler s)"
  using assms
proof (induction ws arbitrary: s oks evs)
  case (Cons w ws)
  let ?s1 = "s\<lparr>ws_connection_state := Connected, ws_timeout_handler := on_success (ws_timeout_handler s),
              ws_backoff := backoff_reset (ws_backoff s)\<rparr>"
  have e: "ensure_connected io s w = (True, ?s1, [], w)"
    using Cons.prems(1,2)
    by (simp add: ensure_connected_pooled update_connection_state_def update_connection_state_with_def)
  with Cons.prems(4) obtain oks1 where a: "attempts io ws ?s1 = (oks1, evs, s')" "oks = True # oks1"
    by (auto split: prod.splits)
  show ?case
    using Cons.IH [OF _ _ _ a(1)] Cons.prems(1) a(2) by (simp add: timeout_def on_success_def)
qed simp

lemma attempts_from:
  assumes "ws_connection_pool s = None" and "ws_connection_state s = Disconnected"
    and "ws_timeout_handler s = (on_timeout ^^ m) timeout_handler_new"
    and "attempts io ws s = (oks, evs, s')"
  shows "\<exists>n k. oks = replicate n False @ replicate k True \<and>
     map de_event_type evs = concat (replicate n [EvReconnecting, EvDisconnected]) @
       (if k = 0 then [] else [EvReconnecting, EvConnected]) \<and>
     timeout (ws_timeout_handler s') = (if k = 0 then min (1000 * 2 ^ (m + n)) 30000 else 1000)"
  using assms
proof (induction ws arbitrary: s oks evs m)
  case Nil
  then show ?case by (intro exI [of _ 0]) (simp add: timeouts_in_a_row timeout_def)
next
  case (Cons w ws)
  obtain ok s1 ev w1 where e: "ensure_connected io s w = (ok, s1, ev, w1)"
    by (cases "ensure_connected io s w")
  note u = ensure_connected_unpooled [OF Cons.prems(1,2) e]
  obtain oks1 evs1 where a: "attempts io ws s1 = (oks1, evs1, s')" "oks = ok # oks1" "evs = ev @ evs1"
    using Cons.prems(4) e by (auto split: prod.splits)
  show ?case
  proof (cases ok)
    case True
    have t: "timeout (ws_timeout_handler s1) = th_base (ws_timeout_handler s1)"
      "th_base (ws_timeout_handler s1) = 1000"
      using u(7) True Cons.prems(3) by (simp_all add: timeout_def on_success_def timeouts_in_a_row)
    obtain p where "ws_connection_pool s1 = Some p" using u(1) True by auto
    from attempts_pooled [OF this _ t(1) a(1)] u(2) True
    have "oks1 = replicate (length ws) True" "evs1 = []" "timeout (ws_timeout_handler s') = 1000"
      using t(2) by simp_all
    with a u(6) True show ?thesis by (intro exI [of _ 0] exI [of _ "Suc (length ws)"]) simp
  next
    case False
    have "ws_timeout_handler s1 = (on_timeout ^^ Suc m) timeout_handler_new"
      using u(7) False Cons.prems(3) by simp
    from Cons.IH [OF _ _ this a(1)] u(1,2) False obtain n k where
      "oks1 = replicate n False @ replicate k True"
      "map de_event_type evs1 = concat (replicate n [EvReconnecting, EvDisconnected]) @
         (if k = 0 then [] else [EvReconnecting, EvConnected])"
      "timeout (ws_timeout_handler s') = (if k = 0 then min (1000 * 2 ^ (Suc m + n)) 30000 else 1000)"
      by auto
    with a u(6) False show ?thesis by (intro exI [of _ "Suc n"] exI [of _ k]) simp
  qed
qed

text \<open>Whatever the device does, the attempts of a new worker to connect fail some number of times,
  each with the events \<open>Reconnecting\<close> and \<open>Disconnected\<close>, and once one succeeds, with
  \<open>Reconnecting\<close> and \<open>Connected\<close>, all later ones succeed without an event; the connect timeout
  doubles from 1000 ms with each failure up to 30000 ms and is 1000 ms after a success.\<close>

theorem connection_life_cycle:
  assumes "attempts io ws (worker_state_new d) = (oks, evs, s')"
  shows "\<exists>n k. oks = replicate n False @ replicate k True \<and>
     map de_event_type evs = concat (replicate n [EvReconnecting, EvDisconnected]) @
       (if k = 0 then [] else [EvReconnecting, EvConnected]) \<and>
     timeout (ws_timeout_handler s') = (if k = 0 then min (1000 * 2 ^ n) 30000 else 1000)"
proof -
  have "ws_connection_pool (worker_state_new d) = None" "ws_connection_state (worker_state_new d) = Disconnected"
    "ws_timeout_handler (worker_state_new d) = (on_timeout ^^ 0) timeout_handler_new"
    by (simp_all add: worker_state_new_def)
  from attempts_from [OF this assms] show ?thesis by (simp only: add_0)
qed

theorem connection_life_cycle_witness:
  "\<exists>oks evs s'. attempts flaky_io [0, 1, 2] (worker_state_new (sample_device ''plc'' [])) = (oks, evs, s') \<and>
     (\<exists>n k. oks = replicate n False @ replicate k True \<and>
       map de_event_type evs = concat (replicate n [EvReconnecting, EvDisconnected]) @
         (if k = 0 then [] else [EvReconnecting, EvConnected]) \<and>
       timeout (ws_timeout_handler s') = (if k = 0 then min (1000 * 2 ^ n) 30000 else 1000))"
proof -
  obtain oks evs s' where
    a: "attempts flaky_io [0, 1, 2] (worker_state_new (sample_device ''plc'' [])) = (oks, evs, s')"
    by (cases "attempts flaky_io [0, 1, 2] (worker_state_new (sample_device ''plc'' []))")
  from a connection_life_cycle [OF a] show ?thesis by blast
qed

text \<open>Once the pool exists \<open>ensure_connected\<close> reports a connection without any exchange with the
  device: the world is unchanged, whatever state the device is in.\<close>

theorem pooled_worker_is_always_connected:
  assumes "worker_reach api io d s" and "ws_connection_state s = Connected"
  shows "\<exists>s'. ensure_connected io s w = (True, s', [], w) \<and> ws_connection_state s' = Connected"
proof -
  from worker_reach_inv [OF assms(1)] assms(2) obtain p where "ws_connection_pool s = Some p"
    by (auto simp: worker_inv_def)
  with assms(2) show ?thesis
    by (simp add: ensure_connected_pooled update_connection_state_def update_connection_state_with_def)
qed

theorem pooled_worker_is_always_connected_witness:
  "let s = fst (snd (ensure_connected flaky_io (worker_state_new (sample_device ''plc'' [])) 0)) in
   \<exists>s'. ensure_connected flaky_io s 7 = (True, s', [], 7) \<and> ws_connection_state s' = Connected"
proof -
  let ?s0 = "worker_state_new (sample_device ''plc'' []) :: unit worker_state"
  let ?s = "fst (snd (ensure_connected flaky_io ?s0 0))"
  have "worker_reach sample_api flaky_io (sample_device ''plc'' []) ?s"
    using worker_reach.ensure [OF worker_reach.new, of flaky_io "sample_device ''plc'' []" 0]
    by (metis prod.collapse)
  moreover have "ws_connection_state ?s = Connected"
    by (simp add: ensure_connected_def worker_state_new_def update_connection_state_def
        update_connection_state_with_def connect_pool_def open_connection_def flaky_io_def
        mark_connected_def Let_def)
  ultimately show ?thesis unfolding Let_def by (rule pooled_worker_is_always_connected)
qed

end
