(* ===== verification/Modbus_Handler.thy ===== *)
theory Modbus_Handler
  imports Modbus_State Parsing
begin

text \<open>
  \<open>src/workers/modbus/handler.rs\<close>: how a Modbus worker serves a request.  \<open>handle_device_control\<close> is
  the synchronous part: it either answers at once or spawns a task, which \<open>run_task\<close> executes later
  on the shared pool and queue.  Encoding the members of a write may panic before the task exists,
  so the synchronous part returns an outcome; a panic of the task body is caught and answered, and
  the guard releases the capacity on both paths.

  An answer goes to the channel of the request, or to the hub when it has none.
\<close>

section \<open>Requests and answers\<close>

record ('n, 'ch) request =
  rq_device_id :: string
  rq_operation :: operation
  rq_params :: "'n json"
  rq_correlation_id :: u64
  rq_respond_to :: "'ch option"

datatype ('n, 'ch) sent = ToSender 'ch "'n device_response_data" | ToHub "('n, 'ch) message"

definition send_response ::
  "('n, 'ch) request \<Rightarrow> bool \<Rightarrow> 'n json \<Rightarrow> string option \<Rightarrow> ('n, 'ch) sent" where
  "send_response rq success data err =
     (case rq_respond_to rq of
        Some ch \<Rightarrow> ToSender ch (success, data, err)
      | None \<Rightarrow> ToHub (DeviceResponse (rq_device_id rq) success data err (rq_correlation_id rq)))"

section \<open>From an operation to a Modbus operation\<close>

definition resolve_signal_group :: "'c worker_state \<Rightarrow> string \<Rightarrow> signal_group option" where
  "resolve_signal_group s name = find (\<lambda>g. sg_name g = name) (dev_signal_groups (ws_device s))"

definition validate_writable :: "register_type \<Rightarrow> string + unit" where
  "validate_writable t =
     (if t = Discrete \<or> t = Input then Inl ''Cannot write to read-only register type'' else Inr ())"

definition group_name_param :: "'n json \<Rightarrow> string option" where
  "group_name_param params = Option.bind (json_get params ''group_name'') as_str"

definition data_param :: "'n json \<Rightarrow> (string \<times> 'n json) list option" where
  "data_param params = Option.bind (json_get params ''data'') as_object"

definition values_param :: "'n json \<Rightarrow> 'n json list option" where
  "values_param params = Option.bind (json_get params ''values'') as_array"

definition read_op :: "signal_group \<Rightarrow> modbus_op option" where
  "read_op g =
     (case parse_register_address (sg_register_address g) of
        None \<Rightarrow> None
      | Some (reg_type, addr) \<Rightarrow>
          (case reg_type of
             Coil \<Rightarrow> Some (ReadCoil addr (sg_register_count g))
           | Discrete \<Rightarrow> Some (ReadDiscrete addr (sg_register_count g))
           | Input \<Rightarrow> Some (ReadInput addr (sg_register_count g))
           | Holding \<Rightarrow> Some (ReadHolding addr (sg_register_count g))))"

text \<open>The registers to write: the encoded members of \<open>data\<close>, else the integers of \<open>values\<close>,
  truncated by \<open>as u16\<close>.\<close>

definition write_holding_values ::
  "'n number_api \<Rightarrow> byte_order \<Rightarrow> signal_group \<Rightarrow> 'n json \<Rightarrow> u16 list option outcome" where
  "write_holding_values api ord g params =
     (case data_param params of
        Some fields_data \<Rightarrow>
          encode_fields_to_registers api fields_data (sg_fields g) (sg_register_count g) ord
      | None \<Rightarrow>
          Ret (map_option (List.map_filter (\<lambda>v. map_option ucast (as_u64 api v))) (values_param params)))"

definition write_coil_values ::
  "'n number_api \<Rightarrow> byte_order \<Rightarrow> signal_group \<Rightarrow> 'n json \<Rightarrow> bool list option outcome" where
  "write_coil_values api ord g params =
     (case data_param params of
        Some fields_data \<Rightarrow>
          map_outcome (map_option (map (\<lambda>v. v \<noteq> 0)))
            (encode_fields_to_registers api fields_data (sg_fields g) (sg_register_count g) ord)
      | None \<Rightarrow>
          Ret (map_option (List.map_filter (\<lambda>v. map_option (\<lambda>n. n \<noteq> 0) (as_u64 api v)))
                 (values_param params)))"

definition write_op ::
  "'n number_api \<Rightarrow> byte_order \<Rightarrow> signal_group \<Rightarrow> 'n json \<Rightarrow> modbus_op option outcome" where
  "write_op api ord g params =
     (case parse_register_address (sg_register_address g) of
        None \<Rightarrow> Ret None
      | Some (reg_type, addr) \<Rightarrow>
          (case validate_writable reg_type of
             Inl _ \<Rightarrow> Ret None
           | Inr _ \<Rightarrow>
               (case reg_type of
                  Coil \<Rightarrow>
                    map_outcome (map_option (\<lambda>vs. if length vs = 1
                        then WriteSingleCoil addr (vs ! 0) else WriteMultipleCoils addr vs))
                      (write_coil_values api ord g params)
                | Holding \<Rightarrow>
                    map_outcome (map_option (WriteMultiple addr)) (write_holding_values api ord g params)
                | _ \<Rightarrow> Ret None)))"

definition operation_to_modbus_op ::
  "'n number_api \<Rightarrow> 'c worker_state \<Rightarrow> operation \<Rightarrow> 'n json \<Rightarrow> modbus_op option outcome" where
  "operation_to_modbus_op api s operation params =
     (case operation of
        ReadSignalGroup \<Rightarrow>
          Ret (Option.bind (Option.bind (group_name_param params) (resolve_signal_group s)) read_op)
      | WriteSignalGroup \<Rightarrow>
          (case Option.bind (group_name_param params) (resolve_signal_group s) of
             None \<Rightarrow> Ret None
           | Some g \<Rightarrow> write_op api (dev_byte_order (ws_device s)) g params)
      | GetStatus \<Rightarrow> Ret None)"

definition validate_field_completeness ::
  "(string \<times> 'n json) list \<Rightarrow> field_mapping list \<Rightarrow> string list + unit" where
  "validate_field_completeness provided required =
     (let missing = map fm_name (filter (\<lambda>f. fm_name f \<notin> fst ` set provided) required)
      in if missing = [] then Inr () else Inl missing)"

section \<open>The synchronous part\<close>

record ('n, 'ch) task =
  tk_request :: "('n, 'ch) request"
  tk_modbus_op :: "modbus_op option"
  tk_group_name :: string
  tk_group_data :: "(field_mapping list \<times> byte_order) option"

fun join_strings :: "string \<Rightarrow> string list \<Rightarrow> string" where
  "join_strings sep [] = []"
| "join_strings sep [s] = s"
| "join_strings sep (s # t # ss) = s @ sep @ join_strings sep (t # ss)"

definition status_json :: "'n number_api \<Rightarrow> 'c worker_state \<Rightarrow> 'n json" where
  "status_json api s = json_object
     [(''device_id'', JStr (dev_id (ws_device s))),
      (''connected'', JBool (ws_connection_state s = Connected)),
      (''connection_state'', JStr (connection_state_debug (ws_connection_state s))),
      (''last_communication_ms'', json_u64 api (word_of_nat (length (dev_signal_groups (ws_device s)))))]"

text \<open>The missing fields that reject a write.\<close>

definition incomplete_write :: "'c worker_state \<Rightarrow> operation \<Rightarrow> 'n json \<Rightarrow> string \<Rightarrow> string list option" where
  "incomplete_write s operation params group_name =
     (if operation = WriteSignalGroup
      then case data_param params of
             None \<Rightarrow> None
           | Some fields_data \<Rightarrow>
               (case resolve_signal_group s group_name of
                  None \<Rightarrow> None
                | Some g \<Rightarrow>
                    (case validate_field_completeness fields_data (sg_fields g) of
                       Inl missing \<Rightarrow> Some missing
                     | Inr _ \<Rightarrow> None))
      else None)"

record ('n, 'ch, 'c, 'w) handled =
  h_state :: "'c worker_state"
  h_events :: "device_event list"
  h_sent :: "('n, 'ch) sent list"
  h_task :: "('n, 'ch) task option"
  h_world :: 'w

definition handle_device_control ::
  "'n number_api \<Rightarrow> ('w, 'c, 'm) modbus_io \<Rightarrow> ('n, 'ch) request \<Rightarrow> 'c worker_state \<Rightarrow> 'w
     \<Rightarrow> ('n, 'ch, 'c, 'w) handled outcome" where
  "handle_device_control api io rq s w =
     (let (connected, s1, ev, w1) = ensure_connected io s w;
          answer = (\<lambda>s' success data err.
            Ret \<lparr>h_state = s', h_events = ev, h_sent = [send_response rq success data err],
                 h_task = None, h_world = w1\<rparr>)
      in if \<not> connected then answer s1 False JNull (Some ''Device not connected'')
         else if rq_operation rq = GetStatus then answer s1 True (status_json api s1) None
         else let (acquired, s2) = try_acquire_operation_atomic s1 in
           if \<not> acquired then answer s2 False JNull (Some ''Too many concurrent operations'')
           else case get_pool s2 of
                  None \<Rightarrow> answer (complete_operation s2) False JNull
                            (Some ''Connection pool not available'')
                | Some pool \<Rightarrow>
                    bind_outcome (operation_to_modbus_op api s2 (rq_operation rq) (rq_params rq))
                      (\<lambda>modbus_op.
                         let group_name = (case group_name_param (rq_params rq) of None \<Rightarrow> [] | Some n \<Rightarrow> n) in
                         case incomplete_write s2 (rq_operation rq) (rq_params rq) group_name of
                           Some missing \<Rightarrow>
                             answer (complete_operation s2) False JNull
                               (Some (''Incomplete signal group: missing fields ['' @ join_strings '', '' missing
                                      @ '']. All fields must be provided.''))
                         | None \<Rightarrow>
                             let group_data = map_option (\<lambda>g. (sg_fields g, dev_byte_order (ws_device s2)))
                                                (resolve_signal_group s2 group_name)
                             in Ret \<lparr>h_state = s2, h_events = ev, h_sent = [],
                                     h_task = Some \<lparr>tk_request = rq, tk_modbus_op = modbus_op,
                                                    tk_group_name = group_name, tk_group_data = group_data\<rparr>,
                                     h_world = w1\<rparr>))"

section \<open>The task\<close>

fun data_type_json :: "data_type \<Rightarrow> 'n json" where
  "data_type_json U16 = JStr ''u16''"
| "data_type_json U32 = JStr ''u32''"
| "data_type_json I16 = JStr ''i16''"
| "data_type_json I32 = JStr ''i32''"
| "data_type_json TF32 = JStr ''f32''"
| "data_type_json TF64 = JStr ''f64''"
| "data_type_json TBool = JStr ''bool''"

definition parsed_field_json :: "'n number_api \<Rightarrow> parsed_field \<Rightarrow> 'n json" where
  "parsed_field_json api f = json_object
     [(''name'', JStr (pf_name f)), (''value'', json_f64 api (pf_value f)),
      (''data_type'', data_type_json (pf_data_type f))]"

text \<open>The registers of a read: the unsigned integers among the values of the result.\<close>

definition result_registers :: "'n number_api \<Rightarrow> 'n json list \<Rightarrow> u16 list" where
  "result_registers api vs = List.map_filter (\<lambda>v. map_option ucast (as_u64 api v)) vs"

definition response_data ::
  "'n number_api \<Rightarrow> string \<Rightarrow> (field_mapping list \<times> byte_order) option \<Rightarrow> 'n operation_result \<Rightarrow> 'n json"
where
  "response_data api group_name group_data r =
     (let plain = json_object [(''group_name'', JStr group_name), (''result'', or_data r)] in
      case group_data of
        None \<Rightarrow> plain
      | Some (fms, ord) \<Rightarrow>
          if or_success r
          then case values_param (or_data r) of
                 Some vs \<Rightarrow>
                   json_object
                     [(''group_name'', JStr group_name),
                      (''result'', json_object
                         [(''fields'', JArr (map (parsed_field_json api)
                             (parse_signal_group_fields (result_registers api vs) fms ord))),
                          (''latency_us'', (case json_get (or_data r) ''latency_us'' of
                                              None \<Rightarrow> JNull | Some l \<Rightarrow> l))])]
               | None \<Rightarrow> plain
          else plain)"

text \<open>
  The body of the task in \<open>catch_unwind\<close>.  \<open>crash\<close> says that the third-party code below it panics,
  before the connection goes back to the pool: the pool keeps only what the acquisition did.
\<close>

definition task_body ::
  "'n number_api \<Rightarrow> ('w, 'c, 'm) modbus_io \<Rightarrow> bool \<Rightarrow> ('n, 'ch) task \<Rightarrow> 'c connection_pool \<Rightarrow> 'w
     \<Rightarrow> ('n device_response_data + 'n device_response_data) outcome \<times> 'c connection_pool \<times> 'w" where
  "task_body api io crash t pool w =
     (case tk_modbus_op t of
        None \<Rightarrow>
          (Ret (Inl (False, JNull, Some (''Invalid signal group: '' @ tk_group_name t))), pool, w)
      | Some op \<Rightarrow>
          if crash then (let (_, pool1, w1) = acquire_connection io pool w in (Panic, pool1, w1))
          else let (r, pool1, w1) = pool_execute_operation api io pool op w in
            (Ret (Inr (or_success r, response_data api (tk_group_name t) (tk_group_data t) r, or_error r)),
             pool1, w1))"

definition run_task ::
  "'n number_api \<Rightarrow> ('w, 'c, 'm) modbus_io \<Rightarrow> bool \<Rightarrow> ('n, 'ch) task \<Rightarrow> 'c worker_state \<Rightarrow> 'w
     \<Rightarrow> ('n, 'ch) sent list \<times> 'c worker_state \<times> 'w" where
  "run_task api io crash t s w =
     (let guard = operation_guard_new complete_operation in
      case ws_connection_pool s of
        None \<Rightarrow> ([], snd (guard_drop guard s), w)
      | Some pool \<Rightarrow>
          let (result, pool1, w1) = task_body api io crash t pool w;
              s1 = s\<lparr>ws_connection_pool := Some pool1\<rparr>;
              reply = (case result of
                 Ret (Inr (success, data, err)) \<Rightarrow> send_response (tk_request t) success data err
               | Ret (Inl (success, data, err)) \<Rightarrow> send_response (tk_request t) success data err
               | Panic \<Rightarrow> send_response (tk_request t) False JNull (Some ''Internal server error''))
          in ([reply], snd (guard_drop guard s1), w1))"

section \<open>Lemmas\<close>

abbreviation in_flight :: "'c worker_state \<Rightarrow> nat" where
  "in_flight s \<equiv> unat (oq_in_flight (ws_operation_queue s))"

text \<open>The names under which the proofs meet the capacity contract of the state.\<close>

lemmas capacity_facts =
  worker_capacity.acquire_used worker_capacity.acquire_iff worker_capacity.release_used

lemma acquire_frame:
  "try_acquire_operation_atomic s = (g, s') \<Longrightarrow>
     ws_device s' = ws_device s \<and> ws_connection_pool s' = ws_connection_pool s \<and>
     ws_connection_state s' = ws_connection_state s"
  by (auto simp: try_acquire_operation_atomic_def split: prod.splits)

lemma complete_frame:
  "ws_device (complete_operation s) = ws_device s \<and>
   ws_connection_pool (complete_operation s) = ws_connection_pool s"
  by (simp add: complete_operation_def)

lemma ensure_connected_frame:
  assumes "worker_inv s" and "ensure_connected io s w = (ok, s', ev, w')"
  shows "ws_device s' = ws_device s \<and> ws_operation_queue s' = ws_operation_queue s"
proof (cases "ws_connection_pool s")
  case None
  with assms(1) have "ws_connection_state s = Disconnected"
    by (cases "ws_connection_state s") (auto simp: worker_inv_def)
  from ensure_connected_unpooled(3,4) [OF None this assms(2)] show ?thesis by simp
next
  case (Some p)
  with assms(2) show ?thesis by (auto simp: ensure_connected_pooled)
qed

text \<open>The synchronous part either answers once and keeps the number in flight, or spawns a task that
  holds one unit of capacity.\<close>

definition answered :: "('n, 'ch, 'c, 'w) handled \<Rightarrow> 'c worker_state \<Rightarrow> bool" where
  "answered h s \<longleftrightarrow> length (h_sent h) = 1 \<and> h_task h = None \<and> in_flight (h_state h) = in_flight s"

definition spawned :: "('n, 'ch, 'c, 'w) handled \<Rightarrow> ('n, 'ch) request \<Rightarrow> 'c worker_state \<Rightarrow> bool" where
  "spawned h rq s \<longleftrightarrow>
     h_sent h = [] \<and> (\<exists>t. h_task h = Some t \<and> tk_request t = rq) \<and>
     ws_connection_pool (h_state h) \<noteq> None \<and> in_flight (h_state h) = Suc (in_flight s)"

lemma handle_shape:
  assumes inv: "worker_inv s" and h: "handle_device_control api io rq s w = Ret h"
  shows "(answered h s \<or> spawned h rq s) \<and> worker_inv (h_state h)"
proof -
  obtain ok s1 ev w1 where e: "ensure_connected io s w = (ok, s1, ev, w1)"
    by (cases "ensure_connected io s w")
  note i1 = worker_inv_ensure_connected [OF inv e] and f1 = ensure_connected_frame [OF inv e]
  obtain g s2 where a: "try_acquire_operation_atomic s1 = (g, s2)"
    by (cases "try_acquire_operation_atomic s1")
  have i2: "worker_inv s2" using worker_inv_capacity(1) [of s1] i1 a by simp
  have u: "in_flight s2 = in_flight s + (if g then 1 else 0)"
    using capacity_facts(1) [of s1] a f1 by simp
  have c: "worker_inv (complete_operation s2)" "in_flight (complete_operation s2) = in_flight s2 - 1"
    using worker_inv_capacity(2) [OF i2] capacity_facts(3) [of s2] by simp_all
  show ?thesis
  proof (cases "ok \<and> rq_operation rq \<noteq> GetStatus \<and> g")
    case False
    with h e a i1 i2 f1 u show ?thesis
      by (auto simp: handle_device_control_def answered_def split: if_splits)
  next
    case True
    with i1 a acquire_frame [OF a] obtain p where p: "ws_connection_pool s2 = Some p" by auto
    define name where "name = (case group_name_param (rq_params rq) of None \<Rightarrow> [] | Some n \<Rightarrow> n)"
    show ?thesis
    proof (cases "incomplete_write s2 (rq_operation rq) (rq_params rq) name")
      case None
      with h e a True p i2 u show ?thesis
        by (auto simp: handle_device_control_def get_pool_def spawned_def Let_def simp flip: name_def)
    next
      case (Some missing)
      with h e a True p c u show ?thesis
        by (auto simp: handle_device_control_def get_pool_def answered_def Let_def simp flip: name_def)
    qed
  qed
qed

lemma task_body_same_pool:
  "task_body api io crash t pool w = (r, pool', w') \<Longrightarrow> same_pool pool pool'"
proof (cases "tk_modbus_op t")
  case (Some op)
  assume b: "task_body api io crash t pool w = (r, pool', w')"
  show ?thesis
  proof (cases crash)
    case True
    obtain c p1 w1 where "acquire_connection io pool w = (c, p1, w1)" by (cases "acquire_connection io pool w")
    with b Some True same_pool_acquire [OF this] show ?thesis by (simp add: task_body_def)
  next
    case False
    obtain x p1 w1 where "pool_execute_operation api io pool op w = (x, p1, w1)"
      by (cases "pool_execute_operation api io pool op w")
    with b Some False same_pool_execute [OF this] show ?thesis by (simp add: task_body_def)
  qed
qed (simp add: task_body_def same_pool_def)

lemma run_task_shape:
  assumes inv: "worker_inv s" and p: "ws_connection_pool s \<noteq> None"
    and r: "run_task api io crash t s w = (sent, s', w')"
  shows "length sent = 1 \<and> in_flight s' = in_flight s - 1 \<and> worker_inv s' \<and>
     ws_connection_pool s' \<noteq> None \<and> ws_device s' = ws_device s"
proof -
  from p obtain pool where pool: "ws_connection_pool s = Some pool" by auto
  obtain res pool1 w1 where b: "task_body api io crash t pool w = (res, pool1, w1)"
    by (cases "task_body api io crash t pool w")
  let ?s1 = "s\<lparr>ws_connection_pool := Some pool1\<rparr>"
  have i: "worker_inv ?s1" using inv pool task_body_same_pool [OF b] by (rule worker_inv_pool)
  have s': "s' = complete_operation ?s1" "length sent = 1"
    using r pool b by (auto simp: run_task_def operation_guard_new_def guard_drop_def Let_def)
  show ?thesis
    using s' worker_inv_capacity(2) [OF i] capacity_facts(3) [of ?s1] complete_frame [of ?s1] by simp
qed

lemma validate_field_completeness_iff:
  "validate_field_completeness provided required = Inr () \<longleftrightarrow> fm_name ` set required \<subseteq> fst ` set provided"
  "validate_field_completeness provided required = Inl missing \<longleftrightarrow>
     missing \<noteq> [] \<and> missing = map fm_name (filter (\<lambda>f. fm_name f \<notin> fst ` set provided) required)"
  by (auto simp: validate_field_completeness_def Let_def filter_empty_conv)

text \<open>What a Modbus operation touches, and whether it writes.\<close>

fun op_target :: "modbus_op \<Rightarrow> register_type \<times> u16" where
  "op_target (ReadCoil a n) = (Coil, a)"
| "op_target (ReadDiscrete a n) = (Discrete, a)"
| "op_target (ReadInput a n) = (Input, a)"
| "op_target (ReadHolding a n) = (Holding, a)"
| "op_target (WriteSingle a v) = (Holding, a)"
| "op_target (WriteMultiple a vs) = (Holding, a)"
| "op_target (WriteSingleCoil a v) = (Coil, a)"
| "op_target (WriteMultipleCoils a vs) = (Coil, a)"

fun op_writes :: "modbus_op \<Rightarrow> bool" where
  "op_writes (ReadCoil a n) = False"
| "op_writes (ReadDiscrete a n) = False"
| "op_writes (ReadInput a n) = False"
| "op_writes (ReadHolding a n) = False"
| "op_writes _ = True"

fun op_count :: "modbus_op \<Rightarrow> nat" where
  "op_count (ReadCoil a n) = unat n"
| "op_count (ReadDiscrete a n) = unat n"
| "op_count (ReadInput a n) = unat n"
| "op_count (ReadHolding a n) = unat n"
| "op_count (WriteSingle a v) = 1"
| "op_count (WriteMultiple a vs) = length vs"
| "op_count (WriteSingleCoil a v) = 1"
| "op_count (WriteMultipleCoils a vs) = length vs"

lemma read_op_target:
  assumes "read_op g = Some m"
  shows "\<exists>t a. parse_register_address (sg_register_address g) = Some (t, a) \<and> op_target m = (t, a) \<and>
     \<not> op_writes m \<and> op_count m = unat (sg_register_count g)"
  using assms by (auto simp: read_op_def split: option.splits register_type.splits)

lemma encode_length:
  "encode_fields_to_registers api data fms cnt ord = Ret (Some regs) \<Longrightarrow> length regs = unat cnt"
  unfolding encode_fields_to_registers_def by (drule encode_loop_length) simp

text \<open>How many of the \<open>values\<close> of a write are unsigned integers: as many registers are written.\<close>

definition raw_count :: "'n number_api \<Rightarrow> 'n json \<Rightarrow> nat" where
  "raw_count api params =
     (case values_param params of
        None \<Rightarrow> 0
      | Some vs \<Rightarrow> length (filter (\<lambda>v. as_u64 api v \<noteq> None) vs))"

lemma length_map_filter: "length (List.map_filter f xs) = length (filter (\<lambda>x. f x \<noteq> None) xs)"
  by (induction xs) (auto simp: List.map_filter_simps split: option.split)

lemma write_op_target:
  assumes "write_op api ord g params = Ret (Some m)"
  shows "\<exists>t a. parse_register_address (sg_register_address g) = Some (t, a) \<and> is_writable t \<and>
     op_target m = (t, a) \<and> op_writes m \<and>
     (if data_param params = None then op_count m = raw_count api params
      else op_count m = unat (sg_register_count g))"
proof -
  from assms obtain t a where p: "parse_register_address (sg_register_address g) = Some (t, a)"
    by (auto simp: write_op_def split: option.splits)
  show ?thesis
  proof (cases t)
    case Coil
    with assms p obtain vs where vs: "write_coil_values api ord g params = Ret (Some vs)"
      "m = (if length vs = 1 then WriteSingleCoil a (vs ! 0) else WriteMultipleCoils a vs)"
      by (auto simp: write_op_def validate_writable_def map_outcome_eq_Ret)
    moreover have "length vs = raw_count api params" if "data_param params = None"
      using that vs(1) by (auto simp: write_coil_values_def raw_count_def length_map_filter)
    moreover have "length vs = unat (sg_register_count g)" if "data_param params \<noteq> None"
    proof -
      from that vs(1) obtain data regs where
        "encode_fields_to_registers api data (sg_fields g) (sg_register_count g) ord = Ret (Some regs)"
        "vs = map (\<lambda>v. v \<noteq> 0) regs"
        by (auto simp: write_coil_values_def map_outcome_eq_Ret)
      with encode_length show ?thesis by fastforce
    qed
    ultimately show ?thesis using p Coil by (auto simp: is_writable_def)
  next
    case Holding
    with assms p obtain vs where vs: "write_holding_values api ord g params = Ret (Some vs)" "m = WriteMultiple a vs"
      by (auto simp: write_op_def validate_writable_def map_outcome_eq_Ret)
    moreover have "length vs = raw_count api params" if "data_param params = None"
      using that vs(1) by (auto simp: write_holding_values_def raw_count_def length_map_filter)
    moreover have "length vs = unat (sg_register_count g)" if "data_param params \<noteq> None"
      using that vs(1) by (auto simp: write_holding_values_def dest: encode_length)
    ultimately show ?thesis using p Holding by (auto simp: is_writable_def)
  qed (use assms p in \<open>auto simp: write_op_def validate_writable_def\<close>)
qed

lemma write_op_Panic:
  assumes "write_op api ord g params = Panic"
  shows "\<exists>data. data_param params = Some data \<and>
     encode_fields_to_registers api data (sg_fields g) (sg_register_count g) ord = Panic"
  using assms
  by (auto simp: write_op_def write_coil_values_def write_holding_values_def
      split: option.splits sum.splits register_type.splits)

lemma operation_to_modbus_op_Panic:
  assumes "operation_to_modbus_op api s operation params = Panic"
  shows "\<exists>g \<in> set (dev_signal_groups (ws_device s)). \<exists>data.
     encode_fields_to_registers api data (sg_fields g) (sg_register_count g) (dev_byte_order (ws_device s)) = Panic"
  using assms
  by (auto simp: operation_to_modbus_op_def resolve_signal_group_def find_Some_iff
      split: operation.splits option.splits bind_splits dest!: write_op_Panic)

lemma encode_Panic_field:
  assumes "encode_fields_to_registers api data fms cnt ord = Panic"
  shows "cnt = 65535 \<and> (\<exists>f \<in> set fms. 65535 < unat (fm_offset f) + field_registers (fm_data_type f))"
proof -
  from encode_loop_Panic [OF assms [unfolded encode_fields_to_registers_def]]
  obtain n f where f: "field_map fms n = Some f" "\<not> in_buffer (unat cnt) f"
    "\<not> cnt < saturating_add (fm_offset f) (required_registers (fm_data_type f))"
    by auto
  from f(1) have "f \<in> set fms"
    by (auto simp: field_map_def hash_collect_lookup dest!: map_of_SomeD)
  with not_in_buffer_saturates [OF f(2,3)] show ?thesis by auto
qed

section \<open>Properties\<close>

text \<open>C19: The Modbus operation of a request is for the signal group it names: it addresses the group's
  register type and address, it writes exactly for a \<open>WriteSignalGroup\<close> request and then only coils or
  holding registers; a read or a write from \<open>data\<close> covers exactly the group's registers, and a write from
  the raw \<open>values\<close> as many as it has unsigned integers, whether or not they are within the group.\<close>

theorem modbus_op_stays_in_group:
  assumes "operation_to_modbus_op api s operation params = Ret (Some m)"
  shows "\<exists>name g t a. group_name_param params = Some name \<and> resolve_signal_group s name = Some g \<and>
     parse_register_address (sg_register_address g) = Some (t, a) \<and> op_target m = (t, a) \<and>
     (op_writes m \<longleftrightarrow> operation = WriteSignalGroup) \<and> (op_writes m \<longrightarrow> is_writable t) \<and>
     op_count m = (if op_writes m \<and> data_param params = None then raw_count api params
                   else unat (sg_register_count g))"
proof (cases operation)
  case ReadSignalGroup
  with assms obtain name g where "group_name_param params = Some name" "resolve_signal_group s name = Some g"
    "read_op g = Some m"
    by (auto simp: operation_to_modbus_op_def Option.bind_eq_Some_conv)
  with read_op_target ReadSignalGroup show ?thesis by fastforce
next
  case WriteSignalGroup
  with assms obtain name g where "group_name_param params = Some name" "resolve_signal_group s name = Some g"
    "write_op api (dev_byte_order (ws_device s)) g params = Ret (Some m)"
    by (auto simp: operation_to_modbus_op_def Option.bind_eq_Some_conv split: option.splits)
  with write_op_target WriteSignalGroup show ?thesis by fastforce
qed (use assms in \<open>simp add: operation_to_modbus_op_def\<close>)

definition sample_worker :: "signal_group list \<Rightarrow> unit worker_state" where
  "sample_worker gs = worker_state_new (sample_device ''plc'' gs)"

definition sample_params :: "sample_number json" where
  "sample_params = JObj [(''data'', JObj []), (''group_name'', JStr ''g'')]"

theorem modbus_op_stays_in_group_witness:
  "\<exists>name g t a. group_name_param sample_params = Some name \<and>
     resolve_signal_group (sample_worker [sample_group ''h7'' 2 []]) name = Some g \<and>
     parse_register_address (sg_register_address g) = Some (t, a) \<and>
     op_target (WriteMultiple 7 [0, 0]) = (t, a) \<and>
     (op_writes (WriteMultiple 7 [0, 0]) \<longleftrightarrow> WriteSignalGroup = WriteSignalGroup) \<and>
     (op_writes (WriteMultiple 7 [0, 0]) \<longrightarrow> is_writable t) \<and>
     op_count (WriteMultiple 7 [0, 0]) =
       (if op_writes (WriteMultiple 7 [0, 0]) \<and> data_param sample_params = None
        then raw_count sample_api sample_params else unat (sg_register_count g))"
proof (rule modbus_op_stays_in_group [of sample_api])
  have "parse_register_address (register_type_prefix Holding # show_nat (unat (7 :: u16))) = Some (Holding, 7)"
    by (rule parse_register_address_print)
  moreover have "char_of (55 :: nat) = CHR ''7''" by (simp add: char_of_eq_iff take_bit_eq_mod)
  ultimately have "parse_register_address ''h7'' = Some (Holding, 7)"
    by (simp add: show_nat.simps digit_char_def)
  moreover have "replicate 2 (0 :: u16) = [0, 0]" by (simp add: numeral_2_eq_2)
  ultimately show "operation_to_modbus_op sample_api (sample_worker [sample_group ''h7'' 2 []]) WriteSignalGroup
      sample_params = Ret (Some (WriteMultiple 7 [0, 0]))"
    by (simp add: sample_params_def operation_to_modbus_op_def group_name_param_def data_param_def resolve_signal_group_def
        sample_worker_def worker_state_new_def sample_device_def sample_group_def write_op_def
        write_holding_values_def validate_writable_def encode_fields_to_registers_def)
qed

text \<open>Serving a request either sends exactly one answer and leaves the number of operations in
  flight as it was, or sends none, takes one unit of capacity and hands a task for that request to
  the runtime; the worker's invariant holds after it.\<close>

theorem request_answered_or_spawned:
  assumes "worker_reach api io d s" and "handle_device_control api io rq s w = Ret h"
  shows "(answered h s \<or> spawned h rq s) \<and> worker_inv (h_state h)"
  using handle_shape [OF worker_reach_inv [OF assms(1)] assms(2)] .

theorem request_answered_or_spawned_witness:
  "\<exists>h. handle_device_control sample_api flaky_io
          \<lparr>rq_device_id = ''plc'', rq_operation = GetStatus, rq_params = JNull, rq_correlation_id = 9,
           rq_respond_to = None :: unit option\<rparr> (sample_worker []) 0 = Ret h \<and>
     (answered h (sample_worker []) \<or> spawned h \<lparr>rq_device_id = ''plc'', rq_operation = GetStatus,
        rq_params = JNull, rq_correlation_id = 9, rq_respond_to = None\<rparr> (sample_worker [])) \<and>
     worker_inv (h_state h)"
proof -
  let ?rq = "\<lparr>rq_device_id = ''plc'', rq_operation = GetStatus, rq_params = JNull, rq_correlation_id = 9,
    rq_respond_to = None :: unit option\<rparr>"
  obtain ok s1 ev w1 where e: "ensure_connected flaky_io (sample_worker []) 0 = (ok, s1, ev, w1)"
    by (cases "ensure_connected flaky_io (sample_worker []) 0")
  obtain h where h: "handle_device_control sample_api flaky_io ?rq (sample_worker []) 0 = Ret h"
    using e by (cases ok) (simp_all add: handle_device_control_def)
  have "worker_reach sample_api flaky_io (sample_device ''plc'' []) (sample_worker [])"
    unfolding sample_worker_def by (rule worker_reach.new)
  from h request_answered_or_spawned [OF this h] show ?thesis by blast
qed

text \<open>The synchronous part panics only when the device has a signal group of 65535 registers with
  a field that would end past 65535; for every other device a request never panics.\<close>

theorem request_panics_only_at_saturation:
  assumes "handle_device_control api io rq s w = Panic" and "worker_inv s"
  shows "\<exists>g \<in> set (dev_signal_groups (ws_device s)). sg_register_count g = 65535 \<and>
     (\<exists>f \<in> set (sg_fields g). 65535 < unat (fm_offset f) + field_registers (fm_data_type f))"
proof -
  obtain ok s1 ev w1 where e: "ensure_connected io s w = (ok, s1, ev, w1)"
    by (cases "ensure_connected io s w")
  obtain g s2 where a: "try_acquire_operation_atomic s1 = (g, s2)"
    by (cases "try_acquire_operation_atomic s1")
  from assms(1) e a have "operation_to_modbus_op api s2 (rq_operation rq) (rq_params rq) = Panic"
    by (auto simp: handle_device_control_def Let_def split: if_splits option.splits)
  moreover have "ws_device s2 = ws_device s"
    using acquire_frame [OF a] ensure_connected_frame [OF assms(2) e] by simp
  ultimately show ?thesis
    using operation_to_modbus_op_Panic [of api s2] encode_Panic_field by metis
qed

definition panic_request :: "(sample_number, unit) request" where
  "panic_request =
     \<lparr>rq_device_id = ''plc'', rq_operation = WriteSignalGroup,
      rq_params = JObj [(''data'', JObj [(''x'', JNum (UInt 1))]), (''group_name'', JStr ''g'')],
      rq_correlation_id = 1, rq_respond_to = None\<rparr>"

lemma sample_ready:
  "\<exists>s1 ev w1 s2. ensure_connected flaky_io (sample_worker gs) 0 = (True, s1, ev, w1) \<and>
     try_acquire_operation_atomic s1 = (True, s2) \<and> ws_connection_pool s2 \<noteq> None \<and>
     ws_device s2 = ws_device (sample_worker gs)"
proof -
  let ?s = "sample_worker gs"
  obtain ok s1 ev w1 where e: "ensure_connected flaky_io ?s 0 = (ok, s1, ev, w1)"
    by (cases "ensure_connected flaky_io ?s 0")
  have i: "worker_inv ?s" by (simp add: sample_worker_def worker_inv_new)
  from e have ok: "ok" "ws_connection_pool s1 \<noteq> None"
    by (auto simp: ensure_connected_def sample_worker_def worker_state_new_def update_connection_state_def
        update_connection_state_with_def connect_pool_def open_connection_def flaky_io_def
        mark_connected_def Let_def)
  note f = ensure_connected_frame [OF i e]
  obtain g s2 where t: "try_acquire_operation_atomic s1 = (g, s2)"
    by (cases "try_acquire_operation_atomic s1")
  have "in_flight s1 < unat (oq_max_in_flight (ws_operation_queue s1))"
    using f by (simp add: sample_worker_def worker_state_new_def operation_queue_new_def
        sample_device_def default_max_concurrent_ops_def)
  with capacity_facts(2) [of s1] t have g by simp
  with e ok t acquire_frame [OF t] f show ?thesis by auto
qed

lemma panic_request_panics:
  "handle_device_control sample_api flaky_io panic_request
     (sample_worker [sample_group ''h0'' 65535 [sample_field ''x'' U32 65535]]) 0 = Panic"
proof -
  let ?g = "sample_group ''h0'' 65535 [sample_field ''x'' U32 65535]"
  have "parse_register_address (register_type_prefix Holding # show_nat (unat (0 :: u16))) = Some (Holding, 0)"
    by (rule parse_register_address_print)
  moreover have "char_of (48 :: nat) = CHR ''0''" by (simp add: char_of_eq_iff take_bit_eq_mod)
  ultimately have a: "parse_register_address ''h0'' = Some (Holding, 0)"
    by (simp add: show_nat.simps digit_char_def)
  have p: "encode_fields_to_registers sample_api [(''x'', JNum (UInt 1))] [sample_field ''x'' U32 65535] 65535
      BigEndian = Panic"
    by (simp add: encode_fields_to_registers_def encode_loop_Cons field_map_def hash_collect_lookup
        sample_field_def sample_api_def in_buffer_def saturating_add_def
        del: encode_loop.simps(2) replicate.simps)
  have o: "operation_to_modbus_op sample_api s2 WriteSignalGroup (rq_params panic_request) = Panic"
    if "ws_device s2 = ws_device (sample_worker [?g])" for s2 :: "unit worker_state"
    using that p a
    by (simp add: operation_to_modbus_op_def group_name_param_def data_param_def panic_request_def
        resolve_signal_group_def sample_worker_def worker_state_new_def sample_device_def
        sample_group_def write_op_def validate_writable_def write_holding_values_def)
  from sample_ready [of "[?g]"] obtain s1 ev w1 s2 where r:
    "ensure_connected flaky_io (sample_worker [?g]) 0 = (True, s1, ev, w1)"
    "try_acquire_operation_atomic s1 = (True, s2)" "ws_connection_pool s2 \<noteq> None"
    "ws_device s2 = ws_device (sample_worker [?g])" by blast
  with o [OF r(4)] show ?thesis
    by (auto simp: handle_device_control_def get_pool_def panic_request_def)
qed

theorem request_panics_only_at_saturation_witness:
  "\<exists>g \<in> set (dev_signal_groups (ws_device
       (sample_worker [sample_group ''h0'' 65535 [sample_field ''x'' U32 65535]]))).
     sg_register_count g = 65535 \<and>
     (\<exists>f \<in> set (sg_fields g). 65535 < unat (fm_offset f) + field_registers (fm_data_type f))"
  by (rule request_panics_only_at_saturation [OF panic_request_panics]) (simp add: sample_worker_def worker_inv_new)

end
