(* ===== verification/Transition_System.thy ===== *)
theory Transition_System
  imports Main
begin

text \<open>
  Concurrent parts of the program are transition systems: a state they start in and a step relation.
  This theory holds what they share.  The locale \<open>invariant_system\<close> is a system with an inductive
  invariant; \<open>draining_system\<close> extends it with the steps \<open>own\<close> that the program makes by itself, without
  its environment, and a measure of the work that is left, which some step of its own can always make
  smaller without touching what \<open>kept\<close> compares.
\<close>

section \<open>Reachable states\<close>

inductive reachable :: "'s \<Rightarrow> ('s \<Rightarrow> 's \<Rightarrow> bool) \<Rightarrow> 's \<Rightarrow> bool" for s0 :: 's and step :: "'s \<Rightarrow> 's \<Rightarrow> bool" where
  start: "reachable s0 step s0"
| step: "reachable s0 step s \<Longrightarrow> step s s' \<Longrightarrow> reachable s0 step s'"

lemma reachable_steps: "step\<^sup>*\<^sup>* s s' \<Longrightarrow> reachable s0 step s \<Longrightarrow> reachable s0 step s'"
  by (induction rule: rtranclp_induct) (auto intro: reachable.step)

lemma reachable_iff: "reachable s0 step s \<longleftrightarrow> step\<^sup>*\<^sup>* s0 s"
proof
  assume "reachable s0 step s"
  then show "step\<^sup>*\<^sup>* s0 s" by induction auto
qed (blast intro: reachable_steps reachable.start)

section \<open>Invariants\<close>

locale invariant_system =
  fixes s0 :: 's and step :: "'s \<Rightarrow> 's \<Rightarrow> bool" and inv :: "'s \<Rightarrow> bool"
  assumes inv_start: "inv s0"
    and inv_step: "inv s \<Longrightarrow> step s s' \<Longrightarrow> inv s'"
begin

lemma inv_steps: "step\<^sup>*\<^sup>* s s' \<Longrightarrow> inv s \<Longrightarrow> inv s'"
  by (induction rule: rtranclp_induct) (auto intro: inv_step)

lemma inv_reachable: "reachable s0 step s \<Longrightarrow> inv s"
  using inv_steps inv_start by (simp add: reachable_iff)

end

section \<open>Work that can be finished\<close>

locale draining_system = invariant_system +
  fixes own :: "'a \<Rightarrow> 'a \<Rightarrow> bool" and pending :: "'a \<Rightarrow> nat" and kept :: "'a \<Rightarrow> 'a \<Rightarrow> bool"
  assumes own_step: "own s s' \<Longrightarrow> step s s'"
    and work_step: "inv s \<Longrightarrow> 0 < pending s \<Longrightarrow> \<exists>s'. own s s' \<and> pending s' < pending s \<and> kept s s'"
    and kept_refl: "kept s s"
    and kept_trans: "kept s s' \<Longrightarrow> kept s' s'' \<Longrightarrow> kept s s''"
begin

lemma inv_own: "inv s \<Longrightarrow> own s s' \<Longrightarrow> inv s'"
  using inv_step own_step by blast

lemma drains_inv: "inv s \<Longrightarrow> \<exists>s'. own\<^sup>*\<^sup>* s s' \<and> pending s' = 0 \<and> kept s s' \<and> inv s'"
proof (induction "pending s" arbitrary: s rule: less_induct)
  case less
  show ?case
  proof (cases "pending s = 0")
    case True
    with less.prems kept_refl show ?thesis by blast
  next
    case False
    then obtain s1 where s1: "own s s1" "pending s1 < pending s" "kept s s1"
      using work_step less.prems by blast
    with less inv_own obtain s' where "own\<^sup>*\<^sup>* s1 s'" "pending s' = 0" "kept s1 s'" "inv s'" by blast
    with s1 kept_trans show ?thesis by (meson converse_rtranclp_into_rtranclp)
  qed
qed

lemma drains: "reachable s0 step s \<Longrightarrow> \<exists>s'. own\<^sup>*\<^sup>* s s' \<and> pending s' = 0 \<and> kept s s' \<and> inv s'"
  by (rule drains_inv) (rule inv_reachable)

end

end
