(* ===== verification/Modbus_Worker.thy ===== *)
theory Modbus_Worker
  imports Modbus_Handler Transition_System "HOL-Library.Multiset"
begin

text \<open>
  \<open>src/workers/modbus/worker.rs\<close>: the worker's message loop, and the worker together with the tasks
  it has spawned as a transition system.  A task finishes at any later moment, interleaved with
  further messages; the driver code below it may panic.  The loop ends when the controller goes
  offline, or when serving a request panics: the thread of the worker unwinds with the capacity
  already taken and the request unanswered.  The handler is dropped then, and its runtime may discard
  tasks that have not started, unanswered and without their guard.  Parsing the JSON of a
  \<open>ConfigUpdate\<close> is the parameter \<open>parse_config\<close>.

  The lemmas show that as long as the loop runs the number in flight is the number of running tasks
  and every request for the device has one answer or one task, and what is lost when it ends.
\<close>

section \<open>The message loop\<close>

record 'c modbus_worker =
  mw_handler :: "'c worker_state"
  mw_device_id :: string

definition modbus_worker_new :: "device \<Rightarrow> 'c modbus_worker" where
  "modbus_worker_new d = \<lparr>mw_handler = worker_state_new d, mw_device_id = dev_id d\<rparr>"

definition find_device_config :: "'c modbus_worker \<Rightarrow> config \<Rightarrow> device option" where
  "find_device_config mw c = find (\<lambda>d. dev_id d = mw_device_id mw) (cfg_devices c)"

definition unanswered :: "'c worker_state \<Rightarrow> 'w \<Rightarrow> ('n, 'ch, 'c, 'w) handled" where
  "unanswered s w = \<lparr>h_state = s, h_events = [], h_sent = [], h_task = None, h_world = w\<rparr>"

definition worker_message ::
  "'n number_api \<Rightarrow> ('w, 'c, 'm) modbus_io \<Rightarrow> (string \<Rightarrow> 'de + config) \<Rightarrow> ('n, 'ch) message
     \<Rightarrow> 'c modbus_worker \<Rightarrow> 'w \<Rightarrow> ('n, 'ch, 'c, 'w) handled outcome" where
  "worker_message api io parse_config msg mw w =
     (let s = mw_handler mw in
      case msg of
        DeviceControl device_id operation params correlation_id respond_to \<Rightarrow>
          if device_id \<noteq> dev_id (ws_device s) then Ret (unanswered s w)
          else handle_device_control api io
                 \<lparr>rq_device_id = device_id, rq_operation = operation, rq_params = params,
                  rq_correlation_id = correlation_id, rq_respond_to = respond_to\<rparr> s w
      | ConfigUpdate c \<Rightarrow>
          (case parse_config c of
             Inl e \<Rightarrow> Ret (unanswered s w)
           | Inr new_config \<Rightarrow>
               (case find_device_config mw new_config of
                  Some d \<Rightarrow> Ret (unanswered (update_device_config d s) w)
                | None \<Rightarrow> Ret (unanswered s w)))
      | _ \<Rightarrow> Ret (unanswered s w))"

section \<open>The worker and its tasks\<close>

record ('n, 'ch, 'c) modbus_system =
  sys_worker :: "'c modbus_worker"
  sys_tasks :: "('n, 'ch) task list"
  sys_received :: "('n, 'ch) request list"
  sys_answers :: "(('n, 'ch) request \<times> ('n, 'ch) sent) list"
  sys_running :: bool
  sys_lost :: "('n, 'ch) request list"

definition system_new :: "device \<Rightarrow> ('n, 'ch, 'c) modbus_system" where
  "system_new d =
     \<lparr>sys_worker = modbus_worker_new d, sys_tasks = [], sys_received = [], sys_answers = [],
      sys_running = True, sys_lost = []\<rparr>"

text \<open>The request a message carries for the device.\<close>

fun message_request :: "string \<Rightarrow> ('n, 'ch) message \<Rightarrow> ('n, 'ch) request option" where
  "message_request this (DeviceControl device_id operation params correlation_id respond_to) =
     (if device_id = this
      then Some \<lparr>rq_device_id = device_id, rq_operation = operation, rq_params = params,
                 rq_correlation_id = correlation_id, rq_respond_to = respond_to\<rparr>
      else None)"
| "message_request this _ = None"

definition receive ::
  "('n, 'ch) request option \<Rightarrow> ('n, 'ch, 'c, 'w) handled \<Rightarrow> ('n, 'ch, 'c) modbus_system
     \<Rightarrow> ('n, 'ch, 'c) modbus_system" where
  "receive rq h y =
     y\<lparr>sys_worker := (sys_worker y)\<lparr>mw_handler := h_state h\<rparr>,
       sys_tasks := sys_tasks y @ (case h_task h of None \<Rightarrow> [] | Some t \<Rightarrow> [t]),
       sys_received := sys_received y @ (case rq of None \<Rightarrow> [] | Some r \<Rightarrow> [r]),
       sys_answers := sys_answers y @ (case rq of None \<Rightarrow> [] | Some r \<Rightarrow> map (Pair r) (h_sent h))\<rparr>"

definition finish :: "nat \<Rightarrow> ('n, 'ch) sent list \<Rightarrow> 'c worker_state \<Rightarrow> ('n, 'ch, 'c) modbus_system
    \<Rightarrow> ('n, 'ch, 'c) modbus_system" where
  "finish i sent s y =
     y\<lparr>sys_worker := (sys_worker y)\<lparr>mw_handler := s\<rparr>,
       sys_tasks := take i (sys_tasks y) @ drop (Suc i) (sys_tasks y),
       sys_answers := sys_answers y @ map (Pair (tk_request (sys_tasks y ! i))) sent\<rparr>"

text \<open>The state a panic of \<open>operation_to_modbus_op\<close> leaves behind: the capacity has been acquired and
  is not given back.\<close>

definition unwound_state :: "('w, 'c, 'm) modbus_io \<Rightarrow> 'c worker_state \<Rightarrow> 'w \<Rightarrow> 'c worker_state" where
  "unwound_state io s w =
     (let (connected, s1, ev, w1) = ensure_connected io s w in snd (try_acquire_operation_atomic s1))"

definition unwind ::
  "('w, 'c, 'm) modbus_io \<Rightarrow> ('n, 'ch) request option \<Rightarrow> 'w \<Rightarrow> ('n, 'ch, 'c) modbus_system
     \<Rightarrow> ('n, 'ch, 'c) modbus_system" where
  "unwind io rq w y =
     y\<lparr>sys_worker := (sys_worker y)\<lparr>mw_handler := unwound_state io (mw_handler (sys_worker y)) w\<rparr>,
       sys_received := sys_received y @ (case rq of None \<Rightarrow> [] | Some r \<Rightarrow> [r]),
       sys_lost := sys_lost y @ (case rq of None \<Rightarrow> [] | Some r \<Rightarrow> [r]),
       sys_running := False\<rparr>"

text \<open>A task that never starts: its future is dropped with the request, before its guard exists.\<close>

definition discard :: "nat \<Rightarrow> ('n, 'ch, 'c) modbus_system \<Rightarrow> ('n, 'ch, 'c) modbus_system" where
  "discard i y =
     y\<lparr>sys_tasks := take i (sys_tasks y) @ drop (Suc i) (sys_tasks y),
       sys_lost := sys_lost y @ [tk_request (sys_tasks y ! i)]\<rparr>"

inductive system_step ::
  "'n number_api \<Rightarrow> ('w, 'c, 'm) modbus_io \<Rightarrow> (string \<Rightarrow> 'de + config)
     \<Rightarrow> ('n, 'ch, 'c) modbus_system \<Rightarrow> ('n, 'ch, 'c) modbus_system \<Rightarrow> bool"
  for api :: "'n number_api" and io :: "('w, 'c, 'm) modbus_io" and parse_config :: "string \<Rightarrow> 'de + config"
where
  message: "sys_running y \<Longrightarrow> worker_message api io parse_config msg (sys_worker y) w = Ret h \<Longrightarrow>
     system_step api io parse_config y
       (receive (message_request (dev_id (ws_device (mw_handler (sys_worker y)))) msg) h y)"
| panicked: "sys_running y \<Longrightarrow> worker_message api io parse_config msg (sys_worker y) w = Panic \<Longrightarrow>
     system_step api io parse_config y
       (unwind io (message_request (dev_id (ws_device (mw_handler (sys_worker y)))) msg) w y)"
| offline: "sys_running y \<Longrightarrow> system_step api io parse_config y (y\<lparr>sys_running := False\<rparr>)"
| discarded: "\<not> sys_running y \<Longrightarrow> i < length (sys_tasks y) \<Longrightarrow>
     system_step api io parse_config y (discard i y)"
| task_done: "i < length (sys_tasks y) \<Longrightarrow>
     run_task api io crash (sys_tasks y ! i) (mw_handler (sys_worker y)) w = (sent, s', w') \<Longrightarrow>
     system_step api io parse_config y (finish i sent s' y)"

abbreviation system_reach ::
  "'n number_api \<Rightarrow> ('w, 'c, 'm) modbus_io \<Rightarrow> (string \<Rightarrow> 'de + config) \<Rightarrow> device
     \<Rightarrow> ('n, 'ch, 'c) modbus_system \<Rightarrow> bool"
where
  "system_reach api io parse_config d \<equiv> reachable (system_new d) (system_step api io parse_config)"

lemma system_start: "system_reach api io parse_config d (system_new d)"
  by (rule reachable.start)

lemma system_next:
  "system_reach api io parse_config d y \<Longrightarrow> system_step api io parse_config y y' \<Longrightarrow> system_reach api io parse_config d y'"
  by (rule reachable.step)

inductive_cases system_stepE: "system_step api io parse_config y y'"

section \<open>The invariant\<close>

definition system_inv :: "('n, 'ch, 'c) modbus_system \<Rightarrow> bool" where
  "system_inv y \<longleftrightarrow>
     worker_inv (mw_handler (sys_worker y)) \<and>
     in_flight (mw_handler (sys_worker y)) = length (sys_tasks y) + length (sys_lost y) \<and>
     (sys_tasks y \<noteq> [] \<longrightarrow> ws_connection_pool (mw_handler (sys_worker y)) \<noteq> None) \<and>
     (sys_running y \<longrightarrow> sys_lost y = []) \<and>
     mset (sys_received y) =
       mset (map fst (sys_answers y)) + mset (map tk_request (sys_tasks y)) + mset (sys_lost y)"

lemma handle_keeps_pool:
  assumes "worker_inv s" and "handle_device_control api io rq s w = Ret h"
    and "ws_connection_pool s \<noteq> None"
  shows "ws_connection_pool (h_state h) \<noteq> None"
proof -
  from assms(3) obtain p where p: "ws_connection_pool s = Some p" by auto
  define s1 where "s1 = s\<lparr>ws_connection_state := Connected,
    ws_timeout_handler := on_success (ws_timeout_handler s), ws_backoff := backoff_reset (ws_backoff s)\<rparr>"
  obtain g s2 where a: "try_acquire_operation_atomic s1 = (g, s2)"
    by (cases "try_acquire_operation_atomic s1")
  have "ws_connection_pool s1 = Some p" "ws_connection_pool s2 = Some p"
    using p acquire_frame [OF a] by (simp_all add: s1_def)
  then show ?thesis
    using assms(2) p a complete_frame [of s2]
    by (auto simp: handle_device_control_def ensure_connected_pooled get_pool_def Let_def
        simp flip: s1_def split: if_splits option.splits)
qed

lemma in_flight_unanswered [simp]:
  "h_state (unanswered s w) = s" "h_task (unanswered s w) = None" "h_sent (unanswered s w) = []"
  by (simp_all add: unanswered_def)

lemma update_config_frame:
  "in_flight (update_device_config d s) = in_flight s"
  "ws_connection_pool (update_device_config d s) = ws_connection_pool s"
  by (simp_all add: update_device_config_def)

lemma system_inv_receive:
  assumes inv: "system_inv y" and h: "worker_message api io parse_config msg (sys_worker y) w = Ret h"
  shows "system_inv (receive (message_request (dev_id (ws_device (mw_handler (sys_worker y)))) msg) h y)"
proof -
  let ?s = "mw_handler (sys_worker y)" and ?rq = "message_request (dev_id (ws_device (mw_handler (sys_worker y)))) msg"
  have wi: "worker_inv ?s" using inv by (simp add: system_inv_def)
  show ?thesis
  proof (cases ?rq)
    case None
    then have "worker_inv (h_state h) \<and> in_flight (h_state h) = in_flight ?s \<and>
        ws_connection_pool (h_state h) = ws_connection_pool ?s \<and> h_task h = None"
      using h wi by (cases msg)
        (auto simp: worker_message_def Let_def worker_inv_update_config update_config_frame
          split: if_splits sum.splits option.splits)
    with None inv show ?thesis by (simp add: system_inv_def receive_def)
  next
    case (Some rq)
    then have hd: "handle_device_control api io rq ?s w = Ret h"
      using h by (cases msg) (auto simp: worker_message_def split: if_splits)
    note shape = handle_shape [OF wi hd]
    have pool: "ws_connection_pool ?s \<noteq> None \<Longrightarrow> ws_connection_pool (h_state h) \<noteq> None"
      by (rule handle_keeps_pool [OF wi hd])
    show ?thesis
    proof (cases "answered h ?s")
      case True
      then obtain a where "h_sent h = [a]" "h_task h = None" "in_flight (h_state h) = in_flight ?s"
        by (auto simp: answered_def length_Suc_conv)
      with Some inv shape pool show ?thesis by (simp add: system_inv_def receive_def)
    next
      case False
      with shape obtain t where "h_sent h = []" "h_task h = Some t" "tk_request t = rq"
        "in_flight (h_state h) = Suc (in_flight ?s)" "ws_connection_pool (h_state h) \<noteq> None"
        by (auto simp: spawned_def)
      with Some inv shape show ?thesis by (simp add: system_inv_def receive_def)
    qed
  qed
qed

lemma system_inv_finish:
  assumes inv: "system_inv y" and i: "i < length (sys_tasks y)"
    and r: "run_task api io crash (sys_tasks y ! i) (mw_handler (sys_worker y)) w = (sent, s', w')"
  shows "system_inv (finish i sent s' y)"
proof -
  let ?ts = "sys_tasks y"
  have ts: "?ts = take i ?ts @ ?ts ! i # drop (Suc i) ?ts" using i by (rule id_take_nth_drop)
  have "?ts \<noteq> []" using i by auto
  with inv have "worker_inv (mw_handler (sys_worker y))" "ws_connection_pool (mw_handler (sys_worker y)) \<noteq> None"
    by (simp_all add: system_inv_def)
  note shape = run_task_shape [OF this r]
  then obtain a where a: "sent = [a]" by (auto simp: length_Suc_conv)
  have "mset (map tk_request ?ts) =
      mset (map tk_request (take i ?ts)) + {#tk_request (?ts ! i)#} + mset (map tk_request (drop (Suc i) ?ts))"
    by (subst ts) simp
  moreover have "length (take i ?ts @ drop (Suc i) ?ts) = length ?ts - 1" using i by simp
  ultimately show ?thesis using inv shape a i
    by (simp add: system_inv_def finish_def)
qed

text \<open>A panic of the synchronous part leaves one unit of capacity taken.\<close>

lemma unwound_shape:
  assumes inv: "worker_inv s" and p: "handle_device_control api io rq s w = Panic"
  shows "worker_inv (unwound_state io s w) \<and> in_flight (unwound_state io s w) = Suc (in_flight s) \<and>
     ws_connection_pool (unwound_state io s w) \<noteq> None"
proof -
  obtain ok s1 ev w1 where e: "ensure_connected io s w = (ok, s1, ev, w1)"
    by (cases "ensure_connected io s w")
  obtain g s2 where a: "try_acquire_operation_atomic s1 = (g, s2)"
    by (cases "try_acquire_operation_atomic s1")
  from p e a have g: "g" "ws_connection_pool s2 \<noteq> None"
    by (auto simp: handle_device_control_def get_pool_def Let_def split: if_splits option.splits)
  with capacity_facts(1) [of s1] worker_inv_capacity(1) [of s1] worker_inv_ensure_connected [OF inv e]
    ensure_connected_frame [OF inv e] a e
  show ?thesis by (simp add: unwound_state_def)
qed

lemma system_inv_unwind:
  assumes inv: "system_inv y" and run: "sys_running y"
    and p: "worker_message api io parse_config msg (sys_worker y) w = Panic"
  shows "system_inv (unwind io (message_request (dev_id (ws_device (mw_handler (sys_worker y)))) msg) w y)"
proof -
  let ?s = "mw_handler (sys_worker y)"
  obtain rq where "message_request (dev_id (ws_device ?s)) msg = Some rq"
    and "handle_device_control api io rq ?s w = Panic"
    using p by (cases msg) (auto simp: worker_message_def Let_def split: if_splits sum.splits option.splits)
  moreover from this(2) inv have "worker_inv (unwound_state io ?s w) \<and>
      in_flight (unwound_state io ?s w) = Suc (in_flight ?s) \<and> ws_connection_pool (unwound_state io ?s w) \<noteq> None"
    by (intro unwound_shape) (simp_all add: system_inv_def)
  ultimately show ?thesis using inv run by (simp add: system_inv_def unwind_def)
qed

lemma mset_remove_nth:
  assumes "i < length xs"
  shows "mset (map f xs) = mset (map f (take i xs @ drop (Suc i) xs)) + {#f (xs ! i)#}"
  by (subst id_take_nth_drop [OF assms]) simp

lemma system_inv_discard:
  assumes "system_inv y" and "\<not> sys_running y" and i: "i < length (sys_tasks y)"
  shows "system_inv (discard i y)"
proof -
  have "sys_tasks y \<noteq> []" using i by auto
  with assms mset_remove_nth [OF i, of tk_request] show ?thesis by (simp add: system_inv_def discard_def)
qed

lemma system_inv_step:
  assumes "system_inv y" and "system_step api io parse_config y y'"
  shows "system_inv y'"
  using assms(2)
proof (rule system_stepE)
  assume "y' = y\<lparr>sys_running := False\<rparr>"
  with assms(1) show ?thesis by (simp add: system_inv_def)
qed (use assms(1) in \<open>auto intro: system_inv_receive system_inv_unwind system_inv_discard system_inv_finish\<close>)

interpretation worker: invariant_system "system_new d" "system_step api io parse_config" system_inv
  for api :: "'n number_api" and io :: "('w, 'c, 'm) modbus_io" and parse_config :: "string \<Rightarrow> 'de + config" and d
proof unfold_locales
  show "system_inv (system_new d)"
    by (simp add: system_inv_def system_new_def modbus_worker_new_def worker_inv_new)
       (simp add: worker_state_new_def operation_queue_new_def)
qed (rule system_inv_step)

section \<open>Running the tasks to their end\<close>

text \<open>A schedule of completions: the choice among the running tasks, whether the driver panics, and the
  world the device is met in, one entry for each completion.\<close>

fun run_tasks ::
  "'n number_api \<Rightarrow> ('w, 'c, 'm) modbus_io \<Rightarrow> (nat \<times> bool \<times> 'w) list \<Rightarrow> ('n, 'ch, 'c) modbus_system
     \<Rightarrow> ('n, 'ch, 'c) modbus_system" where
  "run_tasks api io [] y = y"
| "run_tasks api io ((k, crash, w) # ds) y =
     (if sys_tasks y = [] then y
      else let i = k mod length (sys_tasks y);
               (sent, s', w') = run_task api io crash (sys_tasks y ! i) (mw_handler (sys_worker y)) w
           in run_tasks api io ds (finish i sent s' y))"

lemma finish_frame:
  "sys_received (finish i sent s y) = sys_received y" "sys_running (finish i sent s y) = sys_running y"
  "sys_lost (finish i sent s y) = sys_lost y"
  "i < length (sys_tasks y) \<Longrightarrow> length (sys_tasks (finish i sent s y)) = length (sys_tasks y) - 1"
  by (simp_all add: finish_def)

lemma run_tasks_ends:
  assumes "system_inv y" and "length (sys_tasks y) \<le> length ds"
  shows "(system_step api io parse_config)\<^sup>*\<^sup>* y (run_tasks api io ds y) \<and> system_inv (run_tasks api io ds y) \<and>
     sys_tasks (run_tasks api io ds y) = [] \<and> sys_received (run_tasks api io ds y) = sys_received y \<and>
     sys_lost (run_tasks api io ds y) = sys_lost y"
  using assms
proof (induction ds arbitrary: y)
  case (Cons d ds)
  obtain k crash w where d: "d = (k, crash, w)" by (cases d)
  show ?case
  proof (cases "sys_tasks y = []")
    case False
    define i where "i = k mod length (sys_tasks y)"
    obtain sent s' w' where r: "run_task api io crash (sys_tasks y ! i) (mw_handler (sys_worker y)) w = (sent, s', w')"
      by (cases "run_task api io crash (sys_tasks y ! i) (mw_handler (sys_worker y)) w")
    have i: "i < length (sys_tasks y)" using False by (simp add: i_def)
    have st: "system_step api io parse_config y (finish i sent s' y)"
      using i r by (rule system_step.task_done)
    have eq: "run_tasks api io (d # ds) y = run_tasks api io ds (finish i sent s' y)"
      using False r by (simp add: d flip: i_def)
    have "length (sys_tasks (finish i sent s' y)) \<le> length ds"
      using finish_frame(4) [OF i] Cons.prems(2) by simp
    from Cons.IH [OF system_inv_step [OF Cons.prems(1) st] this] st show ?thesis
      unfolding eq by (simp add: finish_frame converse_rtranclp_into_rtranclp)
  qed (use Cons.prems d in simp)
qed simp

lemma in_flight_bounded:
  "worker_inv s \<Longrightarrow> in_flight s \<le> unat (dev_max_concurrent_ops (ws_device s))"
  by (auto simp: worker_inv_def word_le_nat_alt)

section \<open>Properties\<close>

text \<open>C5: However messages and the completions of tasks interleave, and whichever of them panic, the
  number of operations in flight is the number of running tasks and of lost requests, at most the
  device's \<open>max_concurrent_ops\<close>; every request received for the device has exactly one answer, or
  exactly one running task, or is lost; and none is lost as long as the worker's loop runs.\<close>

theorem every_request_answered_once:
  assumes "system_reach api io parse_config d y"
  shows "in_flight (mw_handler (sys_worker y)) = length (sys_tasks y) + length (sys_lost y) \<and>
     in_flight (mw_handler (sys_worker y)) \<le> unat (dev_max_concurrent_ops (ws_device (mw_handler (sys_worker y)))) \<and>
     mset (sys_received y) =
       mset (map fst (sys_answers y)) + mset (map tk_request (sys_tasks y)) + mset (sys_lost y) \<and>
     (sys_running y \<longrightarrow> sys_lost y = [])"
  using worker.inv_reachable [OF assms] in_flight_bounded [of "mw_handler (sys_worker y)"]
  by (simp add: system_inv_def)

theorem every_request_answered_once_witness:
  "\<exists>y :: (sample_number, unit, unit) modbus_system.
     system_step sample_api flaky_io (\<lambda>_. Inl ()) (system_new (sample_device ''plc'' [])) y \<and>
     length (sys_received y) = 1 \<and> sys_lost y = [] \<and>
     in_flight (mw_handler (sys_worker y)) = length (sys_tasks y) \<and>
     mset (sys_received y) = mset (map fst (sys_answers y)) + mset (map tk_request (sys_tasks y))"
proof -
  let ?y0 = "system_new (sample_device ''plc'' []) :: (sample_number, unit, unit) modbus_system"
  let ?msg = "DeviceControl ''plc'' GetStatus JNull 1 None :: (sample_number, unit) message"
  let ?s = "mw_handler (sys_worker ?y0)"
  let ?rq = "\<lparr>rq_device_id = ''plc'', rq_operation = GetStatus, rq_params = JNull, rq_correlation_id = 1,
    rq_respond_to = None :: unit option\<rparr>"
  have id: "dev_id (ws_device ?s) = ''plc''"
    by (simp add: system_new_def modbus_worker_new_def worker_state_new_def sample_device_def)
  obtain ok s1 ev w1 where e: "ensure_connected flaky_io ?s 0 = (ok, s1, ev, w1)"
    by (cases "ensure_connected flaky_io ?s 0")
  obtain h where h: "handle_device_control sample_api flaky_io ?rq ?s 0 = Ret h"
    using e by (cases ok) (simp_all add: handle_device_control_def)
  define y where "y = receive (Some ?rq) h ?y0"
  have st: "system_step sample_api flaky_io (\<lambda>_. Inl ()) ?y0 y"
    using system_step.message [of ?y0 sample_api flaky_io "\<lambda>_. Inl ()" ?msg 0 h] h id
    by (simp add: worker_message_def y_def) (simp add: system_new_def)
  have "length (sys_received y) = 1" "sys_running y" by (simp_all add: y_def receive_def system_new_def)
  with st every_request_answered_once [OF system_next [OF system_start st]] show ?thesis
    by (intro exI [of _ y]) simp
qed

text \<open>C34: As long as the worker's loop runs, the running tasks come to their end in whatever order they
  complete, whatever the device does and whether or not the driver panics: after one completion for
  each of them every request received so far has been answered exactly once and the whole capacity
  is free again.\<close>

theorem all_requests_can_be_answered:
  assumes "system_reach api io parse_config d y" and "sys_running y"
    and "length (sys_tasks y) \<le> length schedule"
  shows "\<exists>y'. y' = run_tasks api io schedule y \<and> (system_step api io parse_config)\<^sup>*\<^sup>* y y' \<and>
     sys_received y' = sys_received y \<and> mset (map fst (sys_answers y')) = mset (sys_received y) \<and>
     in_flight (mw_handler (sys_worker y')) = 0"
proof -
  have inv: "system_inv y" by (rule worker.inv_reachable [OF assms(1)])
  with assms(2) have "sys_lost y = []" by (simp add: system_inv_def)
  with run_tasks_ends [OF inv assms(3), where api = api and io = io and parse_config = parse_config]
  have st: "(system_step api io parse_config)\<^sup>*\<^sup>* y (run_tasks api io schedule y)"
    and e: "sys_tasks (run_tasks api io schedule y) = []" "sys_lost (run_tasks api io schedule y) = []"
      "sys_received (run_tasks api io schedule y) = sys_received y"
    and i: "system_inv (run_tasks api io schedule y)" by simp_all
  from i have "in_flight (mw_handler (sys_worker (run_tasks api io schedule y))) = 0"
    "mset (sys_received y) = mset (map fst (sys_answers (run_tasks api io schedule y)))"
    unfolding system_inv_def e by simp_all
  with st e(3) show ?thesis by simp
qed

definition waiting_request :: "(sample_number, unit) request" where
  "waiting_request =
     \<lparr>rq_device_id = ''plc'', rq_operation = ReadSignalGroup, rq_params = JNull, rq_correlation_id = 1,
      rq_respond_to = None\<rparr>"

theorem all_requests_can_be_answered_witness:
  "\<exists>y y' :: (sample_number, unit, unit) modbus_system.
     map tk_request (sys_tasks y) = [waiting_request] \<and> sys_received y = [waiting_request] \<and>
     (system_step sample_api flaky_io (\<lambda>_. Inl ()))\<^sup>*\<^sup>* y y' \<and> sys_received y' = sys_received y \<and>
     mset (map fst (sys_answers y')) = mset (sys_received y) \<and>
     in_flight (mw_handler (sys_worker y')) = 0"
proof -
  let ?y0 = "system_new (sample_device ''plc'' []) :: (sample_number, unit, unit) modbus_system"
  let ?msg = "DeviceControl ''plc'' ReadSignalGroup JNull 1 None :: (sample_number, unit) message"
  have s0: "mw_handler (sys_worker ?y0) = sample_worker []"
    by (simp add: system_new_def modbus_worker_new_def sample_worker_def)
  then have id: "dev_id (ws_device (mw_handler (sys_worker ?y0))) = ''plc''"
    by (simp add: sample_worker_def worker_state_new_def sample_device_def)
  from sample_ready [of "[]"] obtain s1 ev w1 s2 where r:
    "ensure_connected flaky_io (sample_worker []) 0 = (True, s1, ev, w1)"
    "try_acquire_operation_atomic s1 = (True, s2)" "ws_connection_pool s2 \<noteq> None" by blast
  then obtain h t where h: "handle_device_control sample_api flaky_io waiting_request (sample_worker []) 0 = Ret h"
    and t: "h_task h = Some t" "tk_request t = waiting_request"
    by (auto simp: handle_device_control_def get_pool_def waiting_request_def operation_to_modbus_op_def
        group_name_param_def incomplete_write_def)
  define y where "y = receive (Some waiting_request) h ?y0"
  have "system_step sample_api flaky_io (\<lambda>_. Inl ()) ?y0 y"
    using system_step.message [of ?y0 sample_api flaky_io "\<lambda>_. Inl ()" ?msg 0 h] h id s0
    by (simp add: worker_message_def y_def waiting_request_def) (simp add: system_new_def modbus_worker_new_def)
  note reach = system_next [OF system_start this]
  have y: "map tk_request (sys_tasks y) = [waiting_request]" "sys_received y = [waiting_request]"
    "sys_running y" "length (sys_tasks y) \<le> length [(0 :: nat, True, 0 :: nat)]"
    using t by (simp_all add: y_def receive_def system_new_def)
  from all_requests_can_be_answered [OF reach y(3,4)] obtain y' where
    "(system_step sample_api flaky_io (\<lambda>_. Inl ()))\<^sup>*\<^sup>* y y'" "sys_received y' = sys_received y"
    "mset (map fst (sys_answers y')) = mset (sys_received y)" "in_flight (mw_handler (sys_worker y')) = 0"
    by (elim exE conjE) (rule that)
  with y(1,2) show ?thesis by (intro exI conjI)
qed

text \<open>A write that fills a group of 65535 registers can lose its request and its capacity.\<close>

lemma panic_loses_request:
  "\<exists>y :: (sample_number, unit, unit) modbus_system.
     system_step sample_api flaky_io (\<lambda>_. Inl ())
       (system_new (sample_device ''plc'' [sample_group ''h0'' 65535 [sample_field ''x'' U32 65535]])) y \<and>
     sys_lost y = [panic_request] \<and> sys_answers y = [] \<and> sys_tasks y = [] \<and> \<not> sys_running y"
proof -
  let ?y0 = "system_new (sample_device ''plc'' [sample_group ''h0'' 65535 [sample_field ''x'' U32 65535]])
    :: (sample_number, unit, unit) modbus_system"
  let ?msg = "DeviceControl ''plc'' WriteSignalGroup (rq_params panic_request) 1 None :: (sample_number, unit) message"
  have s0: "mw_handler (sys_worker ?y0) = sample_worker [sample_group ''h0'' 65535 [sample_field ''x'' U32 65535]]"
    by (simp add: system_new_def modbus_worker_new_def sample_worker_def)
  then have id: "dev_id (ws_device (mw_handler (sys_worker ?y0))) = ''plc''"
    by (simp add: sample_worker_def worker_state_new_def sample_device_def)
  have rq: "message_request ''plc'' ?msg = Some panic_request" by (simp add: panic_request_def)
  have "worker_message sample_api flaky_io (\<lambda>_. Inl ()) ?msg (sys_worker ?y0) 0 = Panic"
    using panic_request_panics id rq by (simp add: worker_message_def s0)
  moreover have "sys_running ?y0" by (simp add: system_new_def)
  ultimately have "system_step sample_api flaky_io (\<lambda>_. Inl ()) ?y0 (unwind flaky_io (Some panic_request) 0 ?y0)"
    using system_step.panicked [of ?y0 sample_api flaky_io "\<lambda>_. Inl ()" ?msg 0] unfolding id rq by blast
  then show ?thesis by (intro exI conjI) (assumption, simp_all add: unwind_def system_new_def)
qed

end
