(* ===== verification/Rpc_Connection.thy ===== *)
theory Rpc_Connection
  imports Json "HOL-Library.Sublist"
begin

text \<open>
  \<open>src/workers/rpc/connection.rs\<close>: reading one JSON request from a TCP stream.  The bytes are
  scanned incrementally for the end of the request; a read may deliver any part of it.  What a read
  gives is an input (\<open>read_event\<close>); serving the payload and writing the answer belong to the
  \<open>roboplc_rpc\<close> and \<open>tokio\<close> crates and are parameters of \<open>handle_connection\<close>.

  The lemmas show that the scanner finds the end of a serialized array or object exactly at its
  last byte, so the loop returns the whole request however it is split into reads.
\<close>

section \<open>The completeness scanner\<close>

text \<open>\<open>brace_depth\<close> is an \<open>i32\<close> in the code; at most \<open>MAX_REQUEST_SIZE\<close> bytes are scanned, so it
  stays far from the bounds and is an integer here.\<close>

record scanner =
  brace_depth :: int
  in_string :: bool
  escape :: bool
  json_started :: bool

definition scanner_init :: scanner where
  "scanner_init = \<lparr>brace_depth = 0, in_string = False, escape = False, json_started = False\<rparr>"

definition scan_byte :: "char \<Rightarrow> scanner \<Rightarrow> scanner" where
  "scan_byte b st =
     (if escape st then st\<lparr>escape := False\<rparr>
      else if b = CHR 0x5C \<and> in_string st then st\<lparr>escape := True\<rparr>
      else if b = CHR 0x22 then st\<lparr>in_string := \<not> in_string st\<rparr>
      else if in_string st then st
      else if b = CHR ''{'' \<or> b = CHR ''['' then st\<lparr>brace_depth := brace_depth st + 1, json_started := True\<rparr>
      else if b = CHR ''}'' \<or> b = CHR '']'' then st\<lparr>brace_depth := brace_depth st - 1\<rparr>
      else st)"

definition scan :: "string \<Rightarrow> scanner \<Rightarrow> scanner" where
  "scan bs st = fold scan_byte bs st"

definition json_complete :: "scanner \<Rightarrow> bool" where
  "json_complete st \<longleftrightarrow> json_started st \<and> brace_depth st = 0"

section \<open>The connection\<close>

definition MAX_REQUEST_SIZE :: nat where "MAX_REQUEST_SIZE = 1024 * 1024"
definition INITIAL_TIMEOUT_MS :: nat where "INITIAL_TIMEOUT_MS = 3000"
definition SUBSEQUENT_TIMEOUT_MS :: nat where "SUBSEQUENT_TIMEOUT_MS = 50"

definition read_timeout_ms :: "bool \<Rightarrow> nat" where
  "read_timeout_ms first_read = (if first_read then INITIAL_TIMEOUT_MS else SUBSEQUENT_TIMEOUT_MS)"

text \<open>What \<open>timeout(.., stream.read(..))\<close> gives; an empty \<open>Data\<close> is the end of the stream.\<close>

datatype 'e read_event = Data string | Read_Error 'e | Timed_Out

datatype 'e connection_error = Io_Error 'e | Request_Too_Large

text \<open>The read loop over the events of the stream; \<open>None\<close> when they end before the loop does.\<close>

fun read_loop ::
  "scanner \<Rightarrow> string \<Rightarrow> 'e read_event list \<Rightarrow> ('e connection_error + string) option" where
  "read_loop st payload [] = None"
| "read_loop st payload (Data bs # evs) =
     (if bs = [] then Some (Inr payload)
      else let payload' = payload @ bs in
        if MAX_REQUEST_SIZE < length payload' then Some (Inl Request_Too_Large)
        else let st' = scan bs st in
          if json_complete st' then Some (Inr payload')
          else read_loop st' payload' evs)"
| "read_loop st payload (Read_Error e # evs) = Some (Inl (Io_Error e))"
| "read_loop st payload (Timed_Out # evs) = Some (Inr payload)"

definition handle_connection ::
  "(string \<Rightarrow> 'w \<Rightarrow> ('e + string option) \<times> 'w) \<Rightarrow> (string \<Rightarrow> 'w \<Rightarrow> ('e + unit) \<times> 'w)
     \<Rightarrow> 'e read_event list \<Rightarrow> 'w \<Rightarrow> (('e connection_error + unit) \<times> 'w) option" where
  "handle_connection handle_request_payload write_all evs w =
     (case read_loop scanner_init [] evs of
        None \<Rightarrow> None
      | Some (Inl e) \<Rightarrow> Some (Inl e, w)
      | Some (Inr payload) \<Rightarrow>
          if payload = [] then Some (Inr (), w)
          else (case handle_request_payload payload w of
                  (Inl e, w1) \<Rightarrow> Some (Inl (Io_Error e), w1)
                | (Inr None, w1) \<Rightarrow> Some (Inr (), w1)
                | (Inr (Some response), w1) \<Rightarrow>
                    (case write_all response w1 of
                       (Inl e, w2) \<Rightarrow> Some (Inl (Io_Error e), w2)
                     | (Inr _, w2) \<Rightarrow> Some (Inr (), w2))))"

section \<open>Serialized JSON\<close>

text \<open>The compact text of a JSON value, for any text of its numbers.\<close>

definition hex_digit :: "nat \<Rightarrow> char" where
  "hex_digit n = ''0123456789abcdef'' ! n"

definition render_char :: "char \<Rightarrow> string" where
  "render_char c =
     (let n = of_char c :: nat in
      if c = CHR 0x22 \<or> c = CHR 0x5C then [CHR 0x5C, c]
      else if n < 32 then [CHR 0x5C, CHR ''u'', CHR ''0'', CHR ''0'', hex_digit (n div 16), hex_digit (n mod 16)]
      else [c])"

definition render_string :: "string \<Rightarrow> string" where
  "render_string s = CHR 0x22 # concat (map render_char s) @ [CHR 0x22]"

fun render :: "('n \<Rightarrow> string) \<Rightarrow> 'n json \<Rightarrow> string"
  and render_items :: "('n \<Rightarrow> string) \<Rightarrow> 'n json list \<Rightarrow> string"
  and render_members :: "('n \<Rightarrow> string) \<Rightarrow> (string \<times> 'n json) list \<Rightarrow> string"
where
  "render num JNull = ''null''"
| "render num (JBool b) = (if b then ''true'' else ''false'')"
| "render num (JNum n) = num n"
| "render num (JStr s) = render_string s"
| "render num (JArr xs) = CHR ''['' # render_items num xs @ '']''"
| "render num (JObj kvs) = CHR ''{'' # render_members num kvs @ ''}''"
| "render_items num [] = []"
| "render_items num (x # xs) = render num x @ (if xs = [] then [] else '','' @ render_items num xs)"
| "render_members num [] = []"
| "render_members num ((k, v) # kvs) =
     render_string k @ '':'' @ render num v @ (if kvs = [] then [] else '','' @ render_members num kvs)"

section \<open>Lemmas\<close>

lemma scan_Nil [simp]: "scan [] st = st"
  by (simp add: scan_def)

lemma scan_Cons: "scan (b # bs) st = scan bs (scan_byte b st)"
  by (simp add: scan_def)

lemma scan_append [simp]: "scan (xs @ ys) st = scan ys (scan xs st)"
  by (simp add: scan_def)

text \<open>A text after which the scanner is where it was, and within which the depth never falls below.\<close>

definition neutral :: "string \<Rightarrow> bool" where
  "neutral s \<longleftrightarrow>
     (\<forall>st. \<not> in_string st \<longrightarrow> \<not> escape st \<longrightarrow>
        (\<exists>started. scan s st = st\<lparr>json_started := started\<rparr> \<and> (json_started st \<longrightarrow> started)) \<and>
        (\<forall>p. prefix p s \<longrightarrow> brace_depth st \<le> brace_depth (scan p st)))"

lemma neutralD:
  assumes "neutral s" and "\<not> in_string st" and "\<not> escape st"
  obtains started where "scan s st = st\<lparr>json_started := started\<rparr>" and "json_started st \<longrightarrow> started"
  using assms by (auto simp: neutral_def)

lemma neutral_prefix:
  "neutral s \<Longrightarrow> \<not> in_string st \<Longrightarrow> \<not> escape st \<Longrightarrow> prefix p s \<Longrightarrow> brace_depth st \<le> brace_depth (scan p st)"
  by (auto simp: neutral_def)

lemma neutral_append:
  assumes "neutral s" and "neutral t"
  shows "neutral (s @ t)"
  unfolding neutral_def
proof (intro allI impI conjI)
  fix st :: scanner assume st: "\<not> in_string st" "\<not> escape st"
  obtain b where b: "scan s st = st\<lparr>json_started := b\<rparr>" "json_started st \<longrightarrow> b"
    using neutralD [OF assms(1) st] .
  obtain c where c: "scan t (scan s st) = (scan s st)\<lparr>json_started := c\<rparr>" "b \<longrightarrow> c"
    using neutralD [OF assms(2), of "scan s st"] b st by auto
  show "\<exists>started. scan (s @ t) st = st\<lparr>json_started := started\<rparr> \<and> (json_started st \<longrightarrow> started)"
    using b c by (intro exI [of _ c]) simp
  fix p assume "prefix p (s @ t)"
  then consider "prefix p s" | q where "p = s @ q" "prefix q t" by (auto simp: prefix_append)
  then show "brace_depth st \<le> brace_depth (scan p st)"
  proof cases
    case 1
    with neutral_prefix [OF assms(1) st] show ?thesis by blast
  next
    case (2 q)
    with neutral_prefix [OF assms(2), of "scan s st" q] b st show ?thesis by simp
  qed
qed

lemma neutral_Nil: "neutral []"
  by (simp add: neutral_def) (metis scanner.surjective scanner.update_convs(4))

definition structural :: "char set" where
  "structural = {CHR ''{'', CHR ''}'', CHR ''['', CHR '']'', CHR 0x22}"

lemma neutral_plain_char: "c \<notin> structural \<Longrightarrow> neutral [c]"
  unfolding neutral_def
  by (auto simp: structural_def scan_Cons scan_byte_def prefix_Cons)
     (metis scanner.surjective scanner.update_convs(4))+

lemma neutral_plain: "set s \<inter> structural = {} \<Longrightarrow> neutral s"
proof (induction s)
  case (Cons c s)
  with neutral_append [of "[c]" s] neutral_plain_char [of c] show ?case by simp
qed (rule neutral_Nil)

lemma neutral_cons:
  "c \<notin> structural \<Longrightarrow> neutral s \<Longrightarrow> neutral (c # s)"
  using neutral_append [of "[c]" s] neutral_plain_char [of c] by simp

text \<open>The inside of a string literal does not move the scanner.\<close>

definition quiet :: "string \<Rightarrow> bool" where
  "quiet s \<longleftrightarrow>
     (\<forall>st. in_string st \<longrightarrow> \<not> escape st \<longrightarrow>
        scan s st = st \<and> (\<forall>p. prefix p s \<longrightarrow> brace_depth (scan p st) = brace_depth st))"

lemma quiet_append:
  assumes "quiet s" and "quiet t"
  shows "quiet (s @ t)"
  unfolding quiet_def
proof (intro allI impI conjI)
  fix st :: scanner assume st: "in_string st" "\<not> escape st"
  then have s: "scan s st = st" using assms(1) by (simp add: quiet_def)
  with st assms(2) show "scan (s @ t) st = st" by (simp add: quiet_def)
  fix p assume "prefix p (s @ t)"
  then consider "prefix p s" | q where "p = s @ q" "prefix q t" by (auto simp: prefix_append)
  then show "brace_depth (scan p st) = brace_depth st"
    using st s assms by cases (auto simp: quiet_def)
qed

lemma quiet_concat: "\<forall>s \<in> set ss. quiet s \<Longrightarrow> quiet (concat ss)"
  by (induction ss) (auto simp: quiet_append, simp add: quiet_def)

lemma quiet_plain: "c \<noteq> CHR 0x22 \<Longrightarrow> c \<noteq> CHR 0x5C \<Longrightarrow> quiet [c]"
  by (auto simp: quiet_def scan_Cons scan_byte_def prefix_Cons)

lemma quiet_escaped: "quiet [CHR 0x5C, c]"
proof -
  have "st\<lparr>escape := False\<rparr> = st" if "\<not> escape st" for st :: scanner using that by (cases st) simp
  then show ?thesis by (auto simp: quiet_def scan_Cons scan_byte_def prefix_Cons)
qed

lemma hex_digit_plain: "n < 16 \<Longrightarrow> hex_digit n \<noteq> CHR 0x22 \<and> hex_digit n \<noteq> CHR 0x5C"
proof -
  assume "n < 16"
  then have "hex_digit n \<in> set ''0123456789abcdef''" unfolding hex_digit_def by (intro nth_mem) simp
  then show ?thesis by auto
qed

lemma quiet_render_char: "quiet (render_char c)"
proof -
  let ?n = "of_char c :: nat"
  consider "c = CHR 0x22 \<or> c = CHR 0x5C" | "c \<noteq> CHR 0x22" "c \<noteq> CHR 0x5C" "?n < 32" | "c \<noteq> CHR 0x22" "c \<noteq> CHR 0x5C" "\<not> ?n < 32"
    by blast
  then show ?thesis
  proof cases
    case 1
    then show ?thesis by (auto simp: render_char_def Let_def quiet_escaped)
  next
    case 2
    have "quiet ([CHR 0x5C, CHR ''u''] @ [CHR ''0''] @ [CHR ''0''] @ [hex_digit (?n div 16)] @ [hex_digit (?n mod 16)])"
      using 2 hex_digit_plain [of "?n div 16"] hex_digit_plain [of "?n mod 16"]
      by (intro quiet_append quiet_escaped quiet_plain) auto
    with 2 show ?thesis by (simp add: render_char_def Let_def)
  next
    case 3
    then show ?thesis by (simp add: render_char_def quiet_plain)
  qed
qed

lemma neutral_render_string: "neutral (render_string s)"
  unfolding neutral_def
proof (intro allI impI conjI)
  let ?body = "concat (map render_char s)"
  have q: "quiet ?body" by (rule quiet_concat) (simp add: quiet_render_char)
  fix st :: scanner assume st: "\<not> in_string st" "\<not> escape st"
  let ?in = "st\<lparr>in_string := True\<rparr>"
  have o: "scan_byte (CHR 0x22) st = ?in" using st by (simp add: scan_byte_def)
  have b: "scan ?body ?in = ?in" "prefix r ?body \<Longrightarrow> brace_depth (scan r ?in) = brace_depth st" for r
    using q st by (auto simp: quiet_def)
  have c: "scan_byte (CHR 0x22) ?in = st" using st by (cases st) (simp add: scan_byte_def)
  have all: "scan (render_string s) st = st"
    by (simp add: render_string_def scan_Cons o b(1) c)
  show "\<exists>started. scan (render_string s) st = st\<lparr>json_started := started\<rparr> \<and> (json_started st \<longrightarrow> started)"
    by (rule exI [of _ "json_started st"]) (simp add: all)
  fix p assume "prefix p (render_string s)"
  then consider "p = []" | "p = render_string s" | r where "p = CHR 0x22 # r" "prefix r ?body"
    by (auto simp: render_string_def prefix_Cons prefix_append)
  then show "brace_depth st \<le> brace_depth (scan p st)"
    by cases (auto simp: all scan_Cons o b(2))
qed

text \<open>Brackets around a neutral text.\<close>

definition opener :: "char \<Rightarrow> bool" where "opener c \<longleftrightarrow> c = CHR ''{'' \<or> c = CHR ''[''"
definition closer :: "char \<Rightarrow> bool" where "closer c \<longleftrightarrow> c = CHR ''}'' \<or> c = CHR '']''"

lemma bracketed:
  assumes "neutral s" and "opener o'" and "closer c" and st: "\<not> in_string st" "\<not> escape st"
  shows "scan (o' # s @ [c]) st = st\<lparr>json_started := True\<rparr>"
    and "strict_prefix p (o' # s @ [c]) \<Longrightarrow> p \<noteq> [] \<Longrightarrow> brace_depth st < brace_depth (scan p st)"
proof -
  let ?o = "st\<lparr>brace_depth := brace_depth st + 1, json_started := True\<rparr>"
  have o: "scan_byte o' st = ?o" using assms(2) st by (auto simp: scan_byte_def opener_def)
  obtain b where b: "scan s ?o = ?o\<lparr>json_started := b\<rparr>" "json_started ?o \<longrightarrow> b"
    using neutralD [OF assms(1), of ?o] st by auto
  then have s: "scan s ?o = ?o" by simp
  have c: "scan_byte c ?o = st\<lparr>json_started := True\<rparr>"
    using assms(3) st by (cases st) (auto simp: scan_byte_def closer_def)
  show "scan (o' # s @ [c]) st = st\<lparr>json_started := True\<rparr>" by (simp add: scan_Cons o s c)
  assume "strict_prefix p (o' # s @ [c])" "p \<noteq> []"
  then obtain r where r: "p = o' # r" "prefix r s"
    by (cases p) (auto simp: strict_prefix_def prefix_append prefix_Cons)
  have "brace_depth ?o \<le> brace_depth (scan r ?o)"
    by (rule neutral_prefix [OF assms(1) _ _ r(2)]) (use st in auto)
  with r o show "brace_depth st < brace_depth (scan p st)" by (simp add: scan_Cons)
qed

lemma neutral_bracketed:
  assumes "neutral s" and "opener o'" and "closer c"
  shows "neutral (o' # s @ [c])"
  unfolding neutral_def
proof (intro allI impI conjI)
  fix st :: scanner assume st: "\<not> in_string st" "\<not> escape st"
  note b = bracketed [OF assms st]
  show "\<exists>started. scan (o' # s @ [c]) st = st\<lparr>json_started := started\<rparr> \<and> (json_started st \<longrightarrow> started)"
    using b(1) by blast
  fix p assume "prefix p (o' # s @ [c])"
  then consider "p = []" | "p = o' # s @ [c]" | "strict_prefix p (o' # s @ [c])" "p \<noteq> []"
    by (auto simp: strict_prefix_def)
  then show "brace_depth st \<le> brace_depth (scan p st)"
    by cases (use b in \<open>auto intro: order_less_imp_le\<close>)
qed

text \<open>Numbers are written without structural characters.\<close>

definition plain_numbers :: "('n \<Rightarrow> string) \<Rightarrow> bool" where
  "plain_numbers num \<longleftrightarrow> (\<forall>n. set (num n) \<inter> structural = {})"

lemma neutral_word: "list_all (\<lambda>c. c \<notin> structural) s \<Longrightarrow> neutral s"
  by (rule neutral_plain) (auto simp: list_all_iff)

lemma neutral_render_all:
  "plain_numbers num \<Longrightarrow> neutral (render num v)"
  "plain_numbers num \<Longrightarrow> neutral (render_items num xs)"
  "plain_numbers num \<Longrightarrow> neutral (render_members num kvs)"
proof (induction num v and num xs and num kvs rule: render_render_items_render_members.induct)
  case (3 num n)
  then show ?case by (simp add: plain_numbers_def neutral_plain)
next
  case (5 num xs)
  then show ?case by (auto intro: neutral_bracketed simp: opener_def closer_def)
next
  case (6 num kvs)
  then show ?case by (auto intro: neutral_bracketed simp: opener_def closer_def)
next
  case (8 num x xs)
  then show ?case
    by (auto intro!: neutral_append neutral_cons simp: structural_def)
next
  case (10 num k v kvs)
  then show ?case
    by (auto intro!: neutral_append neutral_cons neutral_render_string simp: structural_def)
qed (auto intro!: neutral_word neutral_Nil neutral_render_string simp: structural_def)

definition is_container :: "'n json \<Rightarrow> bool" where
  "is_container v \<longleftrightarrow> as_array v \<noteq> None \<or> as_object v \<noteq> None"

lemma render_container:
  assumes "is_container v" and "plain_numbers num"
  obtains s o' c where "render num v = o' # s @ [c]" and "neutral s" and "opener o'" and "closer c"
  using assms neutral_render_all [of num]
  by (cases v) (auto simp: is_container_def opener_def closer_def)

lemma scan_container:
  assumes "is_container v" and "plain_numbers num"
  shows "json_complete (scan (render num v) scanner_init)"
    and "strict_prefix p (render num v) \<Longrightarrow> \<not> json_complete (scan p scanner_init)"
proof -
  obtain s o' c where r: "render num v = o' # s @ [c]" "neutral s" "opener o'" "closer c"
    using render_container [OF assms] .
  have st: "\<not> in_string scanner_init" "\<not> escape scanner_init" by (simp_all add: scanner_init_def)
  note b = bracketed [OF r(2,3,4) st]
  show "json_complete (scan (render num v) scanner_init)"
    unfolding r(1) b(1) by (simp add: json_complete_def scanner_init_def)
  assume p: "strict_prefix p (render num v)"
  show "\<not> json_complete (scan p scanner_init)"
  proof (cases "p = []")
    case False
    with b(2) p r(1) have "0 < brace_depth (scan p scanner_init)" by (simp add: scanner_init_def)
    then show ?thesis by (simp add: json_complete_def)
  qed (simp add: json_complete_def scanner_init_def)
qed

lemma read_loop_chunks:
  assumes "is_container v" and "plain_numbers num"
    and "length (render num v) \<le> MAX_REQUEST_SIZE"
    and "payload @ concat chunks = render num v" and "\<forall>c \<in> set chunks. c \<noteq> []" and "chunks \<noteq> []"
  shows "read_loop (scan payload scanner_init) payload (map Data chunks @ evs) = Some (Inr (render num v))"
  using assms(4-6)
proof (induction chunks arbitrary: payload)
  case (Cons c chunks)
  have len: "\<not> MAX_REQUEST_SIZE < length (payload @ c)"
    using Cons.prems(1) assms(3) by (metis append_assoc concat.simps(2) le_trans length_append le_add1 not_le)
  have sc: "scan c (scan payload scanner_init) = scan (payload @ c) scanner_init" by simp
  show ?case
  proof (cases "chunks = []")
    case True
    with Cons.prems have "payload @ c = render num v" by simp
    with Cons.prems len scan_container(1) [OF assms(1,2)] True show ?thesis by (simp flip: scan_append)
  next
    case False
    then obtain d ds where "chunks = d # ds" by (cases chunks) auto
    with Cons.prems have "render num v = (payload @ c) @ (d @ concat ds)" and "d \<noteq> []" by simp_all
    then have "strict_prefix (payload @ c) (render num v)" by (simp add: strict_prefix_def)
    then have nc: "\<not> json_complete (scan c (scan payload scanner_init))"
      using scan_container(2) [OF assms(1,2), of "payload @ c"] by simp
    with Cons.prems len False Cons.IH [of "payload @ c"] show ?thesis by (simp add: Let_def)
  qed
qed simp

section \<open>Properties\<close>

text \<open>On the text of a serialized array or object the scanner reports completeness after the last
  byte and after no proper prefix, whatever strings with quotes, backslashes or brackets it
  contains.\<close>

theorem scanner_finds_the_end:
  assumes "is_container v" and "plain_numbers num"
  shows "json_complete (scan (render num v) scanner_init) \<and>
     (\<forall>p. strict_prefix p (render num v) \<longrightarrow> \<not> json_complete (scan p scanner_init))"
  using scan_container [OF assms] by blast

definition sample_request :: "nat json" where
  "sample_request = JObj [(''m'', JStr ''a{b[c''), (''p'', JArr [JNum 1, JStr [CHR 0x22, CHR ''}'', CHR 0x5C]])]"

definition digit_string :: "nat \<Rightarrow> string" where
  "digit_string n = [if n = 1 then CHR ''1'' else CHR ''0'']"

theorem scanner_finds_the_end_witness:
  "json_complete (scan (render digit_string sample_request) scanner_init) \<and>
     \<not> json_complete (scan (butlast (render digit_string sample_request)) scanner_init)"
proof -
  have "json_complete (scan (render digit_string sample_request) scanner_init) \<and>
     (\<forall>p. strict_prefix p (render digit_string sample_request) \<longrightarrow> \<not> json_complete (scan p scanner_init))"
    by (rule scanner_finds_the_end)
       (simp_all add: sample_request_def is_container_def plain_numbers_def digit_string_def structural_def)
  moreover have "strict_prefix (butlast (render digit_string sample_request)) (render digit_string sample_request)"
    by (simp add: sample_request_def strict_prefix_def prefix_def butlast_append render_string_def)
  ultimately show ?thesis by blast
qed

text \<open>C17: A client that sends a serialized array or object of at most 1 MiB gets its whole text served,
  in however many reads it arrives: the loop ends with the last chunk, without waiting for a
  timeout, and what the stream delivers later is not part of the payload.\<close>

theorem request_reassembled:
  assumes "is_container v" and "plain_numbers num" and "length (render num v) \<le> MAX_REQUEST_SIZE"
    and "concat chunks = render num v" and "\<forall>c \<in> set chunks. c \<noteq> []"
  shows "read_loop scanner_init [] (map Data chunks @ evs) = Some (Inr (render num v))"
proof -
  have "chunks \<noteq> []"
    using assms(1,2,4) by (metis render_container concat.simps(1) list.distinct(1))
  with read_loop_chunks [OF assms(1,2,3), of "[]" chunks evs] assms(4,5) show ?thesis by simp
qed

theorem request_reassembled_witness:
  "read_loop scanner_init [] (map Data [''['', ''nul'', ''l]''] @ [Timed_Out :: unit read_event]) =
     Some (Inr (render digit_string (JArr [JNull])))"
  by (rule request_reassembled)
     (simp_all add: is_container_def plain_numbers_def digit_string_def structural_def MAX_REQUEST_SIZE_def)

end
