(* ===== verification/Rpc_Server.thy ===== *)
theory Rpc_Server
  imports Transition_System
begin

text \<open>
  \<open>src/workers/rpc/server.rs\<close>: the accept loop, the set of active connections and the drain on
  shutdown.  A connection is served by a task of its own; a second task, in the \<open>JoinSet\<close>, waits for
  it and removes it from the set.  The tasks run at any speed.  Task ids are not reused.  The drain ends
  when the \<open>JoinSet\<close> is empty, or after its timeout with \<open>JoinSet::shutdown\<close>, which aborts the
  watchers that are left; the connections they waited for go on.

  The lemmas show which connections are counted as active at every moment, that the drain ends, and
  that the server can stop with every connection served.
\<close>

section \<open>Active connections\<close>

record active_connections =
  ac_tasks :: "nat set"

definition active_new :: active_connections where
  "active_new = \<lparr>ac_tasks = {}\<rparr>"

definition active_add :: "nat \<Rightarrow> active_connections \<Rightarrow> active_connections" where
  "active_add i c = c\<lparr>ac_tasks := insert i (ac_tasks c)\<rparr>"

definition active_remove :: "nat \<Rightarrow> active_connections \<Rightarrow> active_connections" where
  "active_remove i c = c\<lparr>ac_tasks := ac_tasks c - {i}\<rparr>"

definition active_count :: "active_connections \<Rightarrow> nat" where
  "active_count c = card (ac_tasks c)"

section \<open>The server\<close>

text \<open>\<open>sv_serving\<close>: the connection tasks that run; \<open>sv_watchers\<close>: the entries of the \<open>JoinSet\<close> with
  the connection each waits for and whether it has finished.  History: \<open>sv_accepted\<close>, and the
  connections whose watcher was aborted before it had finished, \<open>sv_abandoned\<close>.\<close>

record rpc_server =
  sv_connections :: active_connections
  sv_serving :: "nat set"
  sv_watchers :: "(nat \<times> bool) list"
  sv_draining :: bool
  sv_stopped :: bool
  sv_accepted :: "nat list"
  sv_abandoned :: "nat set"

definition rpc_server_new :: rpc_server where
  "rpc_server_new = \<lparr>sv_connections = active_new, sv_serving = {}, sv_watchers = [], sv_draining = False,
     sv_stopped = False, sv_accepted = [], sv_abandoned = {}\<rparr>"

definition accept_connection :: "nat \<Rightarrow> rpc_server \<Rightarrow> rpc_server" where
  "accept_connection i y =
     y\<lparr>sv_connections := active_add i (sv_connections y), sv_serving := insert i (sv_serving y),
       sv_watchers := sv_watchers y @ [(i, False)], sv_accepted := sv_accepted y @ [i]\<rparr>"

definition watcher_finish :: "nat \<Rightarrow> rpc_server \<Rightarrow> rpc_server" where
  "watcher_finish i y =
     y\<lparr>sv_connections := active_remove i (sv_connections y),
       sv_watchers := map (\<lambda>(j, d). (j, d \<or> j = i)) (sv_watchers y)\<rparr>"

text \<open>\<open>task_set.shutdown()\<close> after the drain timeout, if a task is left.\<close>

definition force_close :: "rpc_server \<Rightarrow> rpc_server" where
  "force_close y =
     (if sv_watchers y = [] then y\<lparr>sv_stopped := True\<rparr>
      else y\<lparr>sv_watchers := [], sv_abandoned := {i. (i, False) \<in> set (sv_watchers y)}, sv_stopped := True\<rparr>)"

inductive server_step :: "rpc_server \<Rightarrow> rpc_server \<Rightarrow> bool" where
  accept: "\<not> sv_draining y \<Longrightarrow> i \<notin> set (sv_accepted y) \<Longrightarrow> server_step y (accept_connection i y)"
| served: "i \<in> sv_serving y \<Longrightarrow> server_step y (y\<lparr>sv_serving := sv_serving y - {i}\<rparr>)"
| watched: "(i, False) \<in> set (sv_watchers y) \<Longrightarrow> i \<notin> sv_serving y \<Longrightarrow> server_step y (watcher_finish i y)"
| shutdown: "\<not> sv_draining y \<Longrightarrow> server_step y (y\<lparr>sv_draining := True\<rparr>)"
| join_next: "sv_draining y \<Longrightarrow> \<not> sv_stopped y \<Longrightarrow> sv_watchers y = us @ (i, True) # vs \<Longrightarrow>
    server_step y (y\<lparr>sv_watchers := us @ vs\<rparr>)"
| drain_over: "sv_draining y \<Longrightarrow> \<not> sv_stopped y \<Longrightarrow> server_step y (force_close y)"

abbreviation server_reach :: "rpc_server \<Rightarrow> bool" where
  "server_reach \<equiv> reachable rpc_server_new server_step"

lemma server_start: "server_reach rpc_server_new"
  by (rule reachable.start)

lemma server_next: "server_reach y \<Longrightarrow> server_step y y' \<Longrightarrow> server_reach y'"
  by (rule reachable.step)

inductive_cases server_stepE: "server_step y y'"

section \<open>The drain loop\<close>

text \<open>What the \<open>select!\<close> of round \<open>i\<close> gives, with the milliseconds it took; a sleep takes at least its
  duration.  The loop returns the rounds, the tasks that remain and the time.\<close>

datatype drain_event = Joined nat | Slept nat

definition DRAIN_TIMEOUT_MS :: nat where "DRAIN_TIMEOUT_MS = 5000"

function drain :: "(nat \<Rightarrow> drain_event) \<Rightarrow> nat \<Rightarrow> nat \<Rightarrow> nat \<Rightarrow> nat \<times> nat \<times> nat" where
  "drain ev i remaining elapsed =
     (if remaining = 0 \<or> DRAIN_TIMEOUT_MS \<le> elapsed then (i, remaining, elapsed)
      else case ev i of
             Joined dt \<Rightarrow> drain ev (Suc i) (remaining - 1) (elapsed + dt)
           | Slept dt \<Rightarrow> drain ev (Suc i) remaining (elapsed + max 100 dt))"
  by pat_completeness auto
termination
  by (relation "measure (\<lambda>(ev, i, remaining, elapsed). remaining + (DRAIN_TIMEOUT_MS - elapsed))") auto

declare drain.simps [simp del]

section \<open>Lemmas\<close>

definition server_inv :: "rpc_server \<Rightarrow> bool" where
  "server_inv y \<longleftrightarrow>
     ac_tasks (sv_connections y) = {i. (i, False) \<in> set (sv_watchers y)} \<union> sv_abandoned y \<and>
     (if sv_stopped y then sv_draining y \<and> sv_watchers y = [] else sv_abandoned y = {}) \<and>
     sv_serving y \<subseteq> ac_tasks (sv_connections y) \<and>
     distinct (map fst (sv_watchers y)) \<and> distinct (sv_accepted y) \<and>
     fst ` set (sv_watchers y) \<union> sv_abandoned y \<subseteq> set (sv_accepted y) \<and>
     (\<not> sv_draining y \<longrightarrow> map fst (sv_watchers y) = sv_accepted y)"

lemma server_inv_serving: "server_inv y \<Longrightarrow> sv_serving y \<subseteq> set (sv_accepted y)"
  by (force simp: server_inv_def)

lemma server_inv_accept:
  assumes "server_inv y" and "\<not> sv_draining y" and "i \<notin> set (sv_accepted y)"
  shows "server_inv (accept_connection i y)"
  using assms by (auto simp: server_inv_def accept_connection_def active_add_def)

lemma finished_watchers:
  "map fst (map (\<lambda>(j, d). (j, d \<or> j = i)) ws) = map fst ws"
  "fst ` set (map (\<lambda>(j, d). (j, d \<or> j = i)) ws) = fst ` set ws"
  "{j. (j, False) \<in> set (map (\<lambda>(j, d). (j, d \<or> j = i)) ws)} = {j. (j, False) \<in> set ws} - {i}"
  by (induction ws) auto

lemma server_inv_finish:
  assumes "server_inv y" and "i \<notin> sv_serving y" and "(i, False) \<in> set (sv_watchers y)"
  shows "server_inv (watcher_finish i y)"
proof -
  define ws' where "ws' = map (\<lambda>(j, d). (j, d \<or> j = i)) (sv_watchers y)"
  have "map fst ws' = map fst (sv_watchers y)" "fst ` set ws' = fst ` set (sv_watchers y)"
    "{j. (j, False) \<in> set ws'} = {j. (j, False) \<in> set (sv_watchers y)} - {i}"
    "ws' = [] \<longleftrightarrow> sv_watchers y = []"
    by (simp_all only: ws'_def finished_watchers map_is_Nil_conv)
  with assms show ?thesis
    by (auto simp: server_inv_def watcher_finish_def active_remove_def simp flip: ws'_def)
qed

lemma server_inv_step:
  assumes "server_inv y" and "server_step y y'"
  shows "server_inv y'"
  using assms(2)
proof (rule server_stepE)
  fix i assume "y' = accept_connection i y" "\<not> sv_draining y" "i \<notin> set (sv_accepted y)"
  with assms(1) show ?thesis by (simp add: server_inv_accept)
next
  fix i assume "y' = watcher_finish i y" "i \<notin> sv_serving y" "(i, False) \<in> set (sv_watchers y)"
  with assms(1) show ?thesis by (simp add: server_inv_finish)
qed (use assms(1) in \<open>auto simp: server_inv_def force_close_def split: if_splits\<close>)

text \<open>What is left until the server has stopped: the shutdown, the end of the drain, the connections that are served, the
  watchers that have not finished and the entries to join.\<close>

definition server_left :: "rpc_server \<Rightarrow> nat" where
  "server_left y = (if sv_draining y then 0 else 1) + (if sv_stopped y then 0 else 1) + card (sv_serving y)
     + length (filter (\<lambda>(i, finished). \<not> finished) (sv_watchers y)) + length (sv_watchers y)"

lemma length_filter_finish:
  "(i, False) \<in> set ws \<Longrightarrow>
     length (filter (\<lambda>(j, d). \<not> d) (map (\<lambda>(j, d). (j, d \<or> j = i)) ws)) < length (filter (\<lambda>(j, d). \<not> d) ws)"
proof (induction ws)
  case (Cons w ws)
  obtain j d where w: "w = (j, d)" by (cases w)
  have le: "length (filter (\<lambda>(j, d). \<not> d) (map (\<lambda>(j, d). (j, d \<or> j = i)) vs)) \<le> length (filter (\<lambda>(j, d). \<not> d) vs)"
    for vs by (induction vs) (auto intro: le_SucI)
  from Cons w le [of ws] show ?case by (cases "j = i"; cases d) (auto simp: less_Suc_eq_le)
qed simp

lemma server_left_step:
  assumes inv: "server_inv y" and "0 < server_left y"
  shows "\<exists>y'. server_step y y' \<and> server_left y' < server_left y \<and> sv_accepted y' = sv_accepted y \<and>
     sv_abandoned y' = sv_abandoned y"
proof -
  have fin: "finite (sv_serving y)" by (rule finite_subset [OF server_inv_serving [OF inv]]) simp
  consider (serving) i where "i \<in> sv_serving y"
    | (watching) i where "sv_serving y = {}" "(i, False) \<in> set (sv_watchers y)"
    | (idle) "sv_serving y = {}" "\<forall>(i, d) \<in> set (sv_watchers y). d" "\<not> sv_draining y"
    | (joining) w ws where "sv_watchers y = w # ws" "snd w" "sv_draining y"
    | (over) "sv_watchers y = []" "sv_draining y" "\<not> sv_stopped y"
  proof (cases "sv_serving y = {} \<and> (\<forall>(i, d) \<in> set (sv_watchers y). d)")
    case True
    then have "filter (\<lambda>(i, d). \<not> d) (sv_watchers y) = []" by (simp add: filter_empty_conv case_prod_unfold)
    with True assms(2) idle joining over show ?thesis
      by (cases "sv_watchers y"; cases "sv_draining y"; cases "sv_stopped y") (auto simp: server_left_def case_prod_unfold)
  next
    case False
    then have "sv_serving y \<noteq> {} \<or> (\<exists>i. (i, False) \<in> set (sv_watchers y))" by auto
    with serving watching show ?thesis by (cases "sv_serving y = {}") auto
  qed
  then show ?thesis
  proof cases
    case serving
    with fin have "card (sv_serving y - {i}) < card (sv_serving y)" by (intro card_Diff1_less)
    moreover from serving have "server_step y (y\<lparr>sv_serving := sv_serving y - {i}\<rparr>)" by (rule server_step.served)
    ultimately show ?thesis by (intro exI conjI) (assumption, simp_all add: server_left_def)
  next
    case watching
    then have "server_step y (watcher_finish i y)" by (intro server_step.watched) auto
    with length_filter_finish [OF watching(2)] show ?thesis
      by (intro exI conjI) (assumption, simp_all add: server_left_def watcher_finish_def)
  next
    case idle
    then have "server_step y (y\<lparr>sv_draining := True\<rparr>)" by (intro server_step.shutdown)
    with idle show ?thesis by (intro exI conjI) (assumption, simp_all add: server_left_def)
  next
    case joining
    with inv have "\<not> sv_stopped y" by (auto simp: server_inv_def)
    with joining have "server_step y (y\<lparr>sv_watchers := [] @ ws\<rparr>)"
      by (intro server_step.join_next [of _ _ "fst w"]) (auto simp: prod_eq_iff)
    with joining show ?thesis by (intro exI conjI) (assumption, auto simp: server_left_def)
  next
    case over
    then have "server_step y (force_close y)" by (intro server_step.drain_over)
    with over show ?thesis by (intro exI conjI) (assumption, simp_all add: server_left_def force_close_def)
  qed
qed

interpretation server: draining_system rpc_server_new server_step server_inv server_step server_left
    "\<lambda>y y'. sv_accepted y' = sv_accepted y \<and> sv_abandoned y' = sv_abandoned y"
proof unfold_locales
  show "server_inv rpc_server_new" by (simp add: server_inv_def rpc_server_new_def active_new_def)
qed (use server_inv_step server_left_step in auto)

lemma drain_bound:
  assumes "drain ev i remaining elapsed = (j, r, t)"
  shows "r \<le> remaining \<and> (r = 0 \<or> DRAIN_TIMEOUT_MS \<le> t) \<and>
     j \<le> i + remaining + (DRAIN_TIMEOUT_MS - elapsed + 99) div 100"
  using assms
proof (induction ev i remaining elapsed rule: drain.induct)
  case (1 ev i remaining elapsed)
  show ?case
  proof (cases "remaining = 0 \<or> DRAIN_TIMEOUT_MS \<le> elapsed")
    case True
    with 1(3) show ?thesis by (auto simp: drain.simps [of ev i])
  next
    case False
    show ?thesis
    proof (cases "ev i")
      case (Joined dt)
      with False 1(3) have "drain ev (Suc i) (remaining - 1) (elapsed + dt) = (j, r, t)"
        by (simp add: drain.simps [of ev i])
      moreover have "(DRAIN_TIMEOUT_MS - (elapsed + dt) + 99) div 100 \<le> (DRAIN_TIMEOUT_MS - elapsed + 99) div 100"
        by (intro div_le_mono) simp
      ultimately show ?thesis using 1(1) [OF False Joined] False by auto
    next
      case (Slept dt)
      with False 1(3) have d: "drain ev (Suc i) remaining (elapsed + max 100 dt) = (j, r, t)"
        by (simp add: drain.simps [of ev i])
      have "DRAIN_TIMEOUT_MS - (elapsed + max 100 dt) + 99 + 100 \<le> DRAIN_TIMEOUT_MS - elapsed + 99 \<or>
          DRAIN_TIMEOUT_MS - (elapsed + max 100 dt) = 0"
        by linarith
      then have "Suc ((DRAIN_TIMEOUT_MS - (elapsed + max 100 dt) + 99) div 100) \<le> (DRAIN_TIMEOUT_MS - elapsed + 99) div 100"
      proof
        assume "DRAIN_TIMEOUT_MS - (elapsed + max 100 dt) + 99 + 100 \<le> DRAIN_TIMEOUT_MS - elapsed + 99"
        from div_le_mono [OF this, of 100] show ?thesis by (simp only: div_add_self2)
      next
        assume "DRAIN_TIMEOUT_MS - (elapsed + max 100 dt) = 0"
        moreover have "0 < DRAIN_TIMEOUT_MS - elapsed" using False by simp
        then have "100 \<le> DRAIN_TIMEOUT_MS - elapsed + 99" by linarith
        from div_le_mono [OF this, of 100] have "1 \<le> (DRAIN_TIMEOUT_MS - elapsed + 99) div 100" by simp
        ultimately show ?thesis by simp
      qed
      with 1(2) [OF False Slept d] show ?thesis by linarith
    qed
  qed
qed

section \<open>Properties\<close>

text \<open>At every moment the connections counted as active are those whose watcher has not finished and
  those whose watcher was aborted, which include all that are being served; until the shutdown every
  connection ever accepted keeps an entry in the \<open>JoinSet\<close>, finished or not.\<close>

theorem active_connections_tracked:
  assumes "server_reach y"
  shows "ac_tasks (sv_connections y) = {i. (i, False) \<in> set (sv_watchers y)} \<union> sv_abandoned y \<and>
     sv_serving y \<subseteq> ac_tasks (sv_connections y) \<and>
     (\<not> sv_draining y \<longrightarrow> length (sv_watchers y) = length (sv_accepted y))"
  using server.inv_reachable [OF assms] unfolding server_inv_def by (metis length_map)

theorem active_connections_tracked_witness:
  "ac_tasks (sv_connections (accept_connection 1 rpc_server_new)) = {1}"
proof -
  have "server_reach (accept_connection 1 rpc_server_new)"
    by (rule server_next [OF server_start server_step.accept])
       (simp_all add: rpc_server_new_def)
  from active_connections_tracked [OF this] show ?thesis
    by (simp add: accept_connection_def rpc_server_new_def)
qed

text \<open>The end of the drain closes no connection: the tasks that serve them go on, and the set of active
  connections keeps them for good, since their watchers are gone.\<close>

theorem force_close_keeps_connections:
  assumes "server_reach y"
  shows "sv_serving (force_close y) = sv_serving y \<and> sv_watchers (force_close y) = [] \<and>
     sv_serving y \<subseteq> ac_tasks (sv_connections (force_close y))"
  using server.inv_reachable [OF assms] by (auto simp: force_close_def server_inv_def)

theorem force_close_keeps_connections_witness:
  "sv_serving (force_close (accept_connection 1 rpc_server_new)) = {1}"
proof -
  have "server_reach (accept_connection 1 rpc_server_new)"
    by (rule server_next [OF server_start server_step.accept]) (simp_all add: rpc_server_new_def)
  from force_close_keeps_connections [OF this] show ?thesis
    by (simp add: accept_connection_def rpc_server_new_def)
qed

text \<open>C36: The drain loop ends whatever the tasks do, after at most one round per task and fifty sleeps,
  with every task joined or the five seconds over.\<close>

theorem drain_terminates:
  "\<exists>rounds remaining elapsed. drain ev 0 tasks 0 = (rounds, remaining, elapsed) \<and>
     rounds \<le> tasks + 50 \<and> remaining \<le> tasks \<and> (remaining = 0 \<or> 5000 \<le> elapsed)"
proof -
  obtain j r t where d: "drain ev 0 tasks 0 = (j, r, t)" by (cases "drain ev 0 tasks 0")
  from drain_bound [OF d] d show ?thesis by (simp add: DRAIN_TIMEOUT_MS_def)
qed

text \<open>C40: From every reachable state the server can stop without accepting another connection and without
  abandoning one more: every connection is served to its end, the \<open>JoinSet\<close> is empty, and the only
  connections still counted as active are those whose watcher a drain timeout has already aborted.\<close>

theorem server_can_stop:
  assumes "server_reach y"
  shows "\<exists>y'. server_step\<^sup>*\<^sup>* y y' \<and> sv_accepted y' = sv_accepted y \<and> sv_stopped y' \<and>
     sv_serving y' = {} \<and> sv_watchers y' = [] \<and> ac_tasks (sv_connections y') = sv_abandoned y \<and>
     (\<not> sv_stopped y \<longrightarrow> active_count (sv_connections y') = 0)"
proof -
  obtain y' where y': "server_step\<^sup>*\<^sup>* y y'" "server_left y' = 0" "sv_accepted y' = sv_accepted y"
    "sv_abandoned y' = sv_abandoned y" "server_inv y'"
    using server.drains [OF assms] by blast
  then have w: "sv_watchers y' = []" "sv_stopped y'" by (auto simp: server_left_def split: if_splits)
  with y'(4,5) have "ac_tasks (sv_connections y') = sv_abandoned y" by (simp add: server_inv_def)
  moreover have "finite (sv_serving y')" by (rule finite_subset [OF server_inv_serving [OF y'(5)]]) simp
  with y'(2) have "sv_serving y' = {}" by (simp add: server_left_def)
  moreover have "\<not> sv_stopped y \<Longrightarrow> sv_abandoned y = {}"
    using server.inv_reachable [OF assms] by (simp add: server_inv_def)
  ultimately show ?thesis using y' w by (intro exI [of _ y']) (auto simp: active_count_def)
qed

theorem server_can_stop_witness:
  "\<exists>y'. server_step\<^sup>*\<^sup>* (accept_connection 1 rpc_server_new) y' \<and> sv_accepted y' = [1] \<and> sv_stopped y' \<and>
     active_count (sv_connections y') = 0"
proof -
  have "server_reach (accept_connection 1 rpc_server_new)"
    by (rule server_next [OF server_start server_step.accept]) (simp_all add: rpc_server_new_def)
  from server_can_stop [OF this] show ?thesis by (auto simp: accept_connection_def rpc_server_new_def)
qed

end
