(* ===== verification/Rpc_Worker.thy ===== *)
theory Rpc_Worker
  imports Rpc_Server Config
begin

text \<open>
  \<open>src/workers/rpc/worker.rs\<close>: the worker that runs the RPC server in a thread of its own with a tokio
  runtime.  Building the runtime and binding the socket are parameters.

  The lemmas show how a failure of the thread is seen by the worker.
\<close>

section \<open>The thread\<close>

record ('rt, 'be, 'se) tokio_api =
  build_runtime :: "usize \<Rightarrow> usize \<Rightarrow> ('be + 'rt) outcome"
  bind_listener :: "'rt \<Rightarrow> string \<Rightarrow> 'se + unit"

definition rpc_bind_addr :: "config \<Rightarrow> string" where
  "rpc_bind_addr c = ''0.0.0.0:'' @ show_nat (unat (rpc_port (cfg_server c)))"

datatype ('be, 'se) thread_end = NoRuntime 'be | ServerError 'se | ServerStopped

text \<open>The closure of the thread, run until its server has got the shutdown signal.\<close>

definition runtime_thread :: "('rt, 'be, 'se) tokio_api \<Rightarrow> config \<Rightarrow> ('be, 'se) thread_end outcome" where
  "runtime_thread api c =
     map_outcome (\<lambda>r. case r of
         Inl e \<Rightarrow> NoRuntime e
       | Inr rt \<Rightarrow>
           (case bind_listener api rt (rpc_bind_addr c) of
              Inl e \<Rightarrow> ServerError e
            | Inr _ \<Rightarrow> ServerStopped))
       (build_runtime api (rpc_worker_threads (cfg_server c)) (rpc_max_blocking_threads (cfg_server c)))"

section \<open>The worker\<close>

datatype rpc_worker_log = StoppedGracefully | ThreadPanicked

text \<open>\<open>run\<close> after the program has gone offline: what it logs, and its result, which is always \<open>Ok\<close>.\<close>

definition rpc_worker_run :: "('rt, 'be, 'se) tokio_api \<Rightarrow> config \<Rightarrow> rpc_worker_log \<times> ('w + unit)" where
  "rpc_worker_run api c =
     (case runtime_thread api c of
        Ret _ \<Rightarrow> (StoppedGracefully, Inr ())
      | Panic \<Rightarrow> (ThreadPanicked, Inr ()))"

definition rpc_served :: "('rt, 'be, 'se) tokio_api \<Rightarrow> config \<Rightarrow> bool" where
  "rpc_served api c = (case runtime_thread api c of Ret ServerStopped \<Rightarrow> True | _ \<Rightarrow> False)"

section \<open>Properties\<close>

text \<open>Without a \<open>[server]\<close> section the configuration is as valid as with one, but it asks for no worker
  threads, which the runtime builder documents as a panic: the RPC server never listens, and the
  worker ends with \<open>Ok\<close> all the same.\<close>

theorem default_server_is_not_served:
  assumes "\<And>blocking. build_runtime api 0 blocking = Panic"
  shows "let c' = c\<lparr>cfg_server := server_default\<rparr> in
     (config_ok c' \<longleftrightarrow> config_ok c) \<and> \<not> rpc_served api c' \<and>
     rpc_worker_run api c' = (ThreadPanicked, Inr ())"
  using assms
  by (simp add: config_ok_def rpc_served_def rpc_worker_run_def runtime_thread_def server_default_def)

theorem default_server_is_not_served_witness:
  "\<not> rpc_served \<lparr>build_runtime = \<lambda>w b. if w = 0 \<or> b = 0 then Panic else Ret (Inr () :: unit + unit),
       bind_listener = \<lambda>rt addr. Inr () :: unit + unit\<rparr> (config_default\<lparr>cfg_server := server_default\<rparr>)"
proof -
  let ?api = "\<lparr>build_runtime = \<lambda>w b. if w = 0 \<or> b = 0 then Panic else Ret (Inr () :: unit + unit),
       bind_listener = \<lambda>rt addr. Inr () :: unit + unit\<rparr>"
  have "build_runtime ?api 0 b = Panic" for b by simp
  from default_server_is_not_served [of ?api, OF this, of config_default]
  show ?thesis unfolding Let_def by (elim conjE)
qed

end
