(* ===== verification/Rpc_Pending.thy ===== *)
theory Rpc_Pending
  imports Messages "HOL-Library.Multiset"
begin

text \<open>
  \<open>src/workers/rpc/request.rs\<close>, \<open>src/workers/rpc/cleanup.rs\<close> and \<open>PendingRequest\<close> of
  \<open>src/workers/rpc/types.rs\<close>: the table of pending requests, the bridge that waits for the answer of
  one of them and the clean-up of old ones.  A responder is a value of the type parameter \<open>'r\<close>;
  instants are nanoseconds.  The table is an association list in the order the \<open>HashMap\<close> iterates.
\<close>

section \<open>The table\<close>

record 'r pending_request =
  pr_correlation_id :: u64
  pr_created_at :: nat
  pr_respond_to :: 'r

definition pending_request_new :: "nat \<Rightarrow> u64 \<Rightarrow> 'r \<Rightarrow> 'r pending_request" where
  "pending_request_new now cid r =
     \<lparr>pr_correlation_id = cid, pr_created_at = now, pr_respond_to = r\<rparr>"

type_synonym 'r pending = "(u64 \<times> 'r pending_request) list"

definition pending_delete :: "u64 \<Rightarrow> 'r pending \<Rightarrow> 'r pending" where
  "pending_delete k m = filter (\<lambda>(k', _). k' \<noteq> k) m"

definition pending_insert :: "u64 \<Rightarrow> 'r pending_request \<Rightarrow> 'r pending \<Rightarrow> 'r pending" where
  "pending_insert k v m = (k, v) # pending_delete k m"

definition pending_remove :: "u64 \<Rightarrow> 'r pending \<Rightarrow> 'r pending_request option \<times> 'r pending" where
  "pending_remove k m = (map_of m k, pending_delete k m)"

interpretation pending: keyed_store map_of pending_insert "[]"
proof
  show "map_of (pending_insert k v s) k' = (if k' = k then Some v else map_of s k')" for k k' v and s :: "'a pending"
    by (induction s) (auto simp: pending_insert_def pending_delete_def)
qed simp

section \<open>The operations\<close>

record ('r, 'n) device_control_request =
  dcr_device_id :: string
  dcr_operation :: operation
  dcr_params :: "'n json"
  dcr_correlation_id :: u64
  dcr_respond_to :: 'r

text \<open>Registers the request and gives the message for the hub; \<open>ch\<close> is the new channel whose other end
  the spawned bridge waits on.\<close>

definition register_pending :: "nat \<Rightarrow> u64 \<Rightarrow> 'r \<Rightarrow> 'r pending \<Rightarrow> 'r pending" where
  "register_pending now cid r m = pending_insert cid (pending_request_new now cid r) m"

definition handle_device_control_request ::
  "nat \<Rightarrow> 'ch \<Rightarrow> ('r, 'n) device_control_request \<Rightarrow> 'r pending \<Rightarrow> ('n, 'ch) message \<times> 'r pending" where
  "handle_device_control_request now ch rq m =
     (let cid = dcr_correlation_id rq;
          m1 = register_pending now cid (dcr_respond_to rq) m
      in (DeviceControl (dcr_device_id rq) (dcr_operation rq) (dcr_params rq) cid (Some ch), m1))"

text \<open>The end of a bridge: the response, or none when it timed out.\<close>

definition bridge_end ::
  "u64 \<Rightarrow> 'n device_response_data option \<Rightarrow> 'r pending \<Rightarrow> ('r \<times> 'n device_response_data) list \<times> 'r pending" where
  "bridge_end cid response m =
     (let (r, m1) = pending_remove cid m in
      (case r of
         None \<Rightarrow> []
       | Some req \<Rightarrow>
           [(pr_respond_to req, case response of
               Some d \<Rightarrow> d | None \<Rightarrow> (False, JObj [], Some ''Request timed out''))], m1))"

definition CLEANUP_TIMEOUT :: nat where "CLEANUP_TIMEOUT = 35 * 10 ^ 9"

definition timed_out :: "nat \<Rightarrow> 'r pending \<Rightarrow> u64 list" where
  "timed_out now m = map fst (filter (\<lambda>(_, req). CLEANUP_TIMEOUT < now - pr_created_at req) m)"

fun cleanup_loop ::
  "u64 list \<Rightarrow> 'r pending \<Rightarrow> ('r \<times> 'n device_response_data) list \<times> 'r pending" where
  "cleanup_loop [] m = ([], m)"
| "cleanup_loop (k # ks) m =
     (let (r, m1) = pending_remove k m; (answers, m2) = cleanup_loop ks m1 in
      ((case r of
          None \<Rightarrow> []
        | Some req \<Rightarrow>
            [(pr_respond_to req, (False, JObj [], Some ''Request timed out during cleanup''))]) @ answers, m2))"

definition cleanup_timed_out_requests ::
  "nat \<Rightarrow> 'r pending \<Rightarrow> ('r \<times> 'n device_response_data) list \<times> 'r pending" where
  "cleanup_timed_out_requests now m = cleanup_loop (timed_out now m) m"

section \<open>The table in use\<close>

text \<open>The ids used, the responders registered and the answers given so far are history.\<close>

record ('r, 'n) pending_system =
  ps_pending :: "'r pending"
  ps_ids :: "u64 set"
  ps_registered :: "'r list"
  ps_answers :: "('r \<times> 'n device_response_data) list"

definition pending_system_new :: "('r, 'n) pending_system" where
  "pending_system_new = \<lparr>ps_pending = [], ps_ids = {}, ps_registered = [], ps_answers = []\<rparr>"

definition answer_with ::
  "('r \<times> 'n device_response_data) list \<times> 'r pending \<Rightarrow> ('r, 'n) pending_system \<Rightarrow> ('r, 'n) pending_system" where
  "answer_with am y = y\<lparr>ps_pending := snd am, ps_answers := ps_answers y @ fst am\<rparr>"

inductive pending_reach :: "('r, 'n) pending_system \<Rightarrow> bool" where
  new: "pending_reach pending_system_new"
| request: "pending_reach y \<Longrightarrow> cid \<notin> ps_ids y \<Longrightarrow>
    pending_reach (y\<lparr>ps_pending := register_pending now cid r (ps_pending y),
      ps_ids := insert cid (ps_ids y), ps_registered := ps_registered y @ [r]\<rparr>)"
| bridge: "pending_reach y \<Longrightarrow> pending_reach (answer_with (bridge_end cid response (ps_pending y)) y)"
| cleanup: "pending_reach y \<Longrightarrow> pending_reach (answer_with (cleanup_timed_out_requests now (ps_pending y)) y)"

section \<open>Lemmas\<close>

abbreviation responders :: "'r pending \<Rightarrow> 'r multiset" where
  "responders m \<equiv> mset (map (\<lambda>p. pr_respond_to (snd p)) m)"

lemma pending_delete_absent: "k \<notin> fst ` set m \<Longrightarrow> pending_delete k m = m"
  by (induction m) (auto simp: pending_delete_def)

lemma keys_pending_delete: "fst ` set (pending_delete k m) = fst ` set m - {k}"
  by (induction m) (auto simp: pending_delete_def)

lemma distinct_pending_delete: "distinct (map fst m) \<Longrightarrow> distinct (map fst (pending_delete k m))"
  by (auto simp: pending_delete_def distinct_map intro: inj_on_subset)

lemma pending_remove_accounts:
  assumes "distinct (map fst m)"
  shows "responders m = responders (pending_delete k m) +
    (case map_of m k of None \<Rightarrow> {#} | Some req \<Rightarrow> {#pr_respond_to req#})"
  using assms
proof (induction m)
  case (Cons p m)
  obtain k' req where p: "p = (k', req)" by (cases p)
  show ?case
  proof (cases "k' = k")
    case True
    with Cons.prems p have "pending_delete k m = m" by (intro pending_delete_absent) simp
    with True p show ?thesis by (simp add: pending_delete_def)
  next
    case False
    have "pending_delete k (p # m) = p # pending_delete k m" using False p by (simp add: pending_delete_def)
    with False p Cons show ?thesis by simp
  qed
qed (simp add: pending_delete_def)

lemma bridge_accounts:
  assumes "distinct (map fst m)"
  shows "responders m = responders (snd (bridge_end cid response m)) +
      mset (map fst (fst (bridge_end cid response m)))"
    and "distinct (map fst (snd (bridge_end cid response m)))"
    and "fst ` set (snd (bridge_end cid response m)) \<subseteq> fst ` set m"
  using pending_remove_accounts [OF assms, of cid] distinct_pending_delete [OF assms]
  by (auto simp: bridge_end_def pending_remove_def keys_pending_delete split: option.split)

lemma cleanup_loop_accounts:
  assumes "distinct (map fst m)"
  shows "responders m = responders (snd (cleanup_loop ks m)) + mset (map fst (fst (cleanup_loop ks m)))"
  using assms
proof (induction ks arbitrary: m)
  case (Cons k ks)
  from Cons.IH [OF distinct_pending_delete [OF Cons.prems, of k]] pending_remove_accounts [OF Cons.prems, of k]
  show ?case by (auto simp: pending_remove_def split_beta Let_def split: option.split)
qed simp

lemma cleanup_loop_rest: "snd (cleanup_loop ks m) = filter (\<lambda>(k, _). k \<notin> set ks) m"
proof (induction ks arbitrary: m)
  case (Cons k ks)
  then show ?case
    by (auto simp: pending_remove_def split_beta Let_def pending_delete_def intro: filter_cong)
qed simp

definition pending_system_inv :: "('r, 'n) pending_system \<Rightarrow> bool" where
  "pending_system_inv y \<longleftrightarrow>
     distinct (map fst (ps_pending y)) \<and> fst ` set (ps_pending y) \<subseteq> ps_ids y \<and>
     mset (ps_registered y) = responders (ps_pending y) + mset (map fst (ps_answers y))"

lemma pending_reach_inv: "pending_reach y \<Longrightarrow> pending_system_inv y"
proof (induction rule: pending_reach.induct)
  case new
  show ?case by (simp add: pending_system_inv_def pending_system_new_def)
next
  case (request y cid r now)
  then have "cid \<notin> fst ` set (ps_pending y)" by (auto simp: pending_system_inv_def)
  then have "register_pending now cid r (ps_pending y) = (cid, pending_request_new now cid r) # ps_pending y"
    by (simp add: register_pending_def pending_insert_def pending_delete_absent)
  with request \<open>cid \<notin> fst ` set (ps_pending y)\<close> show ?case
    by (auto simp: pending_system_inv_def pending_request_new_def)
next
  case (bridge y cid response)
  then show ?case
    using bridge_accounts [of "ps_pending y" cid response]
    by (auto simp: pending_system_inv_def answer_with_def)
next
  case (cleanup y now)
  then show ?case
    using cleanup_loop_accounts [of "ps_pending y" "timed_out now (ps_pending y)"]
    by (auto simp: pending_system_inv_def answer_with_def cleanup_timed_out_requests_def cleanup_loop_rest
        distinct_map intro: inj_on_subset)
qed

lemma cleanup_keeps:
  assumes "distinct (map fst m)"
  shows "snd (cleanup_timed_out_requests now m) = filter (\<lambda>(_, req). now - pr_created_at req \<le> CLEANUP_TIMEOUT) m"
proof -
  have "k \<in> set (timed_out now m) \<longleftrightarrow> CLEANUP_TIMEOUT < now - pr_created_at req" if "(k, req) \<in> set m" for k req
    using that assms by (force simp: timed_out_def dest: eq_key_imp_eq_value)
  then show ?thesis
    by (auto simp: cleanup_timed_out_requests_def cleanup_loop_rest not_less intro!: filter_cong)
qed

section \<open>Properties\<close>

text \<open>C24: While correlation ids are not reused, in every interleaving of requests, ends of bridges and
  clean-ups each responder that was registered is pending or has been answered, and never more than
  once in all; a clean-up leaves exactly the requests that are at most 35 seconds old.\<close>

theorem pending_answered_once:
  assumes "pending_reach y"
  shows "mset (ps_registered y) = responders (ps_pending y) + mset (map fst (ps_answers y)) \<and>
     distinct (map fst (ps_pending y)) \<and>
     snd (cleanup_timed_out_requests now (ps_pending y)) =
       filter (\<lambda>(_, req). now - pr_created_at req \<le> CLEANUP_TIMEOUT) (ps_pending y)"
  using pending_reach_inv [OF assms] cleanup_keeps by (auto simp: pending_system_inv_def)

definition sample_pending :: "(nat, unit) pending_system" where
  "sample_pending =
     \<lparr>ps_pending = [(2, pending_request_new 5 2 20), (1, pending_request_new 0 1 10)], ps_ids = {1, 2},
      ps_registered = [10, 20], ps_answers = []\<rparr>"

theorem pending_answered_once_witness:
  "mset (ps_registered sample_pending) =
       responders (ps_pending sample_pending) + mset (map fst (ps_answers sample_pending)) \<and>
     distinct (map fst (ps_pending sample_pending)) \<and>
     snd (cleanup_timed_out_requests (35 * 10 ^ 9 + 1) (ps_pending sample_pending)) =
       [(2, pending_request_new 5 2 20)]"
proof -
  have "pending_reach
      (pending_system_new\<lparr>ps_pending := [(1, pending_request_new 0 1 10)], ps_ids := {1}, ps_registered := [10]\<rparr>
        :: (nat, unit) pending_system)"
    using pending_reach.request [OF pending_reach.new, of 1 10 0]
    by (simp add: pending_system_new_def register_pending_def pending_insert_def pending_delete_def)
  from pending_reach.request [OF this, of 2 20 5]
  have "pending_reach sample_pending"
    by (simp add: pending_system_new_def register_pending_def pending_insert_def pending_delete_def
        sample_pending_def insert_commute)
  from pending_answered_once [OF this, of "35 * 10 ^ 9 + 1"] show ?thesis
    by (simp add: sample_pending_def pending_request_new_def CLEANUP_TIMEOUT_def)
qed

end
