(* ===== verification/Hub_Protection.thy ===== *)
theory Hub_Protection
  imports Messages Transition_System "HOL-Library.Multiset"
begin

text \<open>
  \<open>src/hub_protection.rs\<close>: sending to the hub through a pool of sixteen threads, with a timeout for
  the caller.  The calls, the queue and the threads are a transition system in which every caller
  may time out at any moment and the hub, which is not under \<open>src\<close>, may take any time to accept a
  message.

  The second part is the record of what a worker needs of the hub and of the channel on which it
  waits for an answer; the workers that send requests are functions of it.
\<close>

section \<open>The send pool\<close>

definition DEFAULT_HUB_SEND_TIMEOUT_MS :: nat where "DEFAULT_HUB_SEND_TIMEOUT_MS = 2000"
definition DEFAULT_HUB_SEND_TIMEOUT :: nat where "DEFAULT_HUB_SEND_TIMEOUT = DEFAULT_HUB_SEND_TIMEOUT_MS"
definition HUB_SEND_POOL_SIZE :: nat where "HUB_SEND_POOL_SIZE = 16"
definition HUB_SEND_QUEUE_CAPACITY :: nat where "HUB_SEND_QUEUE_CAPACITY = 512"

text \<open>A task of the queue: the message and the call that waits for its completion.\<close>

record 'm hub_send_task =
  ht_call :: nat
  ht_message :: 'm

text \<open>\<open>try_send\<close> on the bounded queue; the receiving threads never end, so a full queue is its only
  error.\<close>

definition pool_submit ::
  "'m hub_send_task \<Rightarrow> 'm hub_send_task list \<Rightarrow> (string + unit) \<times> 'm hub_send_task list" where
  "pool_submit t q =
     (if length q < HUB_SEND_QUEUE_CAPACITY then (Inr (), q @ [t])
      else (Inl ''Failed to submit Hub send task: Full(..)'', q))"

text \<open>The state of a call of \<open>send_to_hub_with_protection\<close>: it waits for the completion signal, the
  signal is in its channel, or it has returned.\<close>

datatype call_state = Waiting | Signalled | Returned "string + unit"

record 'm send_pool =
  sp_queue :: "'m hub_send_task list"
  sp_busy :: "'m hub_send_task list"
  sp_hub :: "'m hub_send_task list"
  sp_calls :: "nat \<rightharpoonup> call_state"

definition send_pool_new :: "'m send_pool" where
  "send_pool_new = \<lparr>sp_queue = [], sp_busy = [], sp_hub = [], sp_calls = Map.empty\<rparr>"

text \<open>The start of a call: the submission, with its error as the result.\<close>

definition call_submit :: "nat \<Rightarrow> 'm \<Rightarrow> 'm send_pool \<Rightarrow> 'm send_pool" where
  "call_submit k msg y =
     (case pool_submit \<lparr>ht_call = k, ht_message = msg\<rparr> (sp_queue y) of
        (Inr _, q) \<Rightarrow> y\<lparr>sp_queue := q, sp_calls := (sp_calls y)(k \<mapsto> Waiting)\<rparr>
      | (Inl e, q) \<Rightarrow>
          y\<lparr>sp_queue := q, sp_calls := (sp_calls y)(k \<mapsto> Returned (Inl (''Hub send queue full: '' @ e)))\<rparr>)"

text \<open>The end of a call: \<open>recv_timeout\<close> gives the signal when it is there.\<close>

definition call_return :: "call_state \<Rightarrow> (string + unit) option" where
  "call_return c =
     (case c of
        Waiting \<Rightarrow> Some (Inl ''Hub send timeout - system overloaded'')
      | Signalled \<Rightarrow> Some (Inr ())
      | Returned r \<Rightarrow> None)"

text \<open>A thread has sent the message of task \<open>i\<close>: the signal is lost when the caller is gone.\<close>

definition task_sent :: "nat \<Rightarrow> 'm send_pool \<Rightarrow> 'm send_pool" where
  "task_sent i y =
     (let t = sp_busy y ! i in
      y\<lparr>sp_busy := take i (sp_busy y) @ drop (Suc i) (sp_busy y),
        sp_hub := sp_hub y @ [t],
        sp_calls := (if sp_calls y (ht_call t) = Some Waiting
                     then (sp_calls y)(ht_call t \<mapsto> Signalled) else sp_calls y)\<rparr>)"

inductive pool_step :: "'m send_pool \<Rightarrow> 'm send_pool \<Rightarrow> bool" where
  call: "sp_calls y k = None \<Longrightarrow> pool_step y (call_submit k msg y)"
| take_task: "sp_queue y = t # q \<Longrightarrow> length (sp_busy y) < HUB_SEND_POOL_SIZE \<Longrightarrow>
    pool_step y (y\<lparr>sp_queue := q, sp_busy := sp_busy y @ [t]\<rparr>)"
| sent: "i < length (sp_busy y) \<Longrightarrow> pool_step y (task_sent i y)"
| return: "sp_calls y k = Some c \<Longrightarrow> call_return c = Some r \<Longrightarrow>
    pool_step y (y\<lparr>sp_calls := (sp_calls y)(k \<mapsto> Returned r)\<rparr>)"

abbreviation pool_reachable :: "'m send_pool \<Rightarrow> bool" where
  "pool_reachable \<equiv> reachable send_pool_new pool_step"

lemma pool_start: "pool_reachable send_pool_new"
  by (rule reachable.start)

lemma pool_next: "pool_reachable y \<Longrightarrow> pool_step y y' \<Longrightarrow> pool_reachable y'"
  by (rule reachable.step)

inductive_cases pool_stepE: "pool_step y y'"

section \<open>What the workers need of the hub\<close>

datatype recv_error = Recv_Timeout | Recv_Disconnected

text \<open>
  A world with the hub and the channels: a new answer channel, \<open>send_to_hub_with_protection\<close> with its
  timeout, \<open>recv_timeout\<close> on a channel (both timeouts in milliseconds), the correlation counter and
  the clocks (\<open>SystemTime::now()\<close> since the epoch and \<open>Instant::now()\<close>, in nanoseconds).
\<close>

record ('n, 'ch, 'w) hub_api =
  hub_channel :: "'w \<Rightarrow> 'ch \<times> 'w"
  hub_send :: "('n, 'ch) message \<Rightarrow> nat \<Rightarrow> 'w \<Rightarrow> (string + unit) \<times> 'w"
  hub_recv :: "'ch \<Rightarrow> nat \<Rightarrow> 'w \<Rightarrow> (recv_error + 'n device_response_data) \<times> 'w"
  hub_next_id :: "'w \<Rightarrow> u64 \<times> 'w"
  hub_system_now :: "'w \<Rightarrow> nat"
  hub_instant_now :: "'w \<Rightarrow> nat"

section \<open>Lemmas\<close>

abbreviation in_pool :: "'m send_pool \<Rightarrow> 'm hub_send_task list" where
  "in_pool y \<equiv> sp_hub y @ sp_busy y @ sp_queue y"

text \<open>A call whose task was accepted, and one that has the completion signal.\<close>

fun accepted :: "call_state option \<Rightarrow> bool" where
  "accepted None = False"
| "accepted (Some Waiting) = True"
| "accepted (Some Signalled) = True"
| "accepted (Some (Returned (Inr _))) = True"
| "accepted (Some (Returned (Inl e))) = (e = ''Hub send timeout - system overloaded'')"

fun confirmed :: "call_state option \<Rightarrow> bool" where
  "confirmed (Some Signalled) = True"
| "confirmed (Some (Returned (Inr _))) = True"
| "confirmed _ = False"

text \<open>Every accepted call has its task in exactly one of the three places, every other call has none,
  and a caller that got its signal has its message in the hub.\<close>

definition send_pool_inv :: "'m send_pool \<Rightarrow> bool" where
  "send_pool_inv y \<longleftrightarrow>
     length (sp_queue y) \<le> HUB_SEND_QUEUE_CAPACITY \<and> length (sp_busy y) \<le> HUB_SEND_POOL_SIZE \<and>
     distinct (map ht_call (in_pool y)) \<and>
     (\<forall>k. accepted (sp_calls y k) \<longleftrightarrow> k \<in> ht_call ` set (in_pool y)) \<and>
     (\<forall>k. confirmed (sp_calls y k) \<longrightarrow> k \<in> ht_call ` set (sp_hub y))"

lemma send_pool_invI:
  assumes "length (sp_queue y) \<le> HUB_SEND_QUEUE_CAPACITY" and "length (sp_busy y) \<le> HUB_SEND_POOL_SIZE"
    and "distinct (map ht_call (in_pool y))"
    and "\<And>k. accepted (sp_calls y k) \<longleftrightarrow> k \<in> ht_call ` set (in_pool y)"
    and "\<And>k. confirmed (sp_calls y k) \<Longrightarrow> k \<in> ht_call ` set (sp_hub y)"
  shows "send_pool_inv y"
  using assms unfolding send_pool_inv_def by blast

lemma send_pool_invD:
  assumes "send_pool_inv y"
  shows "length (sp_queue y) \<le> HUB_SEND_QUEUE_CAPACITY" and "length (sp_busy y) \<le> HUB_SEND_POOL_SIZE"
    and "distinct (map ht_call (in_pool y))"
    and "accepted (sp_calls y k) \<longleftrightarrow> k \<in> ht_call ` set (in_pool y)"
    and "confirmed (sp_calls y k) \<Longrightarrow> k \<in> ht_call ` set (sp_hub y)"
  using assms unfolding send_pool_inv_def by blast+

lemma send_pool_inv_call:
  assumes inv: "send_pool_inv y" and k: "sp_calls y k = None"
  shows "send_pool_inv (call_submit k msg y)"
proof -
  note D = send_pool_invD [OF inv]
  have new: "k \<notin> ht_call ` set (in_pool y)" using D(4) [of k] k by simp
  show ?thesis
  proof (cases "length (sp_queue y) < HUB_SEND_QUEUE_CAPACITY")
    case True
    then have y': "call_submit k msg y = y\<lparr>sp_queue := sp_queue y @ [\<lparr>ht_call = k, ht_message = msg\<rparr>],
        sp_calls := (sp_calls y)(k \<mapsto> Waiting)\<rparr>"
      by (simp add: call_submit_def pool_submit_def)
    show ?thesis unfolding y'
    proof (rule send_pool_invI)
      fix k' assume "confirmed (sp_calls (y\<lparr>sp_queue := sp_queue y @ [\<lparr>ht_call = k, ht_message = msg\<rparr>],
        sp_calls := (sp_calls y)(k \<mapsto> Waiting)\<rparr>) k')"
      then show "k' \<in> ht_call ` set (sp_hub (y\<lparr>sp_queue := sp_queue y @ [\<lparr>ht_call = k, ht_message = msg\<rparr>],
        sp_calls := (sp_calls y)(k \<mapsto> Waiting)\<rparr>))"
        using D(5) [of k'] by (cases "k' = k") simp_all
    qed (use D(1-4) True new in \<open>auto simp: image_Un\<close>)
  next
    case False
    let ?c = "Returned (Inl (''Hub send queue full: '' @ ''Failed to submit Hub send task: Full(..)''))"
    have y': "call_submit k msg y = y\<lparr>sp_queue := sp_queue y, sp_calls := (sp_calls y)(k \<mapsto> ?c)\<rparr>"
      using False by (simp add: call_submit_def pool_submit_def)
    show ?thesis unfolding y'
    proof (rule send_pool_invI)
      fix k'
      show "accepted (sp_calls (y\<lparr>sp_queue := sp_queue y, sp_calls := (sp_calls y)(k \<mapsto> ?c)\<rparr>) k') \<longleftrightarrow>
          k' \<in> ht_call ` set (in_pool (y\<lparr>sp_queue := sp_queue y, sp_calls := (sp_calls y)(k \<mapsto> ?c)\<rparr>))"
        using D(4) [of k'] new by (cases "k' = k") simp_all
    qed (use D(1-3,5) in \<open>auto split: if_splits\<close>)
  qed
qed

lemma send_pool_inv_take:
  assumes inv: "send_pool_inv y" and "sp_queue y = t # q" and "length (sp_busy y) < HUB_SEND_POOL_SIZE"
  shows "send_pool_inv (y\<lparr>sp_queue := q, sp_busy := sp_busy y @ [t]\<rparr>)"
  by (rule send_pool_invI) (use send_pool_invD [OF inv] assms(2,3) in \<open>simp_all add: Un_assoc\<close>)

lemma send_pool_inv_return:
  assumes inv: "send_pool_inv y" and k: "sp_calls y k = Some c" and r: "call_return c = Some r"
  shows "send_pool_inv (y\<lparr>sp_calls := (sp_calls y)(k \<mapsto> Returned r)\<rparr>)"
proof -
  note D = send_pool_invD [OF inv]
  have a: "accepted (Some (Returned r)) = accepted (Some c)" "confirmed (Some (Returned r)) = confirmed (Some c)"
    using r by (cases c; auto simp: call_return_def)+
  have "accepted (((sp_calls y)(k \<mapsto> Returned r)) k') = accepted (sp_calls y k')"
    "confirmed (((sp_calls y)(k \<mapsto> Returned r)) k') = confirmed (sp_calls y k')" for k'
    using a k by simp_all
  with D show ?thesis by (intro send_pool_invI) simp_all
qed

lemma send_pool_inv_sent:
  assumes inv: "send_pool_inv y" and i: "i < length (sp_busy y)"
  shows "send_pool_inv (task_sent i y)"
proof -
  note D = send_pool_invD [OF inv]
  define t where "t = sp_busy y ! i"
  obtain us vs where busy: "sp_busy y = us @ t # vs" "us = take i (sp_busy y)" "vs = drop (Suc i) (sp_busy y)"
    using id_take_nth_drop [OF i] by (simp add: t_def)
  define calls where "calls = (if sp_calls y (ht_call t) = Some Waiting
      then (sp_calls y)(ht_call t \<mapsto> Signalled) else sp_calls y)"
  have y': "task_sent i y = y\<lparr>sp_busy := us @ vs, sp_hub := sp_hub y @ [t], sp_calls := calls\<rparr>"
    by (simp add: task_sent_def busy(2,3) t_def [symmetric] Let_def calls_def)
  have calls: "accepted (calls k) = accepted (sp_calls y k)"
    "confirmed (calls k) \<Longrightarrow> confirmed (sp_calls y k) \<or> k = ht_call t" for k
    by (auto simp: calls_def split: if_splits)
  have places: "ht_call ` set (sp_hub y @ [t]) \<union> ht_call ` set (us @ vs) \<union> ht_call ` set (sp_queue y)
      = ht_call ` set (in_pool y)"
    by (auto simp: busy(1))
  show ?thesis unfolding y'
  proof (rule send_pool_invI)
    fix k
    show "accepted (sp_calls (y\<lparr>sp_busy := us @ vs, sp_hub := sp_hub y @ [t], sp_calls := calls\<rparr>) k) \<longleftrightarrow>
        k \<in> ht_call ` set (in_pool (y\<lparr>sp_busy := us @ vs, sp_hub := sp_hub y @ [t], sp_calls := calls\<rparr>))"
      using D(4) [of k] calls(1) [of k] places by (simp add: image_Un) blast
    show "k \<in> ht_call ` set (sp_hub (y\<lparr>sp_busy := us @ vs, sp_hub := sp_hub y @ [t], sp_calls := calls\<rparr>))"
      if "confirmed (sp_calls (y\<lparr>sp_busy := us @ vs, sp_hub := sp_hub y @ [t], sp_calls := calls\<rparr>) k)"
      using that calls(2) [of k] D(5) [of k] by auto
  qed (use D(1-3) in \<open>auto simp: busy(1)\<close>)
qed

text \<open>What is left to do of the accepted tasks: one of the queue has two steps to go.\<close>

definition tasks_left :: "'m send_pool \<Rightarrow> nat" where
  "tasks_left y = 2 * length (sp_queue y) + length (sp_busy y)"

lemma tasks_left_step:
  assumes "0 < tasks_left y"
  shows "\<exists>y'. pool_step y y' \<and> tasks_left y' < tasks_left y \<and> mset (in_pool y') = mset (in_pool y)"
proof (cases "sp_busy y")
  case Nil
  then obtain t q where q: "sp_queue y = t # q" using assms by (cases "sp_queue y") (auto simp: tasks_left_def)
  have "pool_step y (y\<lparr>sp_queue := q, sp_busy := sp_busy y @ [t]\<rparr>)"
    using q Nil by (intro pool_step.take_task) (simp_all add: HUB_SEND_POOL_SIZE_def)
  then show ?thesis using q Nil by (intro exI conjI) (assumption, simp_all add: tasks_left_def)
next
  case (Cons t b)
  have "pool_step y (task_sent 0 y)" using Cons by (intro pool_step.sent) simp
  then show ?thesis using Cons by (intro exI conjI) (assumption, simp_all add: tasks_left_def task_sent_def)
qed

interpretation sends: draining_system "send_pool_new :: 'm send_pool" pool_step send_pool_inv pool_step tasks_left
    "\<lambda>y y'. mset (in_pool y') = mset (in_pool y)"
proof unfold_locales
  show "send_pool_inv (send_pool_new :: 'm send_pool)" by (simp add: send_pool_inv_def send_pool_new_def)
  show "send_pool_inv y'" if "send_pool_inv y" "pool_step y y'" for y y' :: "'m send_pool"
    using that(2,1)
    by (auto elim!: pool_stepE intro: send_pool_inv_call send_pool_inv_take send_pool_inv_sent send_pool_inv_return)
qed (use tasks_left_step in auto)

section \<open>Properties\<close>

text \<open>C8: However calls, threads and timeouts interleave, the queue holds at most 512 tasks and at most
  sixteen threads are sending; a call that returned \<open>Ok\<close> has its message in the hub exactly once, one
  refused because the queue was full has it nowhere and never will, and one that timed out has it
  exactly once in the hub, with a thread or in the queue.\<close>

theorem send_exactly_once:
  assumes "pool_reachable y"
  shows "length (sp_queue y) \<le> HUB_SEND_QUEUE_CAPACITY \<and> length (sp_busy y) \<le> HUB_SEND_POOL_SIZE \<and>
     (\<forall>k. case sp_calls y k of
        Some (Returned (Inr _)) \<Rightarrow> count_list (map ht_call (sp_hub y)) k = 1
      | Some (Returned (Inl e)) \<Rightarrow>
          count_list (map ht_call (in_pool y)) k =
            (if e = ''Hub send timeout - system overloaded'' then 1 else 0)
      | _ \<Rightarrow> True)"
proof -
  note D = send_pool_invD [OF sends.inv_reachable [OF assms]]
  have one: "count_list (map ht_call xs) k = (if k \<in> ht_call ` set xs then 1 else 0)"
    if "distinct (map ht_call xs)" for k and xs :: "'a hub_send_task list"
    using that by (induction xs) auto
  have hub: "distinct (map ht_call (sp_hub y))" using D(3) by simp
  have "case sp_calls y k of
        Some (Returned (Inr _)) \<Rightarrow> count_list (map ht_call (sp_hub y)) k = 1
      | Some (Returned (Inl e)) \<Rightarrow>
          count_list (map ht_call (in_pool y)) k =
            (if e = ''Hub send timeout - system overloaded'' then 1 else 0)
      | _ \<Rightarrow> True" for k
    using D(4,5) [of k] one [OF hub, of k] one [OF D(3), of k]
    by (auto split: option.split call_state.split sum.split)
  with D(1,2) show ?thesis by blast
qed

definition ping_task :: "nat hub_send_task" where
  "ping_task = \<lparr>ht_call = 7, ht_message = 42\<rparr>"

lemma pool_reachable_sample:
  "pool_reachable \<lparr>sp_queue = [], sp_busy = [], sp_hub = [ping_task],
     sp_calls = [7 \<mapsto> Returned (Inr ())]\<rparr>"
proof -
  have "pool_reachable \<lparr>sp_queue = [ping_task], sp_busy = [], sp_hub = [], sp_calls = [7 \<mapsto> Waiting]\<rparr>"
    using pool_next [OF pool_start pool_step.call [of send_pool_new 7 42]]
    by (simp add: send_pool_new_def call_submit_def pool_submit_def HUB_SEND_QUEUE_CAPACITY_def ping_task_def)
  from pool_next [OF this pool_step.take_task [of _ ping_task "[]"]]
  have "pool_reachable \<lparr>sp_queue = [], sp_busy = [ping_task], sp_hub = [], sp_calls = [7 \<mapsto> Waiting]\<rparr>"
    by (simp add: HUB_SEND_POOL_SIZE_def)
  from pool_next [OF this pool_step.sent [of 0]]
  have "pool_reachable \<lparr>sp_queue = [], sp_busy = [], sp_hub = [ping_task], sp_calls = [7 \<mapsto> Signalled]\<rparr>"
    by (simp add: task_sent_def ping_task_def)
  from pool_next [OF this pool_step.return [of _ 7 Signalled "Inr ()"]]
  show ?thesis by (simp add: call_return_def)
qed

theorem send_exactly_once_witness:
  "count_list (map ht_call [ping_task]) 7 = 1"
  using spec [OF conjunct2 [OF conjunct2 [OF send_exactly_once [OF pool_reachable_sample]]], of 7] by simp

text \<open>A call that reports a timeout does not mean that the message was not sent: for every message
  there is a run in which the caller gets the error and the hub gets the message afterwards.\<close>

theorem timed_out_message_still_sent:
  "\<exists>y. pool_reachable y \<and>
     sp_calls y k = Some (Returned (Inl ''Hub send timeout - system overloaded'')) \<and>
     sp_hub y = [\<lparr>ht_call = k, ht_message = msg\<rparr>]"
proof -
  let ?t = "\<lparr>ht_call = k, ht_message = msg\<rparr>" and ?e = "Returned (Inl ''Hub send timeout - system overloaded'')"
  have "pool_reachable \<lparr>sp_queue = [?t], sp_busy = [], sp_hub = [], sp_calls = [k \<mapsto> Waiting]\<rparr>"
    using pool_next [OF pool_start pool_step.call [of send_pool_new k msg]]
    by (simp add: send_pool_new_def call_submit_def pool_submit_def HUB_SEND_QUEUE_CAPACITY_def)
  from pool_next [OF this pool_step.return [of _ k Waiting]]
  have "pool_reachable \<lparr>sp_queue = [?t], sp_busy = [], sp_hub = [], sp_calls = [k \<mapsto> ?e]\<rparr>"
    by (simp add: call_return_def)
  from pool_next [OF this pool_step.take_task [of _ ?t "[]"]]
  have "pool_reachable \<lparr>sp_queue = [], sp_busy = [?t], sp_hub = [], sp_calls = [k \<mapsto> ?e]\<rparr>"
    by (simp add: HUB_SEND_POOL_SIZE_def)
  from pool_next [OF this pool_step.sent [of 0]]
  have "pool_reachable \<lparr>sp_queue = [], sp_busy = [], sp_hub = [?t], sp_calls = [k \<mapsto> ?e]\<rparr>"
    by (simp add: task_sent_def)
  then show ?thesis by (intro exI conjI) (assumption, simp_all)
qed

text \<open>C39: Whatever has happened, every message that was accepted can still reach the hub: from every
  reachable state the threads can work off the queue, and then the hub holds exactly the tasks that
  were in the queue, with a thread or in the hub before.\<close>

theorem accepted_messages_can_be_delivered:
  assumes "pool_reachable y"
  shows "\<exists>y'. pool_step\<^sup>*\<^sup>* y y' \<and> sp_queue y' = [] \<and> sp_busy y' = [] \<and> mset (sp_hub y') = mset (in_pool y)"
proof -
  obtain y' where "pool_step\<^sup>*\<^sup>* y y'" "tasks_left y' = 0" "mset (in_pool y') = mset (in_pool y)"
    using sends.drains [OF assms] by blast
  then show ?thesis by (auto simp: tasks_left_def)
qed

theorem accepted_messages_can_be_delivered_witness:
  "\<exists>y'. pool_step\<^sup>*\<^sup>* (call_submit 7 42 send_pool_new) y' \<and> mset (sp_hub y') = {# ping_task #}"
proof -
  have "pool_reachable (call_submit 7 (42 :: nat) send_pool_new)"
    by (rule pool_next [OF pool_start pool_step.call]) (simp add: send_pool_new_def)
  from accepted_messages_can_be_delivered [OF this] show ?thesis
    by (auto simp: call_submit_def pool_submit_def send_pool_new_def HUB_SEND_QUEUE_CAPACITY_def ping_task_def)
qed

end
