(* ===== verification/Rpc_Handler.thy ===== *)
theory Rpc_Handler
  imports Hub_Protection
begin

text \<open>
  \<open>src/workers/rpc/types.rs\<close> and \<open>src/workers/rpc/handler.rs\<close>: the methods of the RPC server, their
  results, their JSON, and how a method for a device becomes a \<open>DeviceControl\<close> message whose answer the
  handler waits for.  The request around a method is taken apart by the \<open>roboplc_rpc\<close> crate.
\<close>

section \<open>Methods and results\<close>

datatype 'n rpc_method =
    MPing
  | MGetVersion
  | MGetDeviceList
  | MGetStatus string
  | MReadSignalGroup string string
  | MWriteSignalGroup string string "'n json"

datatype 'n rpc_result_type =
    RSuccess bool
  | RVersion string
  | RDeviceList "string list"
  | RData bool "'n json"
  | RStatus bool u64 u32
  | RError string

text \<open>The members \<open>m\<close> and \<open>p\<close> by which \<open>#[serde(tag = "m", content = "p")]\<close> writes a method, and how
  the parameters of a method are read: unknown members are refused.  (\<open>device_id\<close> is borrowed from the
  text, so an id that JSON has to escape is refused as well; escapes are not seen at this level.)\<close>

fun method_members :: "'n rpc_method \<Rightarrow> (string \<times> 'n json) list" where
  "method_members MPing = [(''m'', JStr ''ping''), (''p'', JObj [])]"
| "method_members MGetVersion = [(''m'', JStr ''get_version''), (''p'', JObj [])]"
| "method_members MGetDeviceList = [(''m'', JStr ''get_device_list''), (''p'', JObj [])]"
| "method_members (MGetStatus d) = [(''m'', JStr ''get_status''), (''p'', JObj [(''device_id'', JStr d)])]"
| "method_members (MReadSignalGroup d g) =
     [(''m'', JStr ''read_signal_group''), (''p'', JObj [(''device_id'', JStr d), (''group_name'', JStr g)])]"
| "method_members (MWriteSignalGroup d g v) =
     [(''m'', JStr ''write_signal_group''),
      (''p'', JObj [(''device_id'', JStr d), (''group_name'', JStr g), (''data'', v)])]"

definition str_member :: "(string \<times> 'n json) list \<Rightarrow> string \<Rightarrow> string option" where
  "str_member p k = Option.bind (map_of p k) as_str"

definition members_in :: "(string \<times> 'n json) list \<Rightarrow> string list \<Rightarrow> bool" where
  "members_in p ks \<longleftrightarrow> list_all (\<lambda>(k, v). k \<in> set ks) p"

definition decode_params :: "string \<Rightarrow> (string \<times> 'n json) list \<Rightarrow> 'n rpc_method option" where
  "decode_params tag p =
     (if tag = ''ping'' then (if members_in p [] then Some MPing else None)
      else if tag = ''get_version'' then (if members_in p [] then Some MGetVersion else None)
      else if tag = ''get_device_list'' then (if members_in p [] then Some MGetDeviceList else None)
      else if tag = ''get_status''
      then (if members_in p [''device_id''] then map_option MGetStatus (str_member p ''device_id'') else None)
      else if tag = ''read_signal_group''
      then (if members_in p [''device_id'', ''group_name'']
            then Option.bind (str_member p ''device_id'') (\<lambda>d.
                 map_option (MReadSignalGroup d) (str_member p ''group_name'')) else None)
      else if tag = ''write_signal_group''
      then (if members_in p [''device_id'', ''group_name'', ''data'']
            then Option.bind (str_member p ''device_id'') (\<lambda>d.
                 Option.bind (str_member p ''group_name'') (\<lambda>g.
                 map_option (MWriteSignalGroup d g) (map_of p ''data''))) else None)
      else None)"

text \<open>A method among the members of a request.\<close>

definition decode_method :: "(string \<times> 'n json) list \<Rightarrow> 'n rpc_method option" where
  "decode_method ms =
     (case (map_of ms ''m'', map_of ms ''p'') of
        (Some (JStr tag), Some (JObj p)) \<Rightarrow> decode_params tag p
      | _ \<Rightarrow> None)"

text \<open>The JSON of a result: an untagged object of its members.\<close>

fun rpc_result_json :: "'n number_api \<Rightarrow> 'n rpc_result_type \<Rightarrow> 'n json" where
  "rpc_result_json api (RSuccess s) = json_object [(''success'', JBool s)]"
| "rpc_result_json api (RVersion v) = json_object [(''version'', JStr v)]"
| "rpc_result_json api (RDeviceList ds) = json_object [(''devices'', JArr (map JStr ds))]"
| "rpc_result_json api (RData s d) = json_object [(''success'', JBool s), (''data'', d)]"
| "rpc_result_json api (RStatus c l e) = json_object
     [(''connected'', JBool c), (''last_communication_ms'', json_u64 api l), (''error_count'', json_u64 api (ucast e))]"
| "rpc_result_json api (RError e) = json_object [(''error'', JStr e)]"

definition CARGO_PKG_VERSION :: string where "CARGO_PKG_VERSION = ''0.1.0''"

section \<open>The handler\<close>

record rpc_handler =
  rh_device_ids :: "string list"

definition rpc_handler_new :: "string list \<Rightarrow> rpc_handler" where
  "rpc_handler_new device_ids = \<lparr>rh_device_ids = device_ids\<rparr>"

definition RESPONSE_TIMEOUT_MS :: nat where "RESPONSE_TIMEOUT_MS = 5000"

definition send_device_control ::
  "('n, 'ch, 'w) hub_api \<Rightarrow> string \<Rightarrow> operation \<Rightarrow> 'n json \<Rightarrow> 'w \<Rightarrow> 'n rpc_result_type \<times> 'w" where
  "send_device_control hub device_id operation params w =
     (let (correlation_id, w1) = hub_next_id hub w;
          (response_tx, w2) = hub_channel hub w1;
          msg = DeviceControl device_id operation params correlation_id (Some response_tx)
      in case hub_send hub msg DEFAULT_HUB_SEND_TIMEOUT w2 of
           (Inl e, w3) \<Rightarrow> (RError (''System overloaded: '' @ e), w3)
         | (Inr _, w3) \<Rightarrow>
             (case hub_recv hub response_tx RESPONSE_TIMEOUT_MS w3 of
                (Inr (success, data, err), w4) \<Rightarrow>
                  (if success then RData True data
                   else RError (case err of None \<Rightarrow> ''Unknown error'' | Some e \<Rightarrow> e), w4)
              | (Inl _, w4) \<Rightarrow> (RError ''Request timed out'', w4)))"

fun handle_call ::
  "('n, 'ch, 'w) hub_api \<Rightarrow> rpc_handler \<Rightarrow> 'n rpc_method \<Rightarrow> 'w \<Rightarrow> 'n rpc_result_type \<times> 'w" where
  "handle_call hub h MPing w = (RSuccess True, w)"
| "handle_call hub h MGetVersion w = (RVersion CARGO_PKG_VERSION, w)"
| "handle_call hub h MGetDeviceList w = (RDeviceList (rh_device_ids h), w)"
| "handle_call hub h (MGetStatus device_id) w =
     send_device_control hub device_id GetStatus (json_object []) w"
| "handle_call hub h (MReadSignalGroup device_id group_name) w =
     send_device_control hub device_id ReadSignalGroup (json_object [(''group_name'', JStr group_name)]) w"
| "handle_call hub h (MWriteSignalGroup device_id group_name data) w =
     send_device_control hub device_id WriteSignalGroup
       (json_object [(''group_name'', JStr group_name), (''data'', data)]) w"

section \<open>Lemmas\<close>

lemma decode_method_members:
  assumes "map_of ms ''m'' = map_of (method_members m) ''m''" and "map_of ms ''p'' = map_of (method_members m) ''p''"
  shows "decode_method ms = Some m"
  using assms by (cases m) (simp_all add: decode_method_def decode_params_def members_in_def str_member_def)

text \<open>An answer that arrives in time is what the caller gets.\<close>

lemma send_device_control_answered:
  assumes "hub_next_id hub w = (cid, w1)" and "hub_channel hub w1 = (ch, w2)"
    and "hub_send hub (DeviceControl device_id operation params cid (Some ch)) DEFAULT_HUB_SEND_TIMEOUT w2
      = (Inr (), w3)"
    and "hub_recv hub ch RESPONSE_TIMEOUT_MS w3 = (Inr (True, d, err), w4)"
  shows "send_device_control hub device_id operation params w = (RData True d, w4)"
  using assms by (simp add: send_device_control_def)

section \<open>Property\<close>

text \<open>Every method is read back from the members that its serialization puts into a request, whatever
  the other members of the request are.\<close>

theorem method_roundtrip:
  assumes "list_all (\<lambda>(k, v). k \<notin> {''m'', ''p''}) rest"
  shows "decode_method (rest @ method_members m) = Some m"
proof (rule decode_method_members)
  have "map_of rest k = None" if "k \<in> {''m'', ''p''}" for k
    using assms that by (auto simp: map_of_eq_None_iff list_all_iff)
  then show "map_of (rest @ method_members m) ''m'' = map_of (method_members m) ''m''"
    "map_of (rest @ method_members m) ''p'' = map_of (method_members m) ''p''"
    by (simp_all add: map_add_def)
qed

theorem method_roundtrip_witness:
  "decode_method ((''jsonrpc'', JStr ''2.0'') # method_members (MGetStatus ''plc'' :: unit rpc_method)) =
     Some (MGetStatus ''plc'')"
  using method_roundtrip [of "[(''jsonrpc'', JStr ''2.0'')]" "MGetStatus ''plc'' :: unit rpc_method"] by simp

end
