(* ===== verification/End_To_End.thy ===== *)
theory End_To_End
  imports Modbus_Worker Rpc_Handler
begin

text \<open>
  Properties of the whole path of a request for a device: the synchronous part, the task, the pool,
  the Modbus exchange and the decoding of the answer, run against a device that stores what is
  written to its holding registers.
\<close>

section \<open>A request served to its end\<close>

definition serve ::
  "'n number_api \<Rightarrow> ('w, 'c, 'm) modbus_io \<Rightarrow> ('n, 'ch) request \<Rightarrow> 'c worker_state \<Rightarrow> 'w
     \<Rightarrow> (('n, 'ch) sent list \<times> 'c worker_state \<times> 'w) outcome" where
  "serve api io rq s w =
     bind_outcome (handle_device_control api io rq s w)
       (\<lambda>h. case h_task h of
          None \<Rightarrow> Ret (h_sent h, h_state h, h_world h)
        | Some t \<Rightarrow>
            let (sent, s', w') = run_task api io False t (h_state h) (h_world h)
            in Ret (h_sent h @ sent, s', w'))"

section \<open>A device with registers\<close>

text \<open>The registers of the device after writing \<open>vs\<close> from address \<open>a\<close>.\<close>

definition store :: "(nat \<Rightarrow> u16) \<Rightarrow> nat \<Rightarrow> u16 list \<Rightarrow> (nat \<Rightarrow> u16)" where
  "store rd a vs = (\<lambda>i. if a \<le> i \<and> i < a + length vs then vs ! (i - a) else rd i)"

fun payload_words :: "write_payload \<Rightarrow> u16 list" where
  "payload_words (PWord v) = [v]"
| "payload_words (PWords vs) = vs"
| "payload_words (PBytes bs) = []"

text \<open>The ranges a Modbus request may name: at most 123 registers, which is the limit of a write, and
  not past the last address.\<close>

definition in_range :: "u16 \<times> u16 \<Rightarrow> bool" where
  "in_range r \<longleftrightarrow> 0 < snd r \<and> unat (snd r) \<le> 123 \<and> unat (fst r) + unat (snd r) \<le> 65536"

text \<open>
  What a Modbus server with holding registers documents: connections succeed, a mapping denotes a
  range of registers, a read returns their contents and a write of as many words as the mapping has
  registers stores them.  \<open>rd\<close> reads the registers off the world.
\<close>

definition register_device ::
  "('w, 'c, 'm) modbus_io \<Rightarrow> ('w \<Rightarrow> nat \<Rightarrow> u16) \<Rightarrow> ('m \<Rightarrow> u16 \<times> u16) \<Rightarrow> bool" where
  "register_device io rd rng \<longleftrightarrow>
     (\<forall>e t w. \<exists>c w'. io_tcp_connect io e t w = (Inr c, w') \<and> rd w' = rd w) \<and>
     (\<forall>c w. \<exists>w'. io_client_connect io c w = (Inr (), w') \<and> rd w' = rd w) \<and>
     (\<forall>c u a n w. in_range (a, n) \<longrightarrow>
        (\<exists>m w'. io_mapping_create io c u KindHolding a n w = (Inr m, w') \<and> rd w' = rd w \<and> rng m = (a, n))) \<and>
     (\<forall>m w. in_range (rng m) \<longrightarrow>
        (\<exists>e bs w'. io_mapping_read io m w = (Inr (e, bs), w') \<and> rd w' = rd w \<and>
           binary_data_u16 e bs = map (\<lambda>i. rd w (unat (fst (rng m)) + i)) [0..<unat (snd (rng m))])) \<and>
     (\<forall>m pl w. in_range (rng m) \<and> length (payload_words pl) = unat (snd (rng m)) \<longrightarrow>
        (\<exists>w'. io_mapping_write io m pl w = (Inr (), w') \<and>
           rd w' = store (rd w) (unat (fst (rng m))) (payload_words pl)))"

lemma store_read:
  "map (\<lambda>i. store rd a vs (a + i)) [0..<length vs] = vs"
  by (rule nth_equalityI) (simp_all add: store_def)

section \<open>One operation\<close>

lemma map_filter_holding: "List.map_filter (\<lambda>v. case v of WHolding u \<Rightarrow> Some u | WCoil _ \<Rightarrow> None)
    (map WHolding vs) = vs"
  by (induction vs) (simp_all add: List.map_filter_simps)

lemma open_register_device:
  assumes "register_device io rd rng"
  shows "\<exists>c w'. open_connection io e t w = (Inr c, w') \<and> rd w' = rd w"
proof -
  from assms obtain c w1 where "io_tcp_connect io e t w = (Inr c, w1)" "rd w1 = rd w"
    unfolding register_device_def by blast
  moreover from assms obtain w2 where "io_client_connect io c w1 = (Inr (), w2)" "rd w2 = rd w1"
    unfolding register_device_def by blast
  ultimately show ?thesis by (simp add: open_connection_def)
qed

lemma acquire_register_device:
  assumes "register_device io rd rng"
  shows "\<exists>c p' w'. acquire_connection io p w = (Inr c, p', w') \<and> rd w' = rd w"
proof -
  obtain av created where d:
    "drop_stale (io_now io w) (cp_health_check_interval p) (cp_available p) (cp_total_created p) = (av, created)"
    by fastforce
  obtain c w' where "open_connection io (cp_endpoint p) POOL_CONNECTION_TIMEOUT w = (Inr c, w')" "rd w' = rd w"
    using open_register_device [OF assms] by blast
  with d show ?thesis by (cases av) (simp_all add: acquire_connection_def create_connection_def)
qed

lemma dispatch_write:
  assumes dev: "register_device io rd rng" and r: "in_range (a, n)" and len: "length vs = unat n"
  shows "\<exists>r w'. dispatch_op_static api io c u (WriteMultiple a vs) w = (r, w') \<and>
     or_success r \<and> or_error r = None \<and> values_param (or_data r) = None \<and>
     rd w' = store (rd w) (unat a) vs"
proof -
  have n: "(word_of_nat (length vs) :: u16) = n" using len by simp
  have ne: "vs \<noteq> []" using r len by (auto simp: in_range_def word_less_nat_alt)
  from dev r obtain m w1 where m: "io_mapping_create io c u KindHolding a n w = (Inr m, w1)"
    "rd w1 = rd w" "rng m = (a, n)"
    unfolding register_device_def by blast
  define pl where "pl = (if n = 1 then PWord (vs ! 0) else PWords vs)"
  have "n = 1 \<longleftrightarrow> length vs = 1" using len by (metis unat_1 unsigned_word_eqI)
  then have pl: "payload_words pl = vs"
    by (auto simp: pl_def length_Suc_conv)
  have "in_range (rng m)" "length (payload_words pl) = unat (snd (rng m))" using r m(3) pl len by simp_all
  with dev obtain w2 where "io_mapping_write io m pl w1 = (Inr (), w2)"
    "rd w2 = store (rd w1) (unat (fst (rng m))) (payload_words pl)"
    unfolding register_device_def by blast
  then have w2: "io_mapping_write io m pl w1 = (Inr (), w2)" "rd w2 = store (rd w1) (unat a) vs"
    using m(3) pl by simp_all
  have kinds: "list_all (same_kind (WHolding v)) (map WHolding us)" for v us by (induction us) simp_all
  have "dispatch_op_static api io c u (WriteMultiple a vs) w
      = write_holding_registers_static api io c u a (map WHolding vs) w"
    using ne kinds [of "hd vs" vs]
    by (simp add: write_registers_static_def Let_def hd_map flip: hd_conv_nth)
  also have "\<dots> = (build_write_result_static api (Inr ()) a n (io_now io w2 - io_now io w1), w2)"
    using m(1) w2(1) by (simp add: write_holding_registers_static_def map_filter_holding Let_def n flip: pl_def)
  finally show ?thesis
    using m(2) w2(2) by (simp add: build_write_result_static_def values_param_def json_get_json_object)
qed

lemma dispatch_read:
  assumes dev: "register_device io rd rng" and r: "in_range (a, n)"
  shows "\<exists>r w' l. dispatch_op_static api io c u (ReadHolding a n) w = (r, w') \<and> rd w' = rd w \<and>
     r = \<lparr>or_success = True,
          or_data = json_object
            [(''values'', JArr (map (\<lambda>i. json_u64 api (ucast (rd w (unat a + i)))) [0..<unat n])),
             (''latency_us'', json_u64 api l)],
          or_error = None\<rparr>"
proof -
  from dev r obtain m w1 where m: "io_mapping_create io c u KindHolding a n w = (Inr m, w1)"
    "rd w1 = rd w" "rng m = (a, n)"
    unfolding register_device_def by blast
  have "in_range (rng m)" using r m(3) by simp
  with dev obtain e bs w2 where "io_mapping_read io m w1 = (Inr (e, bs), w2)" "rd w2 = rd w1"
    "binary_data_u16 e bs = map (\<lambda>i. rd w1 (unat (fst (rng m)) + i)) [0..<unat (snd (rng m))]"
    unfolding register_device_def by blast
  then have "dispatch_op_static api io c u (ReadHolding a n) w =
      (\<lparr>or_success = True,
        or_data = json_object
          [(''values'', JArr (map (\<lambda>i. json_u64 api (ucast (rd w (unat a + i)))) [0..<unat n])),
           (''latency_us'', json_u64 api (word_of_nat ((io_now io w2 - io_now io w1) div 1000)))],
        or_error = None\<rparr>, w2)"
    using m by (simp add: read_registers_static_def read_registers_static_with_tr_id_def Let_def o_def)
  with m(2) \<open>rd w2 = rd w1\<close> show ?thesis by auto
qed

section \<open>One request\<close>

lemma ensure_connected_device:
  assumes "register_device io rd rng" and "worker_inv s"
  shows "\<exists>s' ev w'. ensure_connected io s w = (True, s', ev, w') \<and> rd w' = rd w \<and>
     worker_inv s' \<and> ws_device s' = ws_device s \<and> ws_operation_queue s' = ws_operation_queue s \<and>
     ws_connection_pool s' \<noteq> None"
proof -
  obtain ok s' ev w' where e: "ensure_connected io s w = (ok, s', ev, w')"
    by (cases "ensure_connected io s w")
  obtain c w1 where o: "open_connection io (device_endpoint (ws_device s))
      (timeout (ws_timeout_handler s) * 1000000) w = (Inr c, w1)" "rd w1 = rd w"
    using open_register_device [OF assms(1)] by blast
  have "ok \<and> rd w' = rd w \<and> ws_connection_pool s' \<noteq> None"
  proof (cases "ws_connection_pool s")
    case None
    with e o show ?thesis
      by (auto simp: ensure_connected_def connect_pool_def mark_connected_def Let_def
          update_connection_state_def update_connection_state_with_def split: if_splits)
  next
    case (Some p)
    with e show ?thesis by (simp add: ensure_connected_pooled) auto
  qed
  with e ensure_connected_frame [OF assms(2) e] worker_inv_ensure_connected [OF assms(2) e]
  show ?thesis by auto
qed

lemma resolve_device:
  "ws_device s' = ws_device s \<Longrightarrow> resolve_signal_group s' = resolve_signal_group s"
  by (rule ext) (simp add: resolve_signal_group_def)

lemma operation_to_modbus_op_device:
  assumes "ws_device s' = ws_device s"
  shows "operation_to_modbus_op api s' op params = operation_to_modbus_op api s op params"
  unfolding operation_to_modbus_op_def resolve_device [OF assms] assms ..

lemma incomplete_write_device:
  assumes "ws_device s' = ws_device s"
  shows "incomplete_write s' op params name = incomplete_write s op params name"
  unfolding incomplete_write_def resolve_device [OF assms] ..

text \<open>A request with a Modbus operation is answered with the result of that operation.\<close>

lemma serve_device:
  assumes dev: "register_device io rd rng" and inv: "worker_inv s"
    and free: "in_flight s < unat (dev_max_concurrent_ops (ws_device s))"
    and rq: "rq_operation rq \<noteq> GetStatus" "group_name_param (rq_params rq) = Some name"
    and g: "resolve_signal_group s name = Some g"
    and m: "operation_to_modbus_op api s (rq_operation rq) (rq_params rq) = Ret (Some m)"
    and complete: "incomplete_write s (rq_operation rq) (rq_params rq) name = None"
  shows "\<exists>s' w1 c u r w'. rd w1 = rd w \<and> dispatch_op_static api io c u m w1 = (r, w') \<and>
     serve api io rq s w =
       Ret ([send_response rq (or_success r)
               (response_data api name (Some (sg_fields g, dev_byte_order (ws_device s))) r) (or_error r)], s', w') \<and>
     worker_inv s' \<and> in_flight s' = in_flight s \<and> ws_device s' = ws_device s"
proof -
  obtain s1 ev w1 where e: "ensure_connected io s w = (True, s1, ev, w1)" "rd w1 = rd w" "worker_inv s1"
    "ws_device s1 = ws_device s" "ws_operation_queue s1 = ws_operation_queue s" "ws_connection_pool s1 \<noteq> None"
    using ensure_connected_device [OF dev inv] by blast
  obtain b s2 where a: "try_acquire_operation_atomic s1 = (b, s2)"
    by (cases "try_acquire_operation_atomic s1")
  have "in_flight s1 < unat (oq_max_in_flight (ws_operation_queue s1))"
    using e(4,5) free inv by (simp add: worker_inv_def)
  then have b: "b" using capacity_facts(2) [of s1] a by simp
  note fr = acquire_frame [OF a]
  have dv: "ws_device s2 = ws_device s" using fr e(4) by simp
  from fr e(6) obtain pool where pool: "ws_connection_pool s2 = Some pool" by auto
  define t where "t = \<lparr>tk_request = rq, tk_modbus_op = Some m, tk_group_name = name,
    tk_group_data = Some (sg_fields g, dev_byte_order (ws_device s))\<rparr>"
  define h where "h = \<lparr>h_state = s2, h_events = ev, h_sent = [], h_task = Some t, h_world = w1\<rparr>"
  have h: "handle_device_control api io rq s w = Ret h"
    using e(1) a b pool rq m complete g
      operation_to_modbus_op_device [OF dv, of api "rq_operation rq" "rq_params rq"]
      incomplete_write_device [OF dv, of "rq_operation rq" "rq_params rq" name] resolve_device [OF dv] dv
    by (simp add: handle_device_control_def get_pool_def Let_def h_def t_def)
  obtain c p1 w2 where acq: "acquire_connection io pool w1 = (Inr c, p1, w2)" "rd w2 = rd w1"
    using acquire_register_device [OF dev] by blast
  obtain r w3 where r: "dispatch_op_static api io c (cp_unit_id p1) m w2 = (r, w3)" by fastforce
  obtain sent s3 w4 where run: "run_task api io False t s2 w1 = (sent, s3, w4)"
    by (cases "run_task api io False t s2 w1")
  have "sent = [send_response rq (or_success r)
      (response_data api name (Some (sg_fields g, dev_byte_order (ws_device s))) r) (or_error r)] \<and> w4 = w3"
    using run pool acq r by (simp add: run_task_def task_body_def pool_execute_operation_def Let_def t_def)
  moreover have "worker_inv s2 \<and> in_flight s2 = Suc (in_flight s)"
    using worker_inv_capacity(1) [of s1] e(3,5) a b capacity_facts(1) [of s1] by simp
  then have "worker_inv s3 \<and> in_flight s3 = in_flight s \<and> ws_device s3 = ws_device s"
    using run_task_shape [OF _ _ run] pool dv by simp
  moreover have "serve api io rq s w = Ret (sent, s3, w4)"
    using h run by (simp add: serve_def h_def)
  moreover have "rd w2 = rd w" using acq(2) e(2) by simp
  ultimately show ?thesis using r by blast
qed

section \<open>A write and a read\<close>

lemma ucast_u16_u64: "ucast (ucast (x :: u16) :: u64) = x"
  by (rule bit_word_eqI) (auto simp: bit_ucast_iff dest: bit_imp_le_length)

lemma result_registers_read:
  assumes "number_laws api"
  shows "result_registers api (map (\<lambda>i. json_u64 api (ucast (f i :: u16))) xs) = map f xs"
  using assms by (induction xs) (simp_all add: result_registers_def List.map_filter_simps ucast_u16_u64)

text \<open>The answer to a read whose fields are \<open>pfs\<close>.\<close>

definition read_answer :: "'n number_api \<Rightarrow> string \<Rightarrow> parsed_field list \<Rightarrow> 'n json \<Rightarrow> 'n json" where
  "read_answer api name pfs l =
     json_object
       [(''group_name'', JStr name),
        (''result'', json_object [(''fields'', JArr (map (parsed_field_json api) pfs)), (''latency_us'', l)])]"

text \<open>The registers of a group as the device has them.\<close>

definition group_registers :: "(nat \<Rightarrow> u16) \<Rightarrow> u16 \<Rightarrow> signal_group \<Rightarrow> u16 list" where
  "group_registers regs a g = map (\<lambda>i. regs (unat a + i)) [0..<unat (sg_register_count g)]"

lemma serve_read:
  fixes rr :: "('n, 'ch) request"
  assumes api: "number_laws api" and dev: "register_device io rd rng" and inv: "worker_inv s"
    and free: "in_flight s < unat (dev_max_concurrent_ops (ws_device s))"
    and g: "resolve_signal_group s name = Some g"
    and a: "parse_register_address (sg_register_address g) = Some (Holding, a)"
    and rng: "in_range (a, sg_register_count g)"
    and rr: "rq_operation rr = ReadSignalGroup" "group_name_param (rq_params rr) = Some name"
  shows "\<exists>l s' w'. serve api io rr s w = Ret ([send_response rr True (read_answer api name
       (parse_signal_group_fields (group_registers (rd w) a g) (sg_fields g) (dev_byte_order (ws_device s))) l) None], s', w') \<and>
     rd w' = rd w"
proof -
  let ?n = "sg_register_count g" and ?ord = "dev_byte_order (ws_device s)"
  have m: "operation_to_modbus_op api s (rq_operation rr) (rq_params rr) = Ret (Some (ReadHolding a ?n))"
    using rr g a by (simp add: operation_to_modbus_op_def read_op_def)
  have complete: "incomplete_write s (rq_operation rr) (rq_params rr) name = None"
    using rr(1) by (simp add: incomplete_write_def)
  obtain s' w1 c u r w' where second: "rd w1 = rd w"
    "dispatch_op_static api io c u (ReadHolding a ?n) w1 = (r, w')"
    "serve api io rr s w = Ret ([send_response rr (or_success r)
       (response_data api name (Some (sg_fields g, ?ord)) r) (or_error r)], s', w')"
    using serve_device [OF dev inv free _ rr(2) g m complete, of w] rr(1)
    by (simp only:) blast
  from dispatch_read [OF dev rng, of api c u w1] second(2) obtain l where
    r: "rd w' = rd w1" "r = \<lparr>or_success = True,
          or_data = json_object
            [(''values'', JArr (map (\<lambda>i. json_u64 api (ucast (rd w1 (unat a + i)))) [0..<unat ?n])),
             (''latency_us'', json_u64 api l)],
          or_error = None\<rparr>"
    by auto
  have "result_registers api (map (\<lambda>i. json_u64 api (ucast (rd w1 (unat a + i)))) [0..<unat ?n])
      = group_registers (rd w) a g"
    using result_registers_read [OF api, of "\<lambda>i. rd w1 (unat a + i)"] second(1) by (simp add: group_registers_def)
  then have "response_data api name (Some (sg_fields g, ?ord)) r = read_answer api name
      (parse_signal_group_fields (group_registers (rd w) a g) (sg_fields g) ?ord) (json_u64 api l)"
    unfolding r(2) by (simp add: response_data_def values_param_def json_get_json_object Let_def read_answer_def)
  with second(1,3) r show ?thesis by auto
qed

text \<open>A write of a whole group, then a read of it through the same worker.\<close>

definition group_answer ::
  "'n number_api \<Rightarrow> string \<Rightarrow> signal_group \<Rightarrow> (string \<times> 'n json) list \<Rightarrow> 'n json \<Rightarrow> 'n json" where
  "group_answer api name g data l =
     read_answer api name (map (\<lambda>f. \<lparr>pf_name = fm_name f, pf_value = written_value api data f,
         pf_data_type = fm_data_type f\<rparr>) (sg_fields g)) l"

lemma serve_write_then_read:
  fixes wr :: "('n, 'ch) request"
  assumes api: "number_laws api" and dev: "register_device io rd rng" and inv: "worker_inv s"
    and free: "in_flight s < unat (dev_max_concurrent_ops (ws_device s))"
    and g: "resolve_signal_group s name = Some g"
    and a: "parse_register_address (sg_register_address g) = Some (Holding, a)"
    and rng: "in_range (a, sg_register_count g)"
    and lay: "layout_ok (unat (sg_register_count g)) (sg_fields g)"
    and wr: "rq_operation wr = WriteSignalGroup" "group_name_param (rq_params wr) = Some name"
      "data_param (rq_params wr) = Some data"
    and data: "data_ok api (sg_fields g) data" "fm_name ` set (sg_fields g) \<subseteq> fst ` set data"
  shows "\<exists>d s1 w1. serve api io wr s w = Ret ([send_response wr True d None], s1, w1) \<and>
     ws_device s1 = ws_device s \<and>
     (\<forall>rr :: ('n, 'ch) request. rq_operation rr = ReadSignalGroup \<longrightarrow> group_name_param (rq_params rr) = Some name \<longrightarrow>
       (\<exists>l s2 w2. serve api io rr s1 w1 = Ret ([send_response rr True (group_answer api name g data l) None], s2, w2)))"
proof -
  let ?n = "sg_register_count g" and ?ord = "dev_byte_order (ws_device s)"
  obtain regs where regs:
    "encode_fields_to_registers api data (sg_fields g) ?n ?ord = Ret (Some regs)" "length regs = unat ?n"
    "parse_signal_group_fields regs (sg_fields g) ?ord =
       map (\<lambda>f. \<lparr>pf_name = fm_name f, pf_value = written_value api data f, pf_data_type = fm_data_type f\<rparr>)
         (sg_fields g)"
    using encode_then_parse [OF lay data(1)] by blast
  have m: "operation_to_modbus_op api s (rq_operation wr) (rq_params wr) = Ret (Some (WriteMultiple a regs))"
    using wr g a regs(1)
    by (simp add: operation_to_modbus_op_def write_op_def validate_writable_def write_holding_values_def)
  have complete: "incomplete_write s (rq_operation wr) (rq_params wr) name = None"
    using wr(1,3) g data(2)
    by (simp add: incomplete_write_def validate_field_completeness_iff(1) [THEN iffD2])
  obtain s1 w0 c u r w1 where first: "dispatch_op_static api io c u (WriteMultiple a regs) w0 = (r, w1)"
    "serve api io wr s w = Ret ([send_response wr (or_success r)
       (response_data api name (Some (sg_fields g, ?ord)) r) (or_error r)], s1, w1)"
    "worker_inv s1" "in_flight s1 = in_flight s" "ws_device s1 = ws_device s"
    using serve_device [OF dev inv free _ wr(2) g m complete, of w] wr(1) by (simp only:) blast
  from dispatch_write [OF dev rng regs(2), of api c u w0] first(1)
  have w: "or_success r" "or_error r = None" "rd w1 = store (rd w0) (unat a) regs" by auto
  have read: "\<exists>l s2 w2. serve api io rr s1 w1 = Ret ([send_response rr True (group_answer api name g data l) None], s2, w2)"
    if rr: "rq_operation rr = ReadSignalGroup" "group_name_param (rq_params rr) = Some name"
    for rr :: "('n, 'ch) request"
  proof -
    have free1: "in_flight s1 < unat (dev_max_concurrent_ops (ws_device s1))"
      using free first(4,5) by simp
    have g1: "resolve_signal_group s1 name = Some g" using g resolve_device [OF first(5)] by simp
    have "group_registers (rd w1) a g = regs"
      using w(3) store_read [of "rd w0" "unat a" regs] regs(2) by (simp add: group_registers_def)
    with serve_read [OF api dev first(3) free1 g1 a rng rr, of w1] regs(3) first(5)
    show ?thesis by (auto simp: group_answer_def)
  qed
  have "serve api io wr s w = Ret ([send_response wr True
      (response_data api name (Some (sg_fields g, ?ord)) r) None], s1, w1)"
    using first(2) w(1,2) by simp
  with first(5) read show ?thesis by blast
qed

definition be_bytes :: "u16 list \<Rightarrow> u8 list" where
  "be_bytes rs = concat (map (\<lambda>r. [ucast (drop_bit 8 r), ucast r]) rs)"

definition memory_io :: "(nat \<Rightarrow> u16, unit, u16 \<times> u16) modbus_io" where
  "memory_io =
     \<lparr>io_tcp_connect = (\<lambda>endpoint tmo w. (Inr (), w)),
      io_client_connect = (\<lambda>c w. (Inr (), w)),
      io_mapping_create = (\<lambda>c u k a n w. (Inr (a, n), w)),
      io_mapping_read = (\<lambda>m w. (Inr (Big, be_bytes (map (\<lambda>i. w (unat (fst m) + i)) [0..<unat (snd m)])), w)),
      io_mapping_write = (\<lambda>m pl w. (Inr (), store w (unat (fst m)) (payload_words pl))),
      io_now = (\<lambda>w. 0)\<rparr>"

lemma binary_data_be_bytes: "binary_data_u16 Big (be_bytes rs) = rs"
proof (induction rs)
  case (Cons r rs)
  have "unat (ucast (drop_bit 8 r) :: u8) = unat r div 256"
  proof -
    have "unat r div 256 < 256" using unat_u16_less [of r] by linarith
    then have "unat r div 256 < 2 ^ 8" by simp
    then show ?thesis
      by (simp add: unsigned_ucast_eq drop_bit_eq_div unat_div take_bit_nat_eq_self)
  qed
  moreover have "unat (ucast r :: u8) = unat r mod 256"
    by (simp add: unsigned_ucast_eq take_bit_eq_mod)
  ultimately have "unat (ucast (drop_bit 8 r) :: u8) * 256 + unat (ucast r :: u8) = unat r" by simp
  with Cons show ?case by (simp add: be_bytes_def)
qed (simp add: be_bytes_def)

lemma memory_register_device: "register_device memory_io id id"
  by (simp add: register_device_def memory_io_def binary_data_be_bytes)

definition sample_data :: "(string \<times> sample_number json) list" where
  "sample_data = [(''a'', JNum (UInt 70000)), (''b'', JNum (UInt 1))]"

definition sample_fields :: "field_mapping list" where
  "sample_fields = [sample_field ''a'' U32 0, sample_field ''b'' TBool 2]"

section \<open>From the RPC method to the device and back\<close>

text \<open>
  A hub with one Modbus worker that takes each message at once and runs its task to the end; the
  answers wait in the channels.  It is the schedule of the system in which nothing else happens
  between a request and its answer.
\<close>

record ('n, 'c, 'w) plant =
  pl_worker :: "'c modbus_worker"
  pl_device :: 'w
  pl_counter :: u64
  pl_channels :: nat
  pl_inbox :: "nat \<rightharpoonup> 'n device_response_data"

fun put_answer :: "('n, nat) sent \<Rightarrow> (nat \<rightharpoonup> 'n device_response_data) \<Rightarrow> (nat \<rightharpoonup> 'n device_response_data)" where
  "put_answer (ToSender ch r) box = box(ch \<mapsto> r)"
| "put_answer (ToHub _) box = box"

definition plant_deliver ::
  "'n number_api \<Rightarrow> ('w, 'c, 'm) modbus_io \<Rightarrow> (string \<Rightarrow> 'de + config) \<Rightarrow> ('n, nat) message
     \<Rightarrow> ('n, 'c, 'w) plant \<Rightarrow> ('n, 'c, 'w) plant" where
  "plant_deliver api io parse_config msg p =
     (case worker_message api io parse_config msg (pl_worker p) (pl_device p) of
        Panic \<Rightarrow> p
      | Ret h \<Rightarrow>
          let (sent, s', w') = (case h_task h of
                 None \<Rightarrow> ([], h_state h, h_world h)
               | Some t \<Rightarrow> run_task api io False t (h_state h) (h_world h))
          in p\<lparr>pl_worker := (pl_worker p)\<lparr>mw_handler := s'\<rparr>, pl_device := w',
               pl_inbox := fold put_answer (h_sent h @ sent) (pl_inbox p)\<rparr>)"

definition plant_hub ::
  "'n number_api \<Rightarrow> ('w, 'c, 'm) modbus_io \<Rightarrow> (string \<Rightarrow> 'de + config) \<Rightarrow> ('n, nat, ('n, 'c, 'w) plant) hub_api"
where
  "plant_hub api io parse_config =
     \<lparr>hub_channel = (\<lambda>p. (pl_channels p, p\<lparr>pl_channels := Suc (pl_channels p)\<rparr>)),
      hub_send = (\<lambda>msg tmo p. (Inr (), plant_deliver api io parse_config msg p)),
      hub_recv = (\<lambda>ch tmo p. case pl_inbox p ch of
         None \<Rightarrow> (Inl Recv_Timeout, p)
       | Some r \<Rightarrow> (Inr r, p\<lparr>pl_inbox := (pl_inbox p)(ch := None)\<rparr>)),
      hub_next_id = (\<lambda>p. let (i, c) = next_correlation_id (pl_counter p) in (i, p\<lparr>pl_counter := c\<rparr>)),
      hub_system_now = (\<lambda>p. io_now io (pl_device p)), hub_instant_now = (\<lambda>p. io_now io (pl_device p))\<rparr>"

abbreviation plant_state :: "('n, 'c, 'w) plant \<Rightarrow> 'c worker_state" where
  "plant_state p \<equiv> mw_handler (pl_worker p)"

definition plant_request :: "string \<Rightarrow> operation \<Rightarrow> 'n json \<Rightarrow> ('n, 'c, 'w) plant \<Rightarrow> ('n, nat) request" where
  "plant_request dev op params p = \<lparr>rq_device_id = dev, rq_operation = op, rq_params = params,
     rq_correlation_id = pl_counter p, rq_respond_to = Some (pl_channels p)\<rparr>"

text \<open>Through the hub of the plant a request gets the answer of the worker.\<close>

lemma plant_exchange:
  fixes p :: "('n, 'c, 'w) plant"
  assumes dev: "dev_id (ws_device (plant_state p)) = dev"
    and answer: "serve api io (plant_request dev op params p) (plant_state p) (pl_device p) =
      Ret ([send_response (plant_request dev op params p) ok d err], s', w')"
  shows "\<exists>cid p1 ch p2 p3 p4. hub_next_id (plant_hub api io parse_config) p = (cid, p1) \<and>
     hub_channel (plant_hub api io parse_config) p1 = (ch, p2) \<and>
     hub_send (plant_hub api io parse_config) (DeviceControl dev op params cid (Some ch)) DEFAULT_HUB_SEND_TIMEOUT p2
       = (Inr (), p3) \<and>
     (\<forall>tmo. hub_recv (plant_hub api io parse_config) ch tmo p3 = (Inr (ok, d, err), p4)) \<and>
     plant_state p4 = s' \<and> pl_device p4 = w'"
proof -
  let ?ch = "pl_channels p"
  define p0 where "p0 = p\<lparr>pl_counter := pl_counter p + 1, pl_channels := Suc ?ch\<rparr>"
  define rq where "rq = plant_request dev op params p"
  let ?msg = "DeviceControl dev op params (pl_counter p) (Some ?ch)"
  from answer
  obtain h where h: "handle_device_control api io rq (plant_state p) (pl_device p) = Ret h"
    "(case h_task h of None \<Rightarrow> Ret (h_sent h, h_state h, h_world h)
      | Some t \<Rightarrow> let (sent, s', w') = run_task api io False t (h_state h) (h_world h)
                  in Ret (h_sent h @ sent, s', w')) = Ret ([send_response rq ok d err], s', w')"
    by (cases "handle_device_control api io rq (plant_state p) (pl_device p)") (simp_all add: serve_def rq_def)
  have "worker_message api io parse_config ?msg (pl_worker p0) (pl_device p0) = Ret h"
    using h(1) dev by (simp add: worker_message_def p0_def rq_def plant_request_def)
  then have "plant_deliver api io parse_config ?msg p0 =
      p0\<lparr>pl_worker := (pl_worker p)\<lparr>mw_handler := s'\<rparr>, pl_device := w',
         pl_inbox := fold put_answer [send_response rq ok d err] (pl_inbox p)\<rparr>"
    using h(2)
    by (auto simp: plant_deliver_def p0_def simp del: fold_append split: option.splits prod.splits)
  then show ?thesis
    by (simp add: plant_hub_def next_correlation_id_def send_response_def rq_def plant_request_def flip: p0_def)
qed

text \<open>The answer of the worker to a request is the result of the RPC call.\<close>

lemma plant_call:
  fixes p :: "('n, 'c, 'w) plant"
  assumes "dev_id (ws_device (plant_state p)) = dev"
    and "serve api io (plant_request dev op params p) (plant_state p) (pl_device p) =
      Ret ([send_response (plant_request dev op params p) ok d err], s', w')"
  shows "\<exists>p'. send_device_control (plant_hub api io parse_config) dev op params p =
       (if ok then RData True d else RError (case err of None \<Rightarrow> ''Unknown error'' | Some e \<Rightarrow> e), p') \<and>
     plant_state p' = s' \<and> pl_device p' = w'"
  using plant_exchange [OF assms, of parse_config] by (auto simp: send_device_control_def)

section \<open>Property\<close>

text \<open>C1: A remote call that writes a whole signal group succeeds and the remote call that then reads the
  group returns, field by field, the value its type makes of each member that was written: through
  the RPC handler, the messages, the Modbus worker and its task, encoding, the connection pool, the
  registers of the device and parsing, in every byte order.\<close>

theorem rpc_write_then_read:
  fixes p :: "('n, 'c, 'w) plant"
  assumes api: "number_laws api" and dev: "register_device io rd rng" and inv: "worker_inv (plant_state p)"
    and id: "dev_id (ws_device (plant_state p)) = dev"
    and free: "in_flight (plant_state p) < unat (dev_max_concurrent_ops (ws_device (plant_state p)))"
    and g: "resolve_signal_group (plant_state p) name = Some g"
    and a: "parse_register_address (sg_register_address g) = Some (Holding, a)"
    and rng: "in_range (a, sg_register_count g)"
    and lay: "layout_ok (unat (sg_register_count g)) (sg_fields g)"
    and data: "data_ok api (sg_fields g) data" "fm_name ` set (sg_fields g) \<subseteq> fst ` set data"
  shows "\<exists>d p1 l p2.
     handle_call (plant_hub api io parse_config) h (MWriteSignalGroup dev name (JObj data)) p = (RData True d, p1) \<and>
     handle_call (plant_hub api io parse_config) h (MReadSignalGroup dev name) p1 =
       (RData True (group_answer api name g data l), p2)"
proof -
  let ?wp = "json_object [(''group_name'', JStr name), (''data'', JObj data)]"
  let ?rp = "json_object [(''group_name'', JStr name)]"
  let ?wr = "plant_request dev WriteSignalGroup ?wp p"
  have w: "rq_operation ?wr = WriteSignalGroup" "group_name_param (rq_params ?wr) = Some name"
    "data_param (rq_params ?wr) = Some data"
    by (simp_all add: plant_request_def group_name_param_def data_param_def json_get_json_object)
  obtain d s1 w1 where first: "serve api io ?wr (plant_state p) (pl_device p) =
      Ret ([send_response ?wr True d None], s1, w1)"
    "\<And>rr :: ('n, nat) request. rq_operation rr = ReadSignalGroup \<Longrightarrow> group_name_param (rq_params rr) = Some name \<Longrightarrow>
       \<exists>l s2 w2. serve api io rr s1 w1 = Ret ([send_response rr True (group_answer api name g data l) None], s2, w2)"
    "ws_device s1 = ws_device (plant_state p)"
    using serve_write_then_read [OF api dev inv free g a rng lay w data, of "pl_device p"] by blast
  from plant_call [OF id first(1), of parse_config] obtain p1 where p1:
    "send_device_control (plant_hub api io parse_config) dev WriteSignalGroup ?wp p = (RData True d, p1)"
    "plant_state p1 = s1" "pl_device p1 = w1"
    by auto
  let ?rr = "plant_request dev ReadSignalGroup ?rp p1"
  obtain l s2 w2 where second: "serve api io ?rr (plant_state p1) (pl_device p1) =
      Ret ([send_response ?rr True (group_answer api name g data l) None], s2, w2)"
    using first(2) [of ?rr] p1(2,3) by (auto simp: plant_request_def group_name_param_def json_get_json_object)
  have "dev_id (ws_device (plant_state p1)) = dev" using id first(3) p1(2) by simp
  from plant_call [OF this second, of parse_config] p1(1) show ?thesis by auto
qed

definition sample_plant :: "(sample_number, unit, nat \<Rightarrow> u16) plant" where
  "sample_plant =
     \<lparr>pl_worker = modbus_worker_new (sample_device ''plc'' [sample_group ''h7'' 3 sample_fields]),
      pl_device = (\<lambda>_. 0), pl_counter = GLOBAL_CORRELATION_COUNTER, pl_channels = 0, pl_inbox = Map.empty\<rparr>"

lemma sample_plant_ready:
  "worker_inv (plant_state sample_plant)"
  "dev_id (ws_device (plant_state sample_plant)) = ''plc''"
  "in_flight (plant_state sample_plant) < unat (dev_max_concurrent_ops (ws_device (plant_state sample_plant)))"
  "resolve_signal_group (plant_state sample_plant) ''g'' = Some (sample_group ''h7'' 3 sample_fields)"
  "parse_register_address (sg_register_address (sample_group ''h7'' 3 sample_fields)) = Some (Holding, 7)"
  "in_range (7, sg_register_count (sample_group ''h7'' 3 sample_fields))"
proof -
  let ?g = "sample_group ''h7'' 3 sample_fields"
  have st: "plant_state sample_plant = worker_state_new (sample_device ''plc'' [?g])"
    by (simp add: sample_plant_def modbus_worker_new_def)
  show "worker_inv (plant_state sample_plant)" unfolding st by (rule worker_inv_new)
  show "dev_id (ws_device (plant_state sample_plant)) = ''plc''"
    unfolding st by (simp add: worker_state_new_def sample_device_def)
  show "in_flight (plant_state sample_plant)
      < unat (dev_max_concurrent_ops (ws_device (plant_state sample_plant)))"
    unfolding st by (simp add: worker_state_new_def sample_device_def operation_queue_new_def
        default_max_concurrent_ops_def)
  show "resolve_signal_group (plant_state sample_plant) ''g'' = Some ?g"
    unfolding st by (simp add: worker_state_new_def sample_device_def resolve_signal_group_def sample_group_def)
  have "parse_register_address (register_type_prefix Holding # show_nat (unat (7 :: u16))) = Some (Holding, 7)"
    by (rule parse_register_address_print)
  moreover have "char_of (55 :: nat) = CHR ''7''" by (simp add: char_of_eq_iff take_bit_eq_mod)
  ultimately show "parse_register_address (sg_register_address ?g) = Some (Holding, 7)"
    by (simp add: show_nat.simps digit_char_def sample_group_def)
  show "in_range (7, sg_register_count ?g)" by (simp add: in_range_def sample_group_def)
qed

theorem rpc_write_then_read_witness:
  "\<exists>d p1 l p2.
     handle_call (plant_hub sample_api memory_io (\<lambda>_. Inl ())) (rpc_handler_new [''plc''])
       (MWriteSignalGroup ''plc'' ''g'' (JObj sample_data)) sample_plant = (RData True d, p1) \<and>
     handle_call (plant_hub sample_api memory_io (\<lambda>_. Inl ())) (rpc_handler_new [''plc''])
       (MReadSignalGroup ''plc'' ''g'') p1 =
       (RData True (group_answer sample_api ''g'' (sample_group ''h7'' 3 sample_fields) sample_data l), p2)"
proof (rule rpc_write_then_read [OF number_laws_sample memory_register_device sample_plant_ready])
  let ?g = "sample_group ''h7'' 3 sample_fields"
  show "layout_ok (unat (sg_register_count ?g)) (sg_fields ?g)"
    by (simp add: layout_ok_def sample_group_def sample_fields_def sample_field_def in_buffer_def apart_def)
  show "data_ok sample_api (sg_fields ?g) sample_data"
    by (simp add: data_ok_def sample_group_def sample_fields_def sample_field_def sample_data_def sample_api_def)
  show "fm_name ` set (sg_fields ?g) \<subseteq> fst ` set sample_data"
    by (simp add: sample_group_def sample_fields_def sample_field_def sample_data_def)
qed

end
