(* ===== verification/Demo_Client.thy ===== *)
theory Demo_Client
  imports End_To_End
begin

text \<open>
  \<open>demo/jsonrpc_client.rs\<close>: the command line of the demonstration client, the requests it sends and
  what it makes of a response.  Printing, the socket and the reading of lines are left out; a line of
  the interactive mode is the list of its words.

  The lemmas follow the requests into the server: their members are not those of a method, and the
  data of a write does not have the form of a group's fields, so that no write is carried out.
\<close>

section \<open>Requests\<close>

record 'n robo_request =
  rr_jsonrpc :: string
  rr_method :: string
  rr_params :: "'n json"
  rr_id :: u64

definition robo_request_members :: "'n number_api \<Rightarrow> 'n robo_request \<Rightarrow> (string \<times> 'n json) list" where
  "robo_request_members api r =
     [(''jsonrpc'', JStr (rr_jsonrpc r)), (''method'', JStr (rr_method r)), (''params'', rr_params r),
      (''id'', json_u64 api (rr_id r))]"

definition demo_read :: "string \<Rightarrow> 'n robo_request" where
  "demo_read signal_group =
     \<lparr>rr_jsonrpc = ''2.0'', rr_method = ''read_signal_group'',
      rr_params = json_object [(''device_id'', JStr ''mock-device''), (''group_name'', JStr signal_group)], rr_id = 1\<rparr>"

definition demo_write_data :: "'n number_api \<Rightarrow> string \<Rightarrow> u16 \<Rightarrow> 'n json" where
  "demo_write_data api field v = json_object [(''field'', JStr field), (''value'', json_u64 api (ucast v))]"

definition demo_write :: "'n number_api \<Rightarrow> string \<Rightarrow> string \<Rightarrow> u16 \<Rightarrow> 'n robo_request" where
  "demo_write api signal_group field v =
     \<lparr>rr_jsonrpc = ''2.0'', rr_method = ''write_signal_group'',
      rr_params = json_object [(''device_id'', JStr ''mock-device''), (''group_name'', JStr signal_group),
        (''data'', demo_write_data api field v)], rr_id = 2\<rparr>"

definition demo_list :: "'n robo_request" where
  "demo_list = \<lparr>rr_jsonrpc = ''2.0'', rr_method = ''get_device_list'', rr_params = json_object [], rr_id = 3\<rparr>"

definition demo_status :: "'n robo_request" where
  "demo_status =
     \<lparr>rr_jsonrpc = ''2.0'', rr_method = ''get_status'',
      rr_params = json_object [(''device_id'', JStr ''mock-device'')], rr_id = 4\<rparr>"

section \<open>Commands\<close>

datatype 'n client_action =
    ShowHelp
  | ShowUsage string
  | SendRequest "'n robo_request"
  | StartInteractive
  | BadValue
  | UnknownCommand string

text \<open>\<open>main\<close>; a value that is no \<open>u16\<close> ends the program with the error of \<open>parse\<close>.\<close>

definition client_main :: "'n number_api \<Rightarrow> string list \<Rightarrow> 'n client_action" where
  "client_main api args =
     (if length args < 2 then ShowHelp
      else let command = args ! 1 in
        if command = ''read''
        then (if length args < 3 then ShowUsage ''read'' else SendRequest (demo_read (args ! 2)))
        else if command = ''write''
        then (if length args < 5 then ShowUsage ''write''
              else case parse_unsigned 65535 (args ! 4) of
                     None \<Rightarrow> BadValue
                   | Some v \<Rightarrow> SendRequest (demo_write api (args ! 2) (args ! 3) (word_of_nat v)))
        else if command = ''list'' then SendRequest demo_list
        else if command = ''status'' then SendRequest demo_status
        else if command = ''interactive'' then StartInteractive
        else UnknownCommand command)"

text \<open>A line of the interactive mode that is not empty and does not leave it.\<close>

definition interactive_command :: "'n number_api \<Rightarrow> string list \<Rightarrow> 'n client_action" where
  "interactive_command api parts =
     (let command = parts ! 0 in
      if command = ''read''
      then (if length parts > 1 then SendRequest (demo_read (parts ! 1)) else ShowUsage ''read'')
      else if command = ''write''
      then (if length parts > 3
            then (case parse_unsigned 65535 (parts ! 3) of
                    Some v \<Rightarrow> SendRequest (demo_write api (parts ! 1) (parts ! 2) (word_of_nat v))
                  | None \<Rightarrow> BadValue)
            else ShowUsage ''write'')
      else if command = ''list'' then SendRequest demo_list
      else if command = ''status'' then SendRequest demo_status
      else if command = ''help'' then ShowHelp
      else UnknownCommand command)"

section \<open>Responses\<close>

record 'n client_response =
  jr_id :: u64
  jr_result :: "'n json option"
  jr_error :: "(int \<times> string) option"

datatype 'n client_output = PrintResult "'n json" | PrintError string int | PrintNothing

definition client_report :: "'n client_response \<Rightarrow> 'n client_output" where
  "client_report response =
     (case jr_result response of
        Some r \<Rightarrow> PrintResult r
      | None \<Rightarrow> (case jr_error response of Some (code, message) \<Rightarrow> PrintError message code | None \<Rightarrow> PrintNothing))"

section \<open>What the server makes of the requests\<close>

lemma request_not_decoded: "decode_method (robo_request_members api r) = None"
  by (simp add: decode_method_def robo_request_members_def)

text \<open>The parameters alone are those of the methods the client means.\<close>

lemma json_object_params:
  "json_object [(''device_id'', d), (''group_name'', g)] = JObj [(''device_id'', d), (''group_name'', g)]"
  "json_object [(''device_id'', d), (''group_name'', g), (''data'', v)] =
     JObj [(''data'', v), (''device_id'', d), (''group_name'', g)]"
  "json_object [(''device_id'', d)] = JObj [(''device_id'', d)]"
  "json_object [(''field'', f), (''value'', v)] = JObj [(''field'', f), (''value'', v)]"
  by (simp_all add: json_object_def)

lemma demo_params_decode:
  "decode_method [(''m'', JStr (rr_method (demo_read g))), (''p'', rr_params (demo_read g))] =
     Some (MReadSignalGroup ''mock-device'' g)"
  "decode_method [(''m'', JStr (rr_method (demo_write api g field v))), (''p'', rr_params (demo_write api g field v))] =
     Some (MWriteSignalGroup ''mock-device'' g (demo_write_data api field v))"
  by (simp_all add: demo_read_def demo_write_def json_object_params decode_method_def
      decode_params_def members_in_def str_member_def)

lemma encode_text_member: "encode_fields_to_registers api ((name, JStr t) # data) fms cnt ord = Ret None"
  by (simp add: encode_fields_to_registers_def split: option.split)

text \<open>The parameters of the message for a write of the client.\<close>

definition demo_write_params :: "'n number_api \<Rightarrow> string \<Rightarrow> string \<Rightarrow> u16 \<Rightarrow> 'n json" where
  "demo_write_params api gname field v =
     json_object [(''group_name'', JStr gname), (''data'', demo_write_data api field v)]"

lemma demo_write_members:
  "group_name_param (demo_write_params api gname field v) = Some gname"
  "data_param (demo_write_params api gname field v) =
     Some [(''field'', JStr field), (''value'', json_u64 api (ucast v))]"
  by (simp_all add: demo_write_params_def demo_write_data_def group_name_param_def data_param_def
      json_get_json_object json_object_params)

lemma demo_write_no_op:
  "operation_to_modbus_op api s WriteSignalGroup (demo_write_params api gname field v) = Ret None"
  by (simp add: operation_to_modbus_op_def write_op_def write_coil_values_def write_holding_values_def
      demo_write_members encode_text_member split: option.split prod.split register_type.split sum.split)

text \<open>A request of a connected worker that has no Modbus operation is refused without an exchange.\<close>

lemma serve_without_op:
  fixes s :: "'c worker_state"
  assumes dev: "register_device io rd rng" and inv: "worker_inv s"
    and rq: "rq_operation rq \<noteq> GetStatus"
    and no_op: "\<And>s' :: 'c worker_state. operation_to_modbus_op api s' (rq_operation rq) (rq_params rq) = Ret None"
  shows "\<exists>e s' w'. serve api io rq s w = Ret ([send_response rq False JNull (Some e)], s', w') \<and> rd w' = rd w"
proof -
  obtain s1 ev w1 where c: "ensure_connected io s w = (True, s1, ev, w1)" "rd w1 = rd w"
    "ws_connection_pool s1 \<noteq> None"
    using ensure_connected_device [OF dev inv] by blast
  obtain g s2 where a: "try_acquire_operation_atomic s1 = (g, s2)" by (cases "try_acquire_operation_atomic s1")
  obtain pool where p: "ws_connection_pool s2 = Some pool" using acquire_frame [OF a] c(3) by auto
  note n = no_op [of s2]
  define name where "name = (case group_name_param (rq_params rq) of None \<Rightarrow> [] | Some n \<Rightarrow> n)"
  show ?thesis
  proof (cases "incomplete_write s2 (rq_operation rq) (rq_params rq) name")
    case None
    with c a p rq show ?thesis
      by (cases g) (simp_all add: serve_def handle_device_control_def get_pool_def run_task_def task_body_def
          n flip: name_def, blast+)
  next
    case (Some missing)
    with c a p rq show ?thesis
      by (cases g) (simp_all add: serve_def handle_device_control_def get_pool_def n flip: name_def, blast+)
  qed
qed

section \<open>Properties\<close>

text \<open>No command of the demonstration client reaches a method of the server: its requests carry
  \<open>method\<close> and \<open>params\<close>, a method is read from \<open>m\<close> and \<open>p\<close>.  Their parameters are those of the
  four methods the client means.\<close>

theorem client_requests_not_understood:
  "(case client_main api args of SendRequest r \<Rightarrow> decode_method (robo_request_members api r) = None | _ \<Rightarrow> True) \<and>
   (case interactive_command api parts of SendRequest r \<Rightarrow> decode_method (robo_request_members api r) = None | _ \<Rightarrow> True) \<and>
   decode_method [(''m'', JStr (rr_method (demo_read g))), (''p'', rr_params (demo_read g))] =
     Some (MReadSignalGroup ''mock-device'' g) \<and>
   decode_method [(''m'', JStr (rr_method (demo_write api g field v))), (''p'', rr_params (demo_write api g field v))] =
     Some (MWriteSignalGroup ''mock-device'' g (demo_write_data api field v))"
  by (simp add: request_not_decoded demo_params_decode split: client_action.split)

text \<open>Under the names the server reads, a write of the client is a call that ends with an error and leaves
  the registers of the device as they are: the server takes the members of \<open>data\<close> as fields of the group,
  and \<open>field\<close> holds a text.\<close>

lemma client_write_call:
  fixes p :: "('n, 'c, 'w) plant"
  assumes "register_device io rd rng" and "worker_inv (plant_state p)"
    and "dev_id (ws_device (plant_state p)) = ''mock-device''"
  shows "\<exists>e p'. handle_call (plant_hub api io parse_config) h
       (MWriteSignalGroup ''mock-device'' gname (demo_write_data api field v)) p = (RError e, p') \<and>
     rd (pl_device p') = rd (pl_device p)"
proof -
  let ?rq = "plant_request ''mock-device'' WriteSignalGroup (demo_write_params api gname field v) p"
  have "rq_operation ?rq \<noteq> GetStatus"
    "operation_to_modbus_op api s' (rq_operation ?rq) (rq_params ?rq) = Ret None" for s' :: "'c worker_state"
    by (simp_all add: plant_request_def demo_write_no_op)
  from serve_without_op [OF assms(1,2) this, of "pl_device p"] obtain e s' w' where
    "serve api io ?rq (plant_state p) (pl_device p) = Ret ([send_response ?rq False JNull (Some e)], s', w')"
    "rd w' = rd (pl_device p)" by blast
  with plant_call [OF assms(3) this(1), of parse_config] show ?thesis
    by (auto simp: demo_write_params_def)
qed

text \<open>What the server relies on of \<open>RpcServer::handle_request_payload\<close>: a payload that is a JSON object with a
  method calls the handler with it, one without a method is answered without calling the handler.\<close>

definition payload_law ::
  "(u8 list \<Rightarrow> 'n json option) \<Rightarrow> ('n, 'ch, 'w) hub_api \<Rightarrow> rpc_handler \<Rightarrow> (u8 list \<Rightarrow> 'w \<Rightarrow> 'o \<times> 'w) \<Rightarrow> bool" where
  "payload_law parse_json hub h handle_request_payload \<longleftrightarrow>
     (\<forall>bytes ms w. parse_json bytes = Some (JObj ms) \<longrightarrow>
        snd (handle_request_payload bytes w) =
          (case decode_method ms of None \<Rightarrow> w | Some m \<Rightarrow> snd (handle_call hub h m w)))"

text \<open>The members under the names the server reads.\<close>

definition renamed_members :: "'n robo_request \<Rightarrow> (string \<times> 'n json) list" where
  "renamed_members r = [(''m'', JStr (rr_method r)), (''p'', rr_params r)]"

lemma client_main_write:
  assumes "client_main api args = SendRequest r" and "args ! 1 = ''write''"
  shows "\<exists>g field v. r = demo_write api g field v"
  using assms by (auto simp: client_main_def Let_def split: if_splits option.splits)

text \<open>C15: A write command of the demonstration client changes nothing, whatever its arguments and whatever
  groups the device has: the request it sends has no method for the server, which calls no handler; and
  if the request had the names the server reads, the registers of the device would still be as before.\<close>

theorem client_write_changes_nothing:
  fixes p :: "('n, 'c, 'w) plant"
  assumes "register_device io rd rng" and "worker_inv (plant_state p)"
    and "dev_id (ws_device (plant_state p)) = ''mock-device''"
    and "payload_law parse_json (plant_hub api io parse_config) h handle_request_payload"
    and "client_main api args = SendRequest r" and "args ! 1 = ''write''"
    and "parse_json sent = Some (JObj (robo_request_members api r))"
    and "parse_json renamed = Some (JObj (renamed_members r))"
  shows "snd (handle_request_payload sent p) = p \<and>
     rd (pl_device (snd (handle_request_payload renamed p))) = rd (pl_device p)"
proof
  from assms(4,7) show "snd (handle_request_payload sent p) = p"
    by (simp add: payload_law_def request_not_decoded)
  obtain g field v where r: "r = demo_write api g field v" using client_main_write [OF assms(5,6)] by blast
  with assms(4,8) have "snd (handle_request_payload renamed p) =
      snd (handle_call (plant_hub api io parse_config) h
        (MWriteSignalGroup ''mock-device'' g (demo_write_data api field v)) p)"
    using demo_params_decode(2) [of api g field v] by (simp add: payload_law_def renamed_members_def)
  with client_write_call [OF assms(1-3), of api parse_config h g field v]
  show "rd (pl_device (snd (handle_request_payload renamed p))) = rd (pl_device p)" by auto
qed

definition demo_plant :: "(sample_number, unit, nat \<Rightarrow> u16) plant" where
  "demo_plant = sample_plant\<lparr>pl_worker := modbus_worker_new
     (sample_device ''mock-device'' [sample_group ''h7'' 3 sample_fields])\<rparr>"

text \<open>A crate that satisfies the law, and a text in which a first byte tells the two requests apart.\<close>

definition sample_request :: "sample_number robo_request" where
  "sample_request = demo_write sample_api ''g'' ''speed'' 2000"

definition sample_parse :: "u8 list \<Rightarrow> sample_number json option" where
  "sample_parse bytes = Some (JObj
     (if bytes = [1] then robo_request_members sample_api sample_request else renamed_members sample_request))"

definition sample_payload ::
  "(sample_number, 'ch, 'w) hub_api \<Rightarrow> u8 list \<Rightarrow> 'w \<Rightarrow> sample_number rpc_result_type option \<times> 'w" where
  "sample_payload hub bytes w =
     (case sample_parse bytes of
        Some (JObj ms) \<Rightarrow>
          (case decode_method ms of
             None \<Rightarrow> (None, w)
           | Some m \<Rightarrow> map_prod Some id (handle_call hub (rpc_handler_new [''mock-device'']) m w))
      | _ \<Rightarrow> (None, w))"

lemma sample_payload_law:
  "payload_law sample_parse hub (rpc_handler_new [''mock-device'']) (sample_payload hub)"
  by (auto simp: payload_law_def sample_payload_def split: option.split)

lemma sample_command:
  "client_main sample_api [''jsonrpc_client'', ''write'', ''g'', ''speed'', ''2000''] = SendRequest sample_request"
proof -
  have "parse_unsigned 65535 ''2000'' = Some 2000"
    by (simp add: parse_unsigned_def strip_plus_def digit_val_def)
  then show ?thesis by (simp add: client_main_def sample_request_def)
qed

theorem client_write_changes_nothing_witness:
  "snd (sample_payload (plant_hub sample_api memory_io (\<lambda>_. Inl ())) [1] demo_plant) = demo_plant \<and>
   pl_device (snd (sample_payload (plant_hub sample_api memory_io (\<lambda>_. Inl ())) [2] demo_plant)) = (\<lambda>_. 0)"
proof -
  have st: "plant_state demo_plant = worker_state_new (sample_device ''mock-device'' [sample_group ''h7'' 3 sample_fields])"
    by (simp add: demo_plant_def modbus_worker_new_def)
  have inv: "worker_inv (plant_state demo_plant)" unfolding st by (rule worker_inv_new)
  have id: "dev_id (ws_device (plant_state demo_plant)) = ''mock-device''"
    unfolding st by (simp add: worker_state_new_def sample_device_def)
  have "pl_device demo_plant = (\<lambda>_. 0)" by (simp add: demo_plant_def sample_plant_def)
  with client_write_changes_nothing [OF memory_register_device inv id sample_payload_law sample_command,
      of "[1]" "[2]"]
  show ?thesis by (simp add: sample_parse_def)
qed

end
