(* ===== verification/Device_States.thy ===== *)
theory Device_States
  imports Messages Config "HOL-Library.AList"
begin

text \<open>
  The table of device states shared by the workers, and the two workers that say which devices it
  holds: \<open>src/workers/manager.rs\<close>, which registers the configured devices, and
  \<open>src/workers/config_updater.rs\<close>, which follows the updates of the configuration.

  The table (a \<open>DashMap\<close>) is the association list in the order it iterates.  Parsing the JSON of an
  update is the parameter \<open>parse_config\<close>; the order in which a \<open>HashSet\<close> iterates is the parameter
  \<open>iter\<close>.  \<open>Instant::now()\<close> is the parameter \<open>instant_now\<close>, a step of the world.

  The lemmas show that the table holds exactly the devices of the current configuration.
\<close>

section \<open>The table\<close>

type_synonym device_states = "(string \<times> device_status) list"

interpretation states: keyed_store map_of AList.update "[] :: device_states"
  by unfold_locales (simp_all add: update_conv')

definition initial_status :: "nat \<Rightarrow> device_status" where
  "initial_status now =
     \<lparr>ds_connected = False, ds_last_communication = now, ds_error_count = 0, ds_reconnect_count = 0\<rparr>"

section \<open>The device manager\<close>

record device_manager =
  dm_config :: config
  dm_worker_map :: "string \<rightharpoonup> string"

definition device_manager_new :: "config \<Rightarrow> device_manager" where
  "device_manager_new c =
     \<lparr>dm_config = c,
      dm_worker_map = hash_collect (map (\<lambda>d. (dev_id d, ''modbus_worker_'' @ dev_id d)) (cfg_devices c))\<rparr>"

text \<open>Registration of a list of devices by their ids, each with its own reading of the clock.\<close>

fun insert_devices :: "('w \<Rightarrow> nat \<times> 'w) \<Rightarrow> string list \<Rightarrow> device_states \<Rightarrow> 'w \<Rightarrow> device_states \<times> 'w" where
  "insert_devices instant_now [] states w = (states, w)"
| "insert_devices instant_now (i # is) states w =
     (let (now, w1) = instant_now w
      in insert_devices instant_now is (AList.update i (initial_status now) states) w1)"

definition register_devices ::
  "('w \<Rightarrow> nat \<times> 'w) \<Rightarrow> device_manager \<Rightarrow> device_states \<Rightarrow> 'w \<Rightarrow> device_states \<times> 'w" where
  "register_devices instant_now dm states w =
     insert_devices instant_now (map dev_id (cfg_devices (dm_config dm))) states w"

section \<open>The configuration updater\<close>

record config_updater =
  cu_config :: config

definition config_updater_new :: "config \<Rightarrow> config_updater" where
  "config_updater_new c = \<lparr>cu_config = c\<rparr>"

record config_update_summary =
  cus_added :: "string list"
  cus_removed :: "string list"
  cus_unchanged :: "string list"

definition device_ids :: "config \<Rightarrow> string set" where
  "device_ids c = set (map dev_id (cfg_devices c))"

definition apply_config_update ::
  "(string \<Rightarrow> 'e + config) \<Rightarrow> (string set \<Rightarrow> string list) \<Rightarrow> ('w \<Rightarrow> nat \<times> 'w) \<Rightarrow> string \<Rightarrow> config_updater
     \<Rightarrow> device_states \<Rightarrow> 'w \<Rightarrow> ('e + config_update_summary) \<times> config_updater \<times> device_states \<times> 'w" where
  "apply_config_update parse_config iter instant_now config_json cu states w =
     (case parse_config config_json of
        Inl e \<Rightarrow> (Inl e, cu, states, w)
      | Inr new_config \<Rightarrow>
          let old_device_ids = device_ids (cu_config cu);
              new_device_ids = device_ids new_config;
              added = iter (new_device_ids - old_device_ids);
              removed = iter (old_device_ids - new_device_ids);
              unchanged = iter (old_device_ids \<inter> new_device_ids);
              states1 = fold AList.delete removed states;
              (states2, w1) = insert_devices instant_now added states1 w
          in (Inr \<lparr>cus_added = added, cus_removed = removed, cus_unchanged = unchanged\<rparr>,
              cu\<lparr>cu_config := new_config\<rparr>, states2, w1))"

text \<open>The messages of the hub, one after the other; other messages than updates are ignored.\<close>

fun config_updater_run ::
  "(string \<Rightarrow> 'e + config) \<Rightarrow> (string set \<Rightarrow> string list) \<Rightarrow> ('w \<Rightarrow> nat \<times> 'w) \<Rightarrow> ('n, 'ch) message list
     \<Rightarrow> config_updater \<Rightarrow> device_states \<Rightarrow> 'w \<Rightarrow> config_updater \<times> device_states \<times> 'w" where
  "config_updater_run parse_config iter instant_now [] cu states w = (cu, states, w)"
| "config_updater_run parse_config iter instant_now (ConfigUpdate config # msgs) cu states w =
     (let (r, cu1, states1, w1) = apply_config_update parse_config iter instant_now config cu states w
      in config_updater_run parse_config iter instant_now msgs cu1 states1 w1)"
| "config_updater_run parse_config iter instant_now (msg # msgs) cu states w =
     config_updater_run parse_config iter instant_now msgs cu states w"

section \<open>Lemmas\<close>

text \<open>What the standard library promises of an iteration over a set: every element, once.\<close>

definition iteration_order :: "(string set \<Rightarrow> string list) \<Rightarrow> bool" where
  "iteration_order iter \<longleftrightarrow> (\<forall>S. finite S \<longrightarrow> set (iter S) = S \<and> distinct (iter S))"

lemma iteration_order_sorted: "iteration_order sorted_list_of_set"
  by (simp add: iteration_order_def)

lemma iteration_orderD: "iteration_order iter \<Longrightarrow> finite S \<Longrightarrow> set (iter S) = S"
  by (simp add: iteration_order_def)

lemma finite_device_ids [simp]: "finite (device_ids c)"
  by (simp add: device_ids_def)

lemma insert_devices_other:
  "k \<notin> set is \<Longrightarrow> map_of (fst (insert_devices instant_now is states w)) k = map_of states k"
  by (induction "is" arbitrary: states w) (auto simp: split_beta update_conv')

lemma insert_devices_new:
  "k \<in> set is \<Longrightarrow> \<exists>now. map_of (fst (insert_devices instant_now is states w)) k = Some (initial_status now)"
proof (induction "is" arbitrary: states w)
  case (Cons i "is")
  show ?case
  proof (cases "k \<in> set is")
    case True
    with Cons.IH show ?thesis by (simp add: split_beta)
  next
    case False
    with Cons.prems show ?thesis by (auto simp: split_beta insert_devices_other update_conv')
  qed
qed simp

lemma insert_devices_dom:
  "dom (map_of (fst (insert_devices instant_now is states w))) = dom (map_of states) \<union> set is"
  by (induction "is" arbitrary: states w) (auto simp: split_beta update_conv')

lemma fold_delete_lookup:
  "map_of (fold AList.delete ks states) k = (if k \<in> set ks then None else map_of states k)"
  by (induction ks arbitrary: states) (auto simp: delete_conv')

lemma apply_config_update_cases:
  assumes "apply_config_update parse_config iter instant_now json cu states w = (r, cu', states', w')"
  obtains (error) e where "r = Inl e" "cu' = cu" "states' = states" "parse_config json = Inl e"
  | (ok) c where "parse_config json = Inr c" "cu_config cu' = c"
      "r = Inr \<lparr>cus_added = iter (device_ids c - device_ids (cu_config cu)),
        cus_removed = iter (device_ids (cu_config cu) - device_ids c),
        cus_unchanged = iter (device_ids (cu_config cu) \<inter> device_ids c)\<rparr>"
      "states' = fst (insert_devices instant_now (iter (device_ids c - device_ids (cu_config cu)))
        (fold AList.delete (iter (device_ids (cu_config cu) - device_ids c)) states) w)"
  using assms by (auto simp: apply_config_update_def Let_def split_beta split: sum.splits)

lemma apply_config_update_dom:
  assumes "iteration_order iter" and "dom (map_of states) = device_ids (cu_config cu)"
    and "apply_config_update parse_config iter instant_now json cu states w = (r, cu', states', w')"
  shows "dom (map_of states') = device_ids (cu_config cu')"
  using assms(3)
proof (cases rule: apply_config_update_cases)
  case (ok c)
  have "dom (map_of (fold AList.delete ks states)) = dom (map_of states) - set ks" for ks
    by (auto simp: fold_delete_lookup dom_def)
  with ok show ?thesis
    using assms(2) by (auto simp: insert_devices_dom iteration_orderD [OF assms(1)])
next
  case (error e)
  with assms(2) show ?thesis by simp
qed

lemma config_updater_run_dom:
  assumes "iteration_order iter"
  shows "dom (map_of states) = device_ids (cu_config cu) \<Longrightarrow>
     config_updater_run parse_config iter instant_now msgs cu states w = (cu', states', w') \<Longrightarrow>
     dom (map_of states') = device_ids (cu_config cu')"
proof (induction msgs arbitrary: cu states w)
  case (Cons msg msgs)
  show ?case
  proof (cases msg)
    case (ConfigUpdate json)
    obtain r cu1 states1 w1 where step:
      "apply_config_update parse_config iter instant_now json cu states w = (r, cu1, states1, w1)"
      by (cases "apply_config_update parse_config iter instant_now json cu states w")
    from Cons.prems(2) show ?thesis
      by (intro Cons.IH [OF apply_config_update_dom [OF assms Cons.prems(1) step]])
        (simp add: ConfigUpdate step)
  qed (use Cons in simp_all)
qed simp

text \<open>Configurations for the witnesses.\<close>

definition sample_config :: "string list \<Rightarrow> config" where
  "sample_config is = config_default\<lparr>cfg_devices := map (\<lambda>i. sample_device i []) is\<rparr>"

definition sample_parse :: "string \<Rightarrow> unit + config" where
  "sample_parse s = (if s = ''{new}'' then Inr (sample_config [''b'', ''c'']) else Inl ())"

lemma device_ids_sample: "device_ids (sample_config is) = set is"
  by (induction "is") (simp_all add: device_ids_def sample_config_def sample_device_def)

section \<open>Properties\<close>

text \<open>An update of the configuration that parses leaves the table holding exactly the devices of the
  new configuration: the statuses of the devices that stay are kept, the new ones are disconnected with
  no errors; one that does not parse changes nothing.\<close>

theorem config_update_synchronises:
  assumes "iteration_order iter" and "dom (map_of states) = device_ids (cu_config cu)"
    and "apply_config_update parse_config iter instant_now json cu states w = (r, cu', states', w')"
  shows "case parse_config json of
     Inl e \<Rightarrow> r = Inl e \<and> cu' = cu \<and> states' = states
   | Inr c \<Rightarrow> cu_config cu' = c \<and> dom (map_of states') = device_ids c \<and>
       (\<forall>k \<in> device_ids c.
          if k \<in> device_ids (cu_config cu) then map_of states' k = map_of states k
          else \<exists>now. map_of states' k = Some (initial_status now))"
  using assms(3)
proof (cases rule: apply_config_update_cases)
  case (ok c)
  show ?thesis
    using ok apply_config_update_dom [OF assms]
    by (auto simp: iteration_orderD [OF assms(1)] insert_devices_new insert_devices_other fold_delete_lookup)
qed simp

theorem config_update_synchronises_witness:
  "\<exists>r cu' states' w'. apply_config_update sample_parse sorted_list_of_set (\<lambda>w. (w, Suc w)) ''{new}''
       (config_updater_new (sample_config [''a'', ''b''])) [(''a'', initial_status 5), (''b'', initial_status 6)] 7
       = (r, cu', states', w') \<and>
     map_of states' ''b'' = Some (initial_status 6) \<and> dom (map_of states') = {''b'', ''c''}"
proof -
  let ?cu = "config_updater_new (sample_config [''a'', ''b''])"
  let ?st = "[(''a'', initial_status 5), (''b'', initial_status 6)]"
  obtain r cu' states' w' where step:
    "apply_config_update sample_parse sorted_list_of_set (\<lambda>w. (w, Suc w)) ''{new}'' ?cu ?st 7 = (r, cu', states', w')"
    by (cases "apply_config_update sample_parse sorted_list_of_set (\<lambda>w. (w, Suc w)) ''{new}'' ?cu ?st 7")
  have dom: "dom (map_of ?st) = device_ids (cu_config ?cu)"
    by (auto simp: config_updater_new_def device_ids_sample)
  from config_update_synchronises [OF iteration_order_sorted dom step]
  have "dom (map_of states') = {''b'', ''c''}" "map_of states' ''b'' = map_of ?st ''b''"
    by (simp_all add: sample_parse_def device_ids_sample config_updater_new_def)
  then show ?thesis using step by (intro exI conjI) auto
qed

text \<open>C22: Registered at the start from the configuration and then led through any sequence of hub
  messages, the table holds exactly the devices of the configuration the updater has last accepted.\<close>

theorem device_table_follows_config:
  assumes "iteration_order iter"
    and "register_devices instant_now (device_manager_new c) [] w = (states, w1)"
    and "config_updater_run parse_config iter instant_now msgs (config_updater_new c) states w1 = (cu', states', w')"
  shows "fst ` set states' = device_ids (cu_config cu')"
proof -
  have "dom (map_of states) = device_ids (cu_config (config_updater_new c))"
    using insert_devices_dom [of instant_now "map dev_id (cfg_devices c)" "[]" w] assms(2)
    by (simp add: register_devices_def device_manager_new_def config_updater_new_def device_ids_def)
  from config_updater_run_dom [OF assms(1) this assms(3)] show ?thesis by (simp add: dom_map_of_conv_image_fst)
qed

theorem device_table_follows_config_witness:
  "fst ` set (fst (snd (config_updater_run sample_parse sorted_list_of_set (\<lambda>w. (w, Suc w))
       [ConfigUpdate ''?'', ConfigUpdate ''{new}'' :: (unit, unit) message]
       (config_updater_new (sample_config [''a'', ''b'']))
       (fst (register_devices (\<lambda>w. (w, Suc w)) (device_manager_new (sample_config [''a'', ''b''])) [] 0)) 2)))
     = {''b'', ''c''}"
proof -
  let ?msgs = "[ConfigUpdate ''?'', ConfigUpdate ''{new}'' :: (unit, unit) message]"
  let ?c = "sample_config [''a'', ''b'']"
  obtain states where reg: "register_devices (\<lambda>w. (w, Suc w)) (device_manager_new ?c) [] 0 = (states, 2 :: nat)"
    by (simp add: register_devices_def device_manager_new_def sample_config_def sample_device_def)
  obtain cu' states' w' where run:
    "config_updater_run sample_parse sorted_list_of_set (\<lambda>w. (w, Suc w)) ?msgs (config_updater_new ?c) states 2
       = (cu', states', w')"
    by (cases "config_updater_run sample_parse sorted_list_of_set (\<lambda>w. (w, Suc w)) ?msgs (config_updater_new ?c) states 2")
  have "cu_config cu' = sample_config [''b'', ''c'']"
    using run by (auto simp: apply_config_update_def sample_parse_def Let_def split_beta)
  with device_table_follows_config [OF iteration_order_sorted reg run] run reg show ?thesis
    by (simp add: device_ids_sample)
qed

end
