(* ===== verification/Config_Loader.thy ===== *)
theory Config_Loader
  imports Device_States Hub_Protection
begin

text \<open>
  \<open>src/workers/config_loader.rs\<close>: reloading the configuration file when it changes, the paths at which
  the new configuration differs from the old one, and the broadcast of the update.  Reading and parsing
  the file and the serializer are parameters.  The file watcher and the bridge between its unbounded
  channel and the bounded one are not modelled: a file event is an argument of the step.

  The lemmas show what the list of changed paths says, and what a reload does to the loader, the hub
  and the table of devices.
\<close>

section \<open>Differences\<close>

definition key_path :: "string \<Rightarrow> string \<Rightarrow> string" where
  "key_path pre key = (if pre = [] then key else pre @ ''.'' @ key)"

lemma size_json_member [termination_simp]:
  "map_of kvs k = Some v \<Longrightarrow> size v < Suc (size_list (size_prod (\<lambda>_. 0) size) kvs)"
  by (induction kvs) (auto split: if_splits)

function collect_diff_paths :: "string \<Rightarrow> 'n json \<Rightarrow> 'n json \<Rightarrow> string list" where
  "collect_diff_paths pre old new =
     (case old of
        JObj old_map \<Rightarrow>
          (case new of
             JObj new_map \<Rightarrow>
               concat (map (\<lambda>key.
                 case map_of old_map key of
                   Some old_val \<Rightarrow>
                     (case map_of new_map key of
                        Some new_val \<Rightarrow> collect_diff_paths (key_path pre key) old_val new_val
                      | None \<Rightarrow> [key_path pre key])
                 | None \<Rightarrow> [key_path pre key])
                 (sorted_list_of_set (fst ` set old_map \<union> fst ` set new_map)))
           | _ \<Rightarrow> if old \<noteq> new then [pre] else [])
      | _ \<Rightarrow> if old \<noteq> new then [pre] else [])"
  by pat_completeness auto
termination
  by (relation "measure (\<lambda>(pre, old, new). size old)") (auto dest: size_json_member)

declare collect_diff_paths.simps [simp del]

section \<open>Reloading\<close>

record config_loader =
  cl_config_path :: string
  cl_current_config :: config

definition config_loader_new :: "string \<Rightarrow> config \<Rightarrow> config_loader" where
  "config_loader_new path c = \<lparr>cl_config_path = path, cl_current_config = c\<rparr>"

text \<open>The file system and the serializer, and the errors of a reload.\<close>

record ('n, 'io, 'de, 'se) config_io =
  read_file :: "string \<Rightarrow> 'io + string"
  parse_toml :: "string \<Rightarrow> 'de + config"
  to_value :: "config \<Rightarrow> 'se + 'n json"
  to_json_string :: "config \<Rightarrow> 'se + string"

datatype ('io, 'de, 'se) reload_error = ConfigErr "('io, 'de) config_error" | SerdeErr 'se

definition reload_config ::
  "('n, 'io, 'de, 'se) config_io \<Rightarrow> config_loader
     \<Rightarrow> ((('io, 'de, 'se) reload_error + (string \<times> string list) option) \<times> config_loader) outcome" where
  "reload_config io cl =
     bind_outcome (config_from_file (read_file io) (parse_toml io) (cl_config_path cl)) (\<lambda>r.
       case r of
         Inl e \<Rightarrow> Ret (Inl (ConfigErr e), cl)
       | Inr new_config \<Rightarrow>
         (case to_value io (cl_current_config cl) of
            Inl e \<Rightarrow> Ret (Inl (SerdeErr e), cl)
          | Inr old_value \<Rightarrow>
            (case to_value io new_config of
               Inl e \<Rightarrow> Ret (Inl (SerdeErr e), cl)
             | Inr new_value \<Rightarrow>
                 let changed_paths = collect_diff_paths [] old_value new_value in
                 if changed_paths = [] then Ret (Inr None, cl)
                 else (case to_json_string io new_config of
                         Inl e \<Rightarrow> Ret (Inl (SerdeErr e), cl)
                       | Inr config_json \<Rightarrow>
                           Ret (Inr (Some (config_json, changed_paths)), cl\<lparr>cl_current_config := new_config\<rparr>)))))"

text \<open>What the loop does with one file event: the result of the broadcast is only logged.\<close>

definition config_file_event ::
  "('n, 'io, 'de, 'se) config_io \<Rightarrow> ('n, 'ch, 'w) hub_api \<Rightarrow> config_loader \<Rightarrow> 'w \<Rightarrow> (config_loader \<times> 'w) outcome" where
  "config_file_event io hub cl w =
     map_outcome (\<lambda>(r, cl').
       case r of
         Inr (Some (config_json, changed_paths)) \<Rightarrow>
           (cl', snd (hub_send hub (ConfigUpdate config_json) DEFAULT_HUB_SEND_TIMEOUT w))
       | _ \<Rightarrow> (cl', w))
     (reload_config io cl)"

section \<open>Lemmas\<close>

text \<open>The values the serializer gives: the members of every object that is reached through objects are
  sorted by key.\<close>

fun json_wf :: "'n json \<Rightarrow> bool" where
  "json_wf (JObj kvs) \<longleftrightarrow> sorted_wrt (<) (map fst kvs) \<and> list_all (\<lambda>(k, v). json_wf v) kvs"
| "json_wf _ \<longleftrightarrow> True"

definition object_keys :: "(string \<times> 'n json) list \<Rightarrow> (string \<times> 'n json) list \<Rightarrow> string set" where
  "object_keys o1 o2 = fst ` set o1 \<union> fst ` set o2"

definition member_paths :: "string \<Rightarrow> 'n json option \<Rightarrow> 'n json option \<Rightarrow> string list" where
  "member_paths p old new =
     (case (old, new) of (Some a, Some b) \<Rightarrow> collect_diff_paths p a b | _ \<Rightarrow> [p])"

lemma collect_objects:
  "set (collect_diff_paths pre (JObj o1) (JObj o2)) =
     (\<Union>key \<in> object_keys o1 o2. set (member_paths (key_path pre key) (map_of o1 key) (map_of o2 key)))"
proof -
  have "(case map_of o1 key of
           Some old_val \<Rightarrow>
             (case map_of o2 key of
                Some new_val \<Rightarrow> collect_diff_paths (key_path pre key) old_val new_val
              | None \<Rightarrow> [key_path pre key])
         | None \<Rightarrow> [key_path pre key]) = member_paths (key_path pre key) (map_of o1 key) (map_of o2 key)" for key
    by (simp add: member_paths_def split: option.split)
  then show ?thesis by (subst collect_diff_paths.simps) (simp add: object_keys_def)
qed

lemma collect_other:
  assumes "\<not> (\<exists>o1 o2. old = JObj o1 \<and> new = JObj o2)"
  shows "collect_diff_paths pre old new = (if old \<noteq> new then [pre] else [])"
  using assms by (subst collect_diff_paths.simps) (auto split: json.split)

lemma sorted_keys_eq:
  assumes "sorted_wrt (<) (map fst xs)" and "sorted_wrt (<) (map fst ys)" and "map_of xs = map_of ys"
  shows "xs = (ys :: ('k :: linorder \<times> 'v) list)"
proof -
  have d: "distinct (map fst xs)" "distinct (map fst ys)"
    using assms(1,2) by (auto simp: strict_sorted_iff)
  have "set xs = set ys" using map_of_inject_set [OF d] assms(3) by simp
  moreover have "inj_on fst (set xs)" using d(1) by (simp add: distinct_map)
  ultimately show ?thesis
    using assms(1,2) by (intro map_sorted_distinct_set_unique [of fst]) (simp_all add: strict_sorted_iff)
qed

lemma json_wf_member: "json_wf (JObj o1) \<Longrightarrow> map_of o1 k = Some a \<Longrightarrow> json_wf a"
  by (auto simp: list_all_iff dest: map_of_SomeD)

lemma member_paths_empty:
  "member_paths p old new = [] \<longleftrightarrow> (\<exists>a b. old = Some a \<and> new = Some b \<and> collect_diff_paths p a b = [])"
  by (auto simp: member_paths_def split: option.split)

lemma map_of_eq_None_keys: "k \<notin> object_keys o1 o2 \<Longrightarrow> map_of o1 k = None \<and> map_of o2 k = None"
  by (simp add: object_keys_def map_of_eq_None_iff)

lemma diff_empty_iff:
  "json_wf old \<Longrightarrow> json_wf new \<Longrightarrow> collect_diff_paths pre old new = [] \<longleftrightarrow> old = new"
proof (induction old arbitrary: pre new rule: measure_induct_rule [of size])
  case (less old)
  show ?case
  proof (cases "\<exists>o1 o2. old = JObj o1 \<and> new = JObj o2")
    case False
    then show ?thesis by (simp add: collect_other)
  next
    case True
    then obtain o1 o2 where o: "old = JObj o1" "new = JObj o2" by blast
    have member: "member_paths (key_path pre k) (map_of o1 k) (map_of o2 k) = [] \<longleftrightarrow>
        (\<exists>a. map_of o1 k = Some a \<and> map_of o2 k = Some a)" for k
    proof -
      have "collect_diff_paths (key_path pre k) a b = [] \<longleftrightarrow> a = b"
        if a: "map_of o1 k = Some a" and b: "map_of o2 k = Some b" for a b
      proof (rule less.IH)
        show "size a < size old" using size_json_member [OF a] o by simp
        show "json_wf a" "json_wf b"
          using json_wf_member [OF _ a] json_wf_member [OF _ b] less.prems unfolding o by blast+
      qed
      then show ?thesis unfolding member_paths_empty by blast
    qed
    have "collect_diff_paths pre old new = [] \<longleftrightarrow> set (collect_diff_paths pre old new) = {}" by simp
    also have "\<dots> \<longleftrightarrow> (\<forall>k \<in> object_keys o1 o2. member_paths (key_path pre k) (map_of o1 k) (map_of o2 k) = [])"
      unfolding o collect_objects by simp
    also have "\<dots> \<longleftrightarrow> (\<forall>k \<in> object_keys o1 o2. \<exists>a. map_of o1 k = Some a \<and> map_of o2 k = Some a)"
      unfolding member ..
    also have "\<dots> \<longleftrightarrow> map_of o1 = map_of o2"
    proof
      assume eq: "\<forall>k \<in> object_keys o1 o2. \<exists>a. map_of o1 k = Some a \<and> map_of o2 k = Some a"
      show "map_of o1 = map_of o2"
      proof
        fix k
        show "map_of o1 k = map_of o2 k"
          using eq map_of_eq_None_keys [of k o1 o2] by (cases "k \<in> object_keys o1 o2") auto
      qed
    next
      assume eq: "map_of o1 = map_of o2"
      have "map_of o1 k \<noteq> None \<or> map_of o2 k \<noteq> None" if "k \<in> object_keys o1 o2" for k
        using that by (auto simp: object_keys_def map_of_eq_None_iff)
      then show "\<forall>k \<in> object_keys o1 o2. \<exists>a. map_of o1 k = Some a \<and> map_of o2 k = Some a"
        unfolding eq by simp
    qed
    also have "\<dots> \<longleftrightarrow> old = new"
      using sorted_keys_eq [of o1 o2] less.prems o by auto
    finally show ?thesis .
  qed
qed

lemma diff_path_prefix:
  "pre \<noteq> [] \<Longrightarrow> p \<in> set (collect_diff_paths pre old new) \<Longrightarrow> p = pre \<or> (\<exists>s. p = pre @ CHR ''.'' # s)"
proof (induction old arbitrary: pre new rule: measure_induct_rule [of size])
  case (less old)
  show ?case
  proof (cases "\<exists>o1 o2. old = JObj o1 \<and> new = JObj o2")
    case False
    then show ?thesis using less.prems by (auto simp: collect_other split: if_splits)
  next
    case True
    then obtain o1 o2 where o: "old = JObj o1" "new = JObj o2" by blast
    with less.prems(2) obtain k where k: "p \<in> set (member_paths (key_path pre k) (map_of o1 k) (map_of o2 k))"
      by (auto simp: collect_objects)
    have kp: "key_path pre k = pre @ CHR ''.'' # k" using less.prems(1) by (simp add: key_path_def)
    show ?thesis
    proof (cases "\<exists>a b. map_of o1 k = Some a \<and> map_of o2 k = Some b")
      case False
      with k kp show ?thesis by (auto simp: member_paths_def split: option.splits)
    next
      case True
      then obtain a b where ab: "map_of o1 k = Some a" "map_of o2 k = Some b" by blast
      have "p = key_path pre k \<or> (\<exists>s. p = key_path pre k @ CHR ''.'' # s)"
        using k ab o kp by (intro less.IH [of a _ b]) (auto simp: member_paths_def dest: size_json_member)
      with kp show ?thesis by auto
    qed
  qed
qed

lemma diff_self: "collect_diff_paths pre v v = []"
proof (induction v arbitrary: pre rule: measure_induct_rule [of size])
  case (less v)
  show ?case
  proof (cases "\<exists>o1. v = JObj o1")
    case True
    then obtain o1 where v: "v = JObj o1" by blast
    have "member_paths (key_path pre k) (map_of o1 k) (map_of o1 k) = []" if k: "k \<in> object_keys o1 o1" for k
    proof -
      obtain a where a: "map_of o1 k = Some a" using k by (cases "map_of o1 k") (auto simp: object_keys_def map_of_eq_None_iff)
      have "collect_diff_paths (key_path pre k) a a = []" using size_json_member [OF a] v by (intro less.IH) simp
      with a show ?thesis by (simp add: member_paths_def)
    qed
    then have "set (collect_diff_paths pre v v) = {}" unfolding v collect_objects by simp
    then show ?thesis by simp
  qed (simp add: collect_other)
qed

text \<open>The section of the configuration a path lies in.\<close>

definition path_section :: "string \<Rightarrow> string" where
  "path_section p = takeWhile (\<lambda>c. c \<noteq> CHR ''.'') p"

lemma path_section_member:
  assumes "CHR ''.'' \<notin> set k" and "p = k \<or> (\<exists>s. p = k @ CHR ''.'' # s)"
  shows "path_section p = k"
proof -
  have "takeWhile (\<lambda>c. c \<noteq> CHR ''.'') k = k"
    unfolding takeWhile_eq_all_conv using assms(1) by blast
  with assms(2) show ?thesis by (elim disjE exE) (simp_all add: path_section_def takeWhile_tail)
qed

lemma member_paths_section:
  assumes "k \<noteq> []" and "CHR ''.'' \<notin> set k" and "p \<in> set (member_paths k old new)"
  shows "path_section p = k"
proof (rule path_section_member [OF assms(2)])
  show "p = k \<or> (\<exists>s. p = k @ CHR ''.'' # s)"
    using assms(3) diff_path_prefix [OF assms(1)] by (auto simp: member_paths_def split: option.splits)
qed

lemma reload_config_changed:
  assumes "reload_config io cl = Ret (Inr (Some (config_json, paths)), cl')"
  shows "\<exists>c. config_from_file (read_file io) (parse_toml io) (cl_config_path cl) = Ret (Inr c) \<and>
     cl' = cl\<lparr>cl_current_config := c\<rparr> \<and> to_json_string io c = Inr config_json \<and> (\<exists>v. to_value io c = Inr v)"
proof (cases "config_from_file (read_file io) (parse_toml io) (cl_config_path cl)")
  case (Ret r)
  with assms show ?thesis
    by (cases r) (auto simp: reload_config_def Let_def split: sum.splits if_splits)
qed (use assms in \<open>simp add: reload_config_def\<close>)

lemma reload_config_again:
  assumes "reload_config io cl = Ret (Inr (Some p), cl')"
  shows "reload_config io cl' = Ret (Inr None, cl')"
proof -
  obtain config_json paths where p: "p = (config_json, paths)" by (cases p)
  obtain c v where "config_from_file (read_file io) (parse_toml io) (cl_config_path cl) = Ret (Inr c)"
    "cl' = cl\<lparr>cl_current_config := c\<rparr>" "to_value io c = Inr v"
    using reload_config_changed [OF assms [unfolded p]] by auto
  then show ?thesis by (simp add: reload_config_def diff_self)
qed

lemma reload_config_unchanged:
  assumes "reload_config io cl = Ret (r, cl')" and "\<And>p. r \<noteq> Inr (Some p)"
  shows "cl' = cl"
proof (cases "config_from_file (read_file io) (parse_toml io) (cl_config_path cl)")
  case (Ret q)
  with assms show ?thesis
    by (cases q) (auto simp: reload_config_def Let_def split: sum.splits if_splits)
qed (use assms in \<open>simp add: reload_config_def\<close>)

section \<open>Properties\<close>

text \<open>The sections of the reported paths are exactly the members of the configuration's JSON that
  differ, and no path is reported exactly when the old and the new JSON are equal.\<close>

lemma diff_sections:
  assumes "json_wf (JObj o1)" and "json_wf (JObj o2)"
    and "\<forall>k \<in> object_keys o1 o2. k \<noteq> [] \<and> CHR ''.'' \<notin> set k"
  shows "path_section ` set (collect_diff_paths [] (JObj o1) (JObj o2)) = {k. map_of o1 k \<noteq> map_of o2 k} \<and>
     (collect_diff_paths [] (JObj o1) (JObj o2) = [] \<longleftrightarrow> o1 = o2)"
proof (intro conjI set_eqI)
  fix k
  let ?paths = "\<lambda>k. member_paths k (map_of o1 k) (map_of o2 k)"
  have sect: "path_section p = k'" if "k' \<in> object_keys o1 o2" "p \<in> set (?paths k')" for p k'
    using that assms(3) by (intro member_paths_section) auto
  have "k \<in> path_section ` set (collect_diff_paths [] (JObj o1) (JObj o2)) \<longleftrightarrow>
      (\<exists>k' \<in> object_keys o1 o2. \<exists>p \<in> set (?paths k'). path_section p = k)"
    by (auto simp: collect_objects key_path_def)
  also have "\<dots> \<longleftrightarrow> k \<in> object_keys o1 o2 \<and> ?paths k \<noteq> []"
  proof
    assume "\<exists>k' \<in> object_keys o1 o2. \<exists>p \<in> set (?paths k'). path_section p = k"
    then show "k \<in> object_keys o1 o2 \<and> ?paths k \<noteq> []" using sect by fastforce
  next
    assume k: "k \<in> object_keys o1 o2 \<and> ?paths k \<noteq> []"
    then have "hd (?paths k) \<in> set (?paths k)" by simp
    with k sect show "\<exists>k' \<in> object_keys o1 o2. \<exists>p \<in> set (?paths k'). path_section p = k" by blast
  qed
  also have "\<dots> \<longleftrightarrow> map_of o1 k \<noteq> map_of o2 k"
  proof (cases "k \<in> object_keys o1 o2")
    case True
    then have "map_of o1 k \<noteq> None \<or> map_of o2 k \<noteq> None" by (auto simp: object_keys_def map_of_eq_None_iff)
    moreover have "collect_diff_paths k a b = [] \<longleftrightarrow> a = b" if "map_of o1 k = Some a" "map_of o2 k = Some b" for a b
      using json_wf_member [OF assms(1) that(1)] json_wf_member [OF assms(2) that(2)] by (rule diff_empty_iff)
    ultimately show ?thesis using True unfolding member_paths_empty by auto
  qed (use map_of_eq_None_keys in fastforce)
  finally show "k \<in> path_section ` set (collect_diff_paths [] (JObj o1) (JObj o2)) \<longleftrightarrow> k \<in> {k. map_of o1 k \<noteq> map_of o2 k}"
    by simp
qed (use diff_empty_iff [OF assms(1,2)] in simp)

lemma diff_sections_example:
  "path_section ` set (collect_diff_paths [] (JObj [(''devices'', JArr []), (''server'', JObj [(''port'', JNum (1 :: nat))])])
     (JObj [(''devices'', JArr []), (''server'', JObj [(''port'', JNum 2)]), (''streams'', JNull)]))
   = {''server'', ''streams''}"
proof -
  let ?o = "[(''devices'', JArr []), (''server'', JObj [(''port'', JNum (1 :: nat))])]"
  let ?n = "[(''devices'', JArr []), (''server'', JObj [(''port'', JNum (2 :: nat))]), (''streams'', JNull)]"
  have wf: "json_wf (JObj ?o)" "json_wf (JObj ?n)" by code_simp+
  have "object_keys ?o ?n = {''devices'', ''server'', ''streams''}"
    by (auto simp: object_keys_def)
  then have "\<forall>k \<in> object_keys ?o ?n. k \<noteq> [] \<and> CHR ''.'' \<notin> set k" by simp
  from diff_sections [OF wf this]
  have "path_section ` set (collect_diff_paths [] (JObj ?o) (JObj ?n)) = {k. map_of ?o k \<noteq> map_of ?n k}" by blast
  also have "\<dots> = {''server'', ''streams''}" by auto
  finally show ?thesis .
qed

text \<open>A file whose content has become another configuration, for the witnesses.\<close>

definition sample_io :: "(nat, unit, unit, unit) config_io" where
  "sample_io =
     \<lparr>read_file = (\<lambda>p. Inr ''new''), parse_toml = (\<lambda>s. Inr (sample_config [''b'', ''c''])),
      to_value = (\<lambda>c. Inr (JArr (map (\<lambda>d. JStr (dev_id d)) (cfg_devices c)))),
      to_json_string = (\<lambda>c. if c = sample_config [''b'', ''c''] then Inr ''{new}'' else Inl ())\<rparr>"

lemma config_ok_sample: "config_ok (sample_config [''b'', ''c''])"
  by (simp add: config_ok_def sample_config_def config_default_def sample_device_def)

lemma sample_reload:
  "reload_config sample_io (config_loader_new ''config.toml'' (sample_config [''a'', ''b''])) =
     Ret (Inr (Some (''{new}'', [[]])), config_loader_new ''config.toml'' (sample_config [''b'', ''c'']))"
proof -
  have "config_from_file (read_file sample_io) (parse_toml sample_io) ''config.toml''
      = (Ret (Inr (sample_config [''b'', ''c''])) :: ((unit, unit) config_error + config) outcome)"
    unfolding config_from_file_ok_iff using config_ok_sample by (simp add: sample_io_def)
  then show ?thesis
    by (simp add: reload_config_def config_loader_new_def sample_io_def collect_other Let_def)
      (simp add: sample_config_def sample_device_def)
qed

text \<open>A change of the file that is published has put a valid configuration in force: once the updater has
  handled the message, it and the loader hold the same configuration and the table holds exactly its
  devices, if the message is read back as what it was written for.\<close>

lemma published_change:
  assumes read_back: "parse_config config_json = Inr (cl_current_config cl')"
    and "iteration_order iter" and "cu_config cu = cl_current_config cl"
    and "dom (map_of states) = device_ids (cl_current_config cl)"
    and reload: "reload_config io cl = Ret (Inr (Some (config_json, paths)), cl')"
    and update: "apply_config_update parse_config iter instant_now config_json cu states w = (r, cu', states', w')"
  shows "config_ok (cl_current_config cl') \<and> cu_config cu' = cl_current_config cl' \<and>
     dom (map_of states') = device_ids (cl_current_config cl')"
proof -
  obtain c where c: "config_from_file (read_file io) (parse_toml io) (cl_config_path cl) = Ret (Inr c)"
    "cl_current_config cl' = c"
    using reload_config_changed [OF reload] by auto
  have "config_ok c" using c(1) unfolding config_from_file_ok_iff by (elim exE conjE)
  moreover have "cu_config cu' = c"
    using update read_back c(2) by (auto simp: apply_config_update_def Let_def split_beta)
  moreover have "dom (map_of states') = device_ids (cu_config cu')"
    using apply_config_update_dom [OF assms(2) _ update] assms(3,4) by simp
  ultimately show ?thesis using c(2) by simp
qed

text \<open>A change is given to the hub at most once: after the event that found it, another event with the
  file unchanged sends nothing, even if the first message was refused.\<close>

theorem change_sent_once:
  assumes "reload_config io cl = Ret (Inr (Some (config_json, paths)), cl')"
  shows "config_file_event io hub cl w =
       Ret (cl', snd (hub_send hub (ConfigUpdate config_json) DEFAULT_HUB_SEND_TIMEOUT w)) \<and>
     config_file_event io hub cl' w' = Ret (cl', w')"
  using assms reload_config_again [OF assms] by (simp add: config_file_event_def)

theorem change_sent_once_witness:
  "\<forall>hub :: (nat, unit, nat) hub_api. config_file_event sample_io hub
     (config_loader_new ''config.toml'' (sample_config [''b'', ''c''])) 5 =
     Ret (config_loader_new ''config.toml'' (sample_config [''b'', ''c'']), 5)"
proof
  fix hub :: "(nat, unit, nat) hub_api"
  from change_sent_once [OF sample_reload, of hub 0 5]
  show "config_file_event sample_io hub (config_loader_new ''config.toml'' (sample_config [''b'', ''c''])) 5 =
      Ret (config_loader_new ''config.toml'' (sample_config [''b'', ''c'']), 5)" by (rule conjunct2)
qed

end
