(* ===== verification/Config_Serde.thy ===== *)
theory Config_Serde
  imports Config_Loader "HOL-Library.Monad_Syntax"
begin

text \<open>
  The JSON of a configuration: what \<open>#[derive(Serialize, Deserialize)]\<close> and the \<open>serde\<close> attributes of
  \<open>src/config.rs\<close> (names, defaults, variants) make of its types.  The values are \<open>serde_json\<close>'s;
  printing and parsing their text stay parameters.  Which of several errors is reported is left out: a
  decoder returns \<open>None\<close>.

  The locale \<open>codec\<close> is the interface of a type that is written and read.  The lemmas show that every type
  of the configuration has it, and what follows for reloading: a change is found exactly when the
  configuration is another one, and the paths name its sections.
\<close>

section \<open>Writing and reading values\<close>

text \<open>\<open>to_value\<close> collects the members of an object into a map, \<open>to_string\<close> prints them as declared.\<close>

record 'n serializer =
  ser_number :: "'n number_api"
  ser_object :: "(string \<times> 'n json) list \<Rightarrow> 'n json"

definition value_serializer :: "'n number_api \<Rightarrow> 'n serializer" where
  "value_serializer api = \<lparr>ser_number = api, ser_object = json_object\<rparr>"

definition text_serializer :: "'n number_api \<Rightarrow> 'n serializer" where
  "text_serializer api = \<lparr>ser_number = api, ser_object = JObj\<rparr>"

definition ser_uint :: "'n serializer \<Rightarrow> 'l :: len word \<Rightarrow> 'n json" where
  "ser_uint s w = json_u64 (ser_number s) (ucast w)"

definition ser_bool :: "'n serializer \<Rightarrow> bool \<Rightarrow> 'n json" where
  "ser_bool s b = JBool b"

definition ser_string :: "'n serializer \<Rightarrow> string \<Rightarrow> 'n json" where
  "ser_string s x = JStr x"

definition ser_list :: "('n serializer \<Rightarrow> 'a \<Rightarrow> 'n json) \<Rightarrow> 'n serializer \<Rightarrow> 'a list \<Rightarrow> 'n json" where
  "ser_list ser s xs = JArr (map (ser s) xs)"

text \<open>An unsigned integer is read from a number that is one and fits.\<close>

definition de_uint :: "'n number_api \<Rightarrow> 'n json \<Rightarrow> 'l :: len word option" where
  "de_uint api v =
     (case as_u64 api v of
        Some u \<Rightarrow> if unat u < 2 ^ LENGTH('l) then Some (ucast u) else None
      | None \<Rightarrow> None)"

fun de_bool :: "'n number_api \<Rightarrow> 'n json \<Rightarrow> bool option" where
  "de_bool api (JBool b) = Some b"
| "de_bool api _ = None"

definition de_string :: "'n number_api \<Rightarrow> 'n json \<Rightarrow> string option" where
  "de_string api v = as_str v"

definition de_list :: "('n number_api \<Rightarrow> 'n json \<Rightarrow> 'a option) \<Rightarrow> 'n number_api \<Rightarrow> 'n json \<Rightarrow> 'a list option" where
  "de_list de api v = Option.bind (as_array v) (\<lambda>vs. those (map (de api) vs))"

text \<open>A variant without data is its name; an object from the name to \<open>null\<close> is read as well.\<close>

definition de_variant :: "(string \<times> 'a) list \<Rightarrow> 'n json \<Rightarrow> 'a option" where
  "de_variant names v =
     (case v of
        JStr s \<Rightarrow> map_of names s
      | JObj [(k, JNull)] \<Rightarrow> map_of names k
      | _ \<Rightarrow> None)"

text \<open>The fields of a \<open>struct\<close>, from an object that gives none of them twice (other members are ignored) or
  from an array in the order of the declaration; a field that is missing is an error or has a default.\<close>

definition struct_view :: "string list \<Rightarrow> 'n json \<Rightarrow> (string \<rightharpoonup> 'n json) option" where
  "struct_view names v =
     (case v of
        JObj ms \<Rightarrow>
          if list_all (\<lambda>f. length (filter (\<lambda>kv. fst kv = f) ms) \<le> 1) names then Some (map_of ms) else None
      | JArr vs \<Rightarrow> if length vs \<le> length names then Some (map_of (zip names vs)) else None
      | _ \<Rightarrow> None)"

definition required :: "('n json \<Rightarrow> 'a option) \<Rightarrow> (string \<rightharpoonup> 'n json) \<Rightarrow> string \<Rightarrow> 'a option" where
  "required de m k = Option.bind (m k) de"

definition defaulted :: "'a \<Rightarrow> ('n json \<Rightarrow> 'a option) \<Rightarrow> (string \<rightharpoonup> 'n json) \<Rightarrow> string \<Rightarrow> 'a option" where
  "defaulted d de m k = (case m k of Some v \<Rightarrow> de v | None \<Rightarrow> Some d)"

section \<open>Enumerations\<close>

fun device_type_name :: "device_type \<Rightarrow> string" where
  "device_type_name Plc = ''plc''"
| "device_type_name RobotArm = ''robot_arm''"

fun addressing_mode_name :: "addressing_mode \<Rightarrow> string" where
  "addressing_mode_name ZeroBased = ''zero_based''"
| "addressing_mode_name OneBased = ''one_based''"

fun byte_order_name :: "byte_order \<Rightarrow> string" where
  "byte_order_name BigEndian = ''big_endian''"
| "byte_order_name LittleEndian = ''little_endian''"
| "byte_order_name LittleEndianByteSwap = ''little_endian_byte_swap''"
| "byte_order_name MidBig = ''mid_big''"

fun data_type_name :: "data_type \<Rightarrow> string" where
  "data_type_name U16 = ''u16''"
| "data_type_name U32 = ''u32''"
| "data_type_name I16 = ''i16''"
| "data_type_name I32 = ''i32''"
| "data_type_name TF32 = ''f32''"
| "data_type_name TF64 = ''f64''"
| "data_type_name TBool = ''bool''"

fun access_mode_name :: "access_mode \<Rightarrow> string" where
  "access_mode_name Rw = ''rw''"
| "access_mode_name Read = ''read''"
| "access_mode_name Write = ''write''"

definition named :: "('a \<Rightarrow> string) \<Rightarrow> 'a list \<Rightarrow> (string \<times> 'a) list" where
  "named name xs = map (\<lambda>x. (name x, x)) xs"

definition ser_device_type :: "'n serializer \<Rightarrow> device_type \<Rightarrow> 'n json" where
  "ser_device_type s t = JStr (device_type_name t)"

definition de_device_type :: "'n number_api \<Rightarrow> 'n json \<Rightarrow> device_type option" where
  "de_device_type api v = de_variant (named device_type_name [Plc, RobotArm]) v"

definition ser_addressing_mode :: "'n serializer \<Rightarrow> addressing_mode \<Rightarrow> 'n json" where
  "ser_addressing_mode s t = JStr (addressing_mode_name t)"

definition de_addressing_mode :: "'n number_api \<Rightarrow> 'n json \<Rightarrow> addressing_mode option" where
  "de_addressing_mode api v = de_variant (named addressing_mode_name [ZeroBased, OneBased]) v"

definition ser_byte_order :: "'n serializer \<Rightarrow> byte_order \<Rightarrow> 'n json" where
  "ser_byte_order s t = JStr (byte_order_name t)"

definition de_byte_order :: "'n number_api \<Rightarrow> 'n json \<Rightarrow> byte_order option" where
  "de_byte_order api v =
     de_variant (named byte_order_name [BigEndian, LittleEndian, LittleEndianByteSwap, MidBig]) v"

definition ser_data_type :: "'n serializer \<Rightarrow> data_type \<Rightarrow> 'n json" where
  "ser_data_type s t = JStr (data_type_name t)"

definition de_data_type :: "'n number_api \<Rightarrow> 'n json \<Rightarrow> data_type option" where
  "de_data_type api v = de_variant (named data_type_name [U16, U32, I16, I32, TF32, TF64, TBool]) v"

definition ser_access_mode :: "'n serializer \<Rightarrow> access_mode \<Rightarrow> 'n json" where
  "ser_access_mode s t = JStr (access_mode_name t)"

definition de_access_mode :: "'n number_api \<Rightarrow> 'n json \<Rightarrow> access_mode option" where
  "de_access_mode api v = de_variant (named access_mode_name [Rw, Read, Write]) v"

section \<open>Structures\<close>

definition ser_stream_config :: "'n serializer \<Rightarrow> stream_config \<Rightarrow> 'n json" where
  "ser_stream_config s c = ser_object s
     [(''device_id'', ser_string s (sc_device_id c)), (''signal_group'', ser_string s (sc_signal_group c)),
      (''poll_interval_ms'', ser_uint s (sc_poll_interval_ms c)), (''enabled'', ser_bool s (sc_enabled c)),
      (''priority'', ser_uint s (sc_priority c))]"

definition de_stream_config :: "'n number_api \<Rightarrow> 'n json \<Rightarrow> stream_config option" where
  "de_stream_config api v = do {
     m \<leftarrow> struct_view [''device_id'', ''signal_group'', ''poll_interval_ms'', ''enabled'', ''priority''] v;
     device_id \<leftarrow> required (de_string api) m ''device_id'';
     signal_group \<leftarrow> required (de_string api) m ''signal_group'';
     poll_interval_ms \<leftarrow> defaulted default_poll_interval_ms (de_uint api) m ''poll_interval_ms'';
     enabled \<leftarrow> defaulted default_stream_enabled (de_bool api) m ''enabled'';
     priority \<leftarrow> defaulted 0 (de_uint api) m ''priority'';
     Some \<lparr>sc_device_id = device_id, sc_signal_group = signal_group, sc_poll_interval_ms = poll_interval_ms,
           sc_enabled = enabled, sc_priority = priority\<rparr>
   }"

definition ser_stream_settings :: "'n serializer \<Rightarrow> stream_settings \<Rightarrow> 'n json" where
  "ser_stream_settings s c = ser_object s
     [(''max_concurrent_streams'', ser_uint s (max_concurrent_streams c)),
      (''cache_ttl_ms'', ser_uint s (cache_ttl_ms c)), (''enable_websocket'', ser_bool s (enable_websocket c)),
      (''websocket_port'', ser_uint s (websocket_port c))]"

definition de_stream_settings :: "'n number_api \<Rightarrow> 'n json \<Rightarrow> stream_settings option" where
  "de_stream_settings api v = do {
     m \<leftarrow> struct_view [''max_concurrent_streams'', ''cache_ttl_ms'', ''enable_websocket'', ''websocket_port''] v;
     a \<leftarrow> defaulted 100 (de_uint api) m ''max_concurrent_streams'';
     b \<leftarrow> defaulted 5000 (de_uint api) m ''cache_ttl_ms'';
     c \<leftarrow> defaulted True (de_bool api) m ''enable_websocket'';
     d \<leftarrow> defaulted 8082 (de_uint api) m ''websocket_port'';
     Some \<lparr>max_concurrent_streams = a, cache_ttl_ms = b, enable_websocket = c, websocket_port = d\<rparr>
   }"

definition ser_timeouts :: "'n serializer \<Rightarrow> timeouts \<Rightarrow> 'n json" where
  "ser_timeouts s c = ser_object s
     [(''connect_timeout_ms'', ser_uint s (connect_timeout_ms c)),
      (''operation_timeout_ms'', ser_uint s (operation_timeout_ms c)),
      (''max_operation_timeout_ms'', ser_uint s (max_operation_timeout_ms c)),
      (''hub_send_timeout_ms'', ser_uint s (hub_send_timeout_ms c)),
      (''heartbeat_timeout_ms'', ser_uint s (heartbeat_timeout_ms c)),
      (''pool_health_check_interval_sec'', ser_uint s (timeouts.pool_health_check_interval_sec c))]"

definition de_timeouts :: "'n number_api \<Rightarrow> 'n json \<Rightarrow> timeouts option" where
  "de_timeouts api v = do {
     m \<leftarrow> struct_view [''connect_timeout_ms'', ''operation_timeout_ms'', ''max_operation_timeout_ms'',
            ''hub_send_timeout_ms'', ''heartbeat_timeout_ms'', ''pool_health_check_interval_sec''] v;
     a \<leftarrow> defaulted 200 (de_uint api) m ''connect_timeout_ms'';
     b \<leftarrow> defaulted 1000 (de_uint api) m ''operation_timeout_ms'';
     c \<leftarrow> defaulted 30000 (de_uint api) m ''max_operation_timeout_ms'';
     d \<leftarrow> defaulted 2000 (de_uint api) m ''hub_send_timeout_ms'';
     e \<leftarrow> defaulted 1000 (de_uint api) m ''heartbeat_timeout_ms'';
     f \<leftarrow> defaulted 30 (de_uint api) m ''pool_health_check_interval_sec'';
     Some \<lparr>connect_timeout_ms = a, operation_timeout_ms = b, max_operation_timeout_ms = c,
           hub_send_timeout_ms = d, heartbeat_timeout_ms = e, pool_health_check_interval_sec = f\<rparr>
   }"

definition ser_server :: "'n serializer \<Rightarrow> server \<Rightarrow> 'n json" where
  "ser_server s c = ser_object s
     [(''rpc_port'', ser_uint s (rpc_port c)), (''http_port'', ser_uint s (http_port c)),
      (''rpc_worker_threads'', ser_uint s (rpc_worker_threads c)),
      (''rpc_max_blocking_threads'', ser_uint s (rpc_max_blocking_threads c))]"

definition de_server :: "'n number_api \<Rightarrow> 'n json \<Rightarrow> server option" where
  "de_server api v = do {
     m \<leftarrow> struct_view [''rpc_port'', ''http_port'', ''rpc_worker_threads'', ''rpc_max_blocking_threads''] v;
     a \<leftarrow> required (de_uint api) m ''rpc_port'';
     b \<leftarrow> required (de_uint api) m ''http_port'';
     c \<leftarrow> defaulted default_rpc_worker_threads (de_uint api) m ''rpc_worker_threads'';
     d \<leftarrow> defaulted default_rpc_max_blocking_threads (de_uint api) m ''rpc_max_blocking_threads'';
     Some \<lparr>rpc_port = a, http_port = b, rpc_worker_threads = c, rpc_max_blocking_threads = d\<rparr>
   }"

definition ser_logging :: "'n serializer \<Rightarrow> logging \<Rightarrow> 'n json" where
  "ser_logging s c = ser_object s
     [(''level'', ser_string s (log_level c)), (''file'', ser_string s (log_file c)),
      (''daily_rotation'', ser_bool s (log_daily_rotation c))]"

definition de_logging :: "'n number_api \<Rightarrow> 'n json \<Rightarrow> logging option" where
  "de_logging api v = do {
     m \<leftarrow> struct_view [''level'', ''file'', ''daily_rotation''] v;
     a \<leftarrow> required (de_string api) m ''level'';
     b \<leftarrow> required (de_string api) m ''file'';
     c \<leftarrow> required (de_bool api) m ''daily_rotation'';
     Some \<lparr>log_level = a, log_file = b, log_daily_rotation = c\<rparr>
   }"

definition ser_register_mapping :: "'n serializer \<Rightarrow> register_mapping \<Rightarrow> 'n json" where
  "ser_register_mapping s c = ser_object s
     [(''signal_name'', ser_string s (rm_signal_name c)), (''address'', ser_string s (rm_address c)),
      (''data_type'', ser_data_type s (rm_data_type c)), (''access'', ser_access_mode s (rm_access c)),
      (''description'', ser_string s (rm_description c))]"

definition de_register_mapping :: "'n number_api \<Rightarrow> 'n json \<Rightarrow> register_mapping option" where
  "de_register_mapping api v = do {
     m \<leftarrow> struct_view [''signal_name'', ''address'', ''data_type'', ''access'', ''description''] v;
     a \<leftarrow> required (de_string api) m ''signal_name'';
     b \<leftarrow> required (de_string api) m ''address'';
     c \<leftarrow> defaulted U16 (de_data_type api) m ''data_type'';
     d \<leftarrow> defaulted Rw (de_access_mode api) m ''access'';
     e \<leftarrow> defaulted [] (de_string api) m ''description'';
     Some \<lparr>rm_signal_name = a, rm_address = b, rm_data_type = c, rm_access = d, rm_description = e\<rparr>
   }"

definition ser_field_mapping :: "'n serializer \<Rightarrow> field_mapping \<Rightarrow> 'n json" where
  "ser_field_mapping s c = ser_object s
     [(''name'', ser_string s (fm_name c)), (''data_type'', ser_data_type s (fm_data_type c)),
      (''offset'', ser_uint s (fm_offset c))]"

definition de_field_mapping :: "'n number_api \<Rightarrow> 'n json \<Rightarrow> field_mapping option" where
  "de_field_mapping api v = do {
     m \<leftarrow> struct_view [''name'', ''data_type'', ''offset''] v;
     a \<leftarrow> required (de_string api) m ''name'';
     b \<leftarrow> required (de_data_type api) m ''data_type'';
     c \<leftarrow> required (de_uint api) m ''offset'';
     Some \<lparr>fm_name = a, fm_data_type = b, fm_offset = c\<rparr>
   }"

definition ser_signal_group :: "'n serializer \<Rightarrow> signal_group \<Rightarrow> 'n json" where
  "ser_signal_group s c = ser_object s
     [(''name'', ser_string s (sg_name c)), (''description'', ser_string s (sg_description c)),
      (''register_address'', ser_string s (sg_register_address c)),
      (''register_count'', ser_uint s (sg_register_count c)),
      (''fields'', ser_list ser_field_mapping s (sg_fields c))]"

definition de_signal_group :: "'n number_api \<Rightarrow> 'n json \<Rightarrow> signal_group option" where
  "de_signal_group api v = do {
     m \<leftarrow> struct_view [''name'', ''description'', ''register_address'', ''register_count'', ''fields''] v;
     a \<leftarrow> required (de_string api) m ''name'';
     b \<leftarrow> defaulted [] (de_string api) m ''description'';
     c \<leftarrow> required (de_string api) m ''register_address'';
     d \<leftarrow> required (de_uint api) m ''register_count'';
     e \<leftarrow> required (de_list de_field_mapping api) m ''fields'';
     Some \<lparr>sg_name = a, sg_description = b, sg_register_address = c, sg_register_count = d, sg_fields = e\<rparr>
   }"

definition ser_device :: "'n serializer \<Rightarrow> device \<Rightarrow> 'n json" where
  "ser_device s c = ser_object s
     [(''id'', ser_string s (dev_id c)), (''type'', ser_device_type s (dev_device_type c)),
      (''address'', ser_string s (dev_address c)), (''port'', ser_uint s (dev_port c)),
      (''unit_id'', ser_uint s (dev_unit_id c)),
      (''addressing_mode'', ser_addressing_mode s (dev_addressing_mode c)),
      (''byte_order'', ser_byte_order s (dev_byte_order c)), (''tcp_nodelay'', ser_bool s (dev_tcp_nodelay c)),
      (''max_concurrent_ops'', ser_uint s (dev_max_concurrent_ops c)),
      (''max_pool_size'', ser_uint s (dev_max_pool_size c)),
      (''heartbeat_interval_sec'', ser_uint s (dev_heartbeat_interval_sec c)),
      (''pool_health_check_interval_sec'', ser_uint s (dev_pool_health_check_interval_sec c)),
      (''signal_groups'', ser_list ser_signal_group s (dev_signal_groups c))]"

definition de_device :: "'n number_api \<Rightarrow> 'n json \<Rightarrow> device option" where
  "de_device api v = do {
     m \<leftarrow> struct_view [''id'', ''type'', ''address'', ''port'', ''unit_id'', ''addressing_mode'', ''byte_order'',
            ''tcp_nodelay'', ''max_concurrent_ops'', ''max_pool_size'', ''heartbeat_interval_sec'',
            ''pool_health_check_interval_sec'', ''signal_groups''] v;
     a \<leftarrow> required (de_string api) m ''id'';
     b \<leftarrow> required (de_device_type api) m ''type'';
     c \<leftarrow> required (de_string api) m ''address'';
     d \<leftarrow> required (de_uint api) m ''port'';
     e \<leftarrow> required (de_uint api) m ''unit_id'';
     f \<leftarrow> defaulted ZeroBased (de_addressing_mode api) m ''addressing_mode'';
     g \<leftarrow> defaulted BigEndian (de_byte_order api) m ''byte_order'';
     h \<leftarrow> defaulted default_tcp_nodelay (de_bool api) m ''tcp_nodelay'';
     i \<leftarrow> defaulted default_max_concurrent_ops (de_uint api) m ''max_concurrent_ops'';
     j \<leftarrow> defaulted default_max_pool_size (de_uint api) m ''max_pool_size'';
     k \<leftarrow> defaulted default_heartbeat_interval (de_uint api) m ''heartbeat_interval_sec'';
     l \<leftarrow> defaulted 30 (de_uint api) m ''pool_health_check_interval_sec'';
     n \<leftarrow> defaulted [] (de_list de_signal_group api) m ''signal_groups'';
     Some \<lparr>dev_id = a, dev_device_type = b, dev_address = c, dev_port = d, dev_unit_id = e,
           dev_addressing_mode = f, dev_byte_order = g, dev_tcp_nodelay = h, dev_max_concurrent_ops = i,
           dev_max_pool_size = j, dev_heartbeat_interval_sec = k, dev_pool_health_check_interval_sec = l,
           dev_signal_groups = n\<rparr>
   }"

definition ser_config :: "'n serializer \<Rightarrow> config \<Rightarrow> 'n json" where
  "ser_config s c = ser_object s
     [(''server'', ser_server s (cfg_server c)), (''logging'', ser_logging s (cfg_logging c)),
      (''timeouts'', ser_timeouts s (cfg_timeouts c)),
      (''devices'', ser_list ser_device s (cfg_devices c)),
      (''streams'', ser_list ser_stream_config s (cfg_streams c)),
      (''stream_settings'', ser_stream_settings s (cfg_stream_settings c))]"

definition de_config :: "'n number_api \<Rightarrow> 'n json \<Rightarrow> config option" where
  "de_config api v = do {
     m \<leftarrow> struct_view [''server'', ''logging'', ''timeouts'', ''devices'', ''streams'', ''stream_settings''] v;
     a \<leftarrow> defaulted server_default (de_server api) m ''server'';
     b \<leftarrow> defaulted logging_default (de_logging api) m ''logging'';
     c \<leftarrow> defaulted timeouts_default (de_timeouts api) m ''timeouts'';
     d \<leftarrow> defaulted [] (de_list de_device api) m ''devices'';
     e \<leftarrow> defaulted [] (de_list de_stream_config api) m ''streams'';
     f \<leftarrow> defaulted stream_settings_default (de_stream_settings api) m ''stream_settings'';
     Some \<lparr>cfg_server = a, cfg_logging = b, cfg_timeouts = c, cfg_devices = d, cfg_streams = e,
           cfg_stream_settings = f\<rparr>
   }"

section \<open>The interface of a type that is written and read\<close>

definition serializer_laws :: "'n serializer \<Rightarrow> bool" where
  "serializer_laws s \<longleftrightarrow> number_laws (ser_number s) \<and>
     (\<forall>ms. distinct (map fst ms) \<longrightarrow>
        (\<exists>kvs. ser_object s ms = JObj kvs \<and> distinct (map fst kvs) \<and> map_of kvs = map_of ms))"

lemma text_serializer_laws: "number_laws api \<Longrightarrow> serializer_laws (text_serializer api)"
  by (simp add: serializer_laws_def text_serializer_def)

lemma value_serializer_laws: "number_laws api \<Longrightarrow> serializer_laws (value_serializer api)"
proof -
  assume "number_laws api"
  moreover have "\<exists>kvs. json_object ms = JObj kvs \<and> distinct (map fst kvs) \<and> map_of kvs = map_of ms"
    if d: "distinct (map fst ms)" for ms :: "(string \<times> 'a json) list"
  proof -
    obtain kvs where kvs: "json_object ms = JObj kvs" by (simp add: json_object_def)
    have "sorted_wrt (<) (map fst kvs)" using sorted_json_object [of ms] kvs by simp
    then have "distinct (map fst kvs)" by (simp add: strict_sorted_iff)
    moreover have "map_of kvs k = map_of ms k" for k
      using json_get_json_object [of ms k] kvs d by (simp add: map_of_rev_distinct)
    ultimately show ?thesis using kvs by blast
  qed
  ultimately show ?thesis by (simp add: serializer_laws_def value_serializer_def)
qed

lemma struct_view_object:
  assumes "serializer_laws s" and "distinct (map fst ms)"
  shows "struct_view names (ser_object s ms) = Some (map_of ms)"
proof -
  obtain kvs where kvs: "ser_object s ms = JObj kvs" "distinct (map fst kvs)" "map_of kvs = map_of ms"
    using assms unfolding serializer_laws_def by blast
  have "length (filter (\<lambda>kv. fst kv = f) kvs) \<le> 1" for f
  proof -
    have "length (filter (\<lambda>kv. fst kv = f) kvs) = length (filter ((=) f) (map fst kvs))"
      by (simp add: filter_map o_def eq_commute)
    also have "\<dots> = count (mset (map fst kvs)) f" by (simp only: count_mset count_list_eq_length_filter)
    also have "\<dots> \<le> 1" using kvs(2) by (simp add: distinct_count_atmost_1)
    finally show ?thesis .
  qed
  with kvs show ?thesis by (simp add: struct_view_def list_all_iff)
qed

text \<open>Whatever is written is read back, and so are lists of it; two values with the same JSON are equal.\<close>

locale codec =
  fixes ser :: "'n serializer \<Rightarrow> 'a \<Rightarrow> 'n json"
    and de :: "'n number_api \<Rightarrow> 'n json \<Rightarrow> 'a option"
  assumes read_back: "serializer_laws s \<Longrightarrow> de (ser_number s) (ser s x) = Some x"
begin

lemma read_list: "serializer_laws s \<Longrightarrow> de_list de (ser_number s) (ser_list ser s xs) = Some xs"
  by (induction xs) (simp_all add: de_list_def ser_list_def read_back)

lemma same_json: "serializer_laws s \<Longrightarrow> ser s x = ser s y \<longleftrightarrow> x = y"
  by (metis read_back option.inject)

lemma same_json_list: "serializer_laws s \<Longrightarrow> ser_list ser s xs = ser_list ser s ys \<longleftrightarrow> xs = ys"
  by (metis read_list option.inject)

end

lemma uint_read_back:
  assumes "serializer_laws s" and "LENGTH('l :: len) \<le> 64"
  shows "de_uint (ser_number s) (ser_uint s w) = Some (w :: 'l word)"
proof -
  have "unat w < 2 ^ 64"
    by (rule less_le_trans [OF unsigned_less]) (rule power_increasing, use assms(2) in simp_all)
  then have "unat (ucast w :: u64) = unat w" by (simp add: unsigned_ucast_eq take_bit_eq_mod)
  moreover from this have "(ucast (ucast w :: u64) :: 'l word) = w"
    using unsigned_less [of w, where 'a = nat]
    by (simp add: word_unat_eq_iff unsigned_ucast_eq [of "ucast w :: u64"] take_bit_eq_mod)
  ultimately show ?thesis
    using assms(1) unsigned_less [of w, where 'a = nat]
    by (simp add: de_uint_def ser_uint_def serializer_laws_def)
qed

interpretation byte: codec ser_uint "de_uint :: 'n number_api \<Rightarrow> 'n json \<Rightarrow> u8 option"
  by unfold_locales (simp add: uint_read_back)

interpretation port: codec ser_uint "de_uint :: 'n number_api \<Rightarrow> 'n json \<Rightarrow> u16 option"
  by unfold_locales (simp add: uint_read_back)

interpretation count: codec ser_uint "de_uint :: 'n number_api \<Rightarrow> 'n json \<Rightarrow> u32 option"
  by unfold_locales (simp add: uint_read_back)

interpretation size: codec ser_uint "de_uint :: 'n number_api \<Rightarrow> 'n json \<Rightarrow> usize option"
  by unfold_locales (simp add: uint_read_back)

interpretation bool: codec ser_bool de_bool
  by unfold_locales (simp add: ser_bool_def)

interpretation str: codec ser_string de_string
  by unfold_locales (simp add: ser_string_def de_string_def)

lemmas scalars_read_back =
  byte.read_back port.read_back count.read_back size.read_back bool.read_back str.read_back

text \<open>A variant is read back because the names differ.\<close>

lemma named_read_back:
  assumes "x \<in> set xs" and "distinct (map name xs)"
  shows "de_variant (named name xs) (JStr (name x)) = Some x"
proof -
  have "map_of (map (\<lambda>x. (name x, x)) xs) (name x) = Some x"
    using assms by (induction xs) (auto, metis imageI)
  then show ?thesis by (simp add: de_variant_def named_def)
qed

interpretation device_type: codec ser_device_type de_device_type
proof unfold_locales
  fix s :: "'n serializer" and x show "de_device_type (ser_number s) (ser_device_type s x) = Some x"
    unfolding de_device_type_def ser_device_type_def by (rule named_read_back) (cases x, simp_all)
qed

interpretation addressing_mode: codec ser_addressing_mode de_addressing_mode
proof unfold_locales
  fix s :: "'n serializer" and x show "de_addressing_mode (ser_number s) (ser_addressing_mode s x) = Some x"
    unfolding de_addressing_mode_def ser_addressing_mode_def by (rule named_read_back) (cases x, simp_all)
qed

interpretation byte_order: codec ser_byte_order de_byte_order
proof unfold_locales
  fix s :: "'n serializer" and x show "de_byte_order (ser_number s) (ser_byte_order s x) = Some x"
    unfolding de_byte_order_def ser_byte_order_def by (rule named_read_back) (cases x, simp_all)
qed

interpretation data_type: codec ser_data_type de_data_type
proof unfold_locales
  fix s :: "'n serializer" and x show "de_data_type (ser_number s) (ser_data_type s x) = Some x"
    unfolding de_data_type_def ser_data_type_def by (rule named_read_back) (cases x, simp_all)
qed

interpretation access_mode: codec ser_access_mode de_access_mode
proof unfold_locales
  fix s :: "'n serializer" and x show "de_access_mode (ser_number s) (ser_access_mode s x) = Some x"
    unfolding de_access_mode_def ser_access_mode_def by (rule named_read_back) (cases x, simp_all)
qed

lemmas enums_read_back =
  device_type.read_back addressing_mode.read_back byte_order.read_back data_type.read_back access_mode.read_back

text \<open>A structure is read back because its fields are.\<close>

lemmas struct_fields = struct_view_object required_def defaulted_def scalars_read_back enums_read_back

interpretation stream_config: codec ser_stream_config de_stream_config
  by unfold_locales (simp add: ser_stream_config_def de_stream_config_def struct_fields)

interpretation stream_settings: codec ser_stream_settings de_stream_settings
  by unfold_locales (simp add: ser_stream_settings_def de_stream_settings_def struct_fields)

interpretation timeouts: codec ser_timeouts de_timeouts
  by unfold_locales (simp add: ser_timeouts_def de_timeouts_def struct_fields)

interpretation server: codec ser_server de_server
  by unfold_locales (simp add: ser_server_def de_server_def struct_fields)

interpretation logging: codec ser_logging de_logging
  by unfold_locales (simp add: ser_logging_def de_logging_def struct_fields)

interpretation register_mapping: codec ser_register_mapping de_register_mapping
  by unfold_locales (simp add: ser_register_mapping_def de_register_mapping_def struct_fields)

interpretation field_mapping: codec ser_field_mapping de_field_mapping
  by unfold_locales (simp add: ser_field_mapping_def de_field_mapping_def struct_fields)

interpretation signal_group: codec ser_signal_group de_signal_group
  by unfold_locales
     (simp add: ser_signal_group_def de_signal_group_def struct_fields field_mapping.read_list)

interpretation device: codec ser_device de_device
  by unfold_locales (simp add: ser_device_def de_device_def struct_fields signal_group.read_list)

interpretation config: codec ser_config de_config
  by unfold_locales
     (simp add: ser_config_def de_config_def struct_fields device.read_list stream_config.read_list
       server.read_back logging.read_back timeouts.read_back stream_settings.read_back)

end
