(* ===== verification/Config_Watch.thy ===== *)
theory Config_Watch
  imports Config_Loader Transition_System
begin

text \<open>
  The threads of \<open>ConfigLoader::run\<close> in \<open>src/workers/config_loader.rs\<close>: the callback of the file
  watcher fills an unbounded channel, a bridge thread moves its events into a channel of at most
  \<open>CONFIG_EVENT_BUFFER_SIZE\<close> and drops what does not fit, and the loader takes an event, waits and
  reloads.  The environment changes the file and makes the watcher report; the program's own steps are
  those of its threads.  The code watches the path of one file, and the notify crate warns that a
  watched path that is renamed or removed may behave unexpectedly: so a change may come with a report
  or without one, and the ghost \<open>ws_unreported\<close> says that the file has changed without a report since
  the last one.

  The lemmas show that dropped events lose no reported change, that the last reported change is always
  picked up by the program's own steps, and that the bridge thread ends with the loader.
\<close>

section \<open>Channels\<close>

definition CONFIG_EVENT_BUFFER_SIZE :: nat where "CONFIG_EVENT_BUFFER_SIZE = 100"

text \<open>What \<open>shutdown_rx.recv_timeout\<close> finds: nothing yet, the signal, or a dropped sender.\<close>

datatype shutdown_signal = Quiet | Signalled | Dropped

definition notify_callback :: "'e + 'ev \<Rightarrow> 'ev list \<Rightarrow> 'ev list" where
  "notify_callback res notify_rx = (case res of Inr event \<Rightarrow> notify_rx @ [event] | Inl _ \<Rightarrow> notify_rx)"

definition event_try_send :: "'ev list \<Rightarrow> 'ev \<Rightarrow> 'ev list" where
  "event_try_send bounded event =
     (if length bounded < CONFIG_EVENT_BUFFER_SIZE then bounded @ [event] else bounded)"

text \<open>A round of the bridge thread: whether it goes on, and the two channels.  \<open>closed\<close> says that the
  watcher, which holds the sender of the unbounded channel, is gone.\<close>

fun bridge_round :: "shutdown_signal \<Rightarrow> bool \<Rightarrow> 'ev list \<Rightarrow> 'ev list \<Rightarrow> bool \<times> 'ev list \<times> 'ev list" where
  "bridge_round Signalled closed notify_rx bounded = (False, notify_rx, bounded)"
| "bridge_round Dropped closed notify_rx bounded = (False, notify_rx, bounded)"
| "bridge_round Quiet closed (event # notify_rx) bounded = (True, notify_rx, event_try_send bounded event)"
| "bridge_round Quiet closed [] bounded = (\<not> closed, [], bounded)"

section \<open>The loader and its threads\<close>

datatype loader_phase = Polling | Settling | ShuttingDown | Finished | Crashed

record ('io, 'e, 'ev, 'w) watch_state =
  ws_file :: "'io + string"
  ws_unreported :: bool
  ws_reports :: "('e + 'ev) list"
  ws_notify :: "'ev list"
  ws_bounded :: "'ev list"
  ws_signal :: shutdown_signal
  ws_bridge :: bool
  ws_phase :: loader_phase
  ws_loader :: config_loader
  ws_world :: 'w

text \<open>\<open>run\<close> up to its loop.  The bridge thread is running when the watcher is created; if that fails,
  \<open>?\<close> leaves \<open>run\<close> and drops the sender of the shutdown channel.\<close>

definition watch_start ::
  "'e + unit \<Rightarrow> (string \<Rightarrow> 'e + unit) \<Rightarrow> 'io + string \<Rightarrow> config_loader \<Rightarrow> 'w \<Rightarrow> ('io, 'e, 'ev, 'w) watch_state" where
  "watch_start watcher watch file cl w =
     (let s = \<lparr>ws_file = file, ws_unreported = False, ws_reports = [], ws_notify = [], ws_bounded = [], ws_signal = Quiet,
               ws_bridge = True, ws_phase = Polling, ws_loader = cl, ws_world = w\<rparr>;
          failed = s\<lparr>ws_phase := Finished, ws_signal := Dropped\<rparr>
      in case watcher of
           Inl e \<Rightarrow> failed
         | Inr _ \<Rightarrow> (case watch (cl_config_path cl) of Inl e \<Rightarrow> failed | Inr _ \<Rightarrow> s))"

definition watcher_alive :: "('io, 'e, 'ev, 'w) watch_state \<Rightarrow> bool" where
  "watcher_alive s \<longleftrightarrow> ws_phase s \<notin> {Finished, Crashed}"

definition bridge_step :: "('io, 'e, 'ev, 'w) watch_state \<Rightarrow> ('io, 'e, 'ev, 'w) watch_state" where
  "bridge_step s =
     (case bridge_round (ws_signal s) (\<not> watcher_alive s) (ws_notify s) (ws_bounded s) of
        (running, notify_rx, bounded) \<Rightarrow>
          s\<lparr>ws_bridge := running, ws_notify := notify_rx, ws_bounded := bounded\<rparr>)"

text \<open>One step of the loader's thread.  While it is polling, \<open>online\<close> is what \<open>context.is_online()\<close> says.\<close>

definition loader_poll :: "bool \<Rightarrow> ('io, 'e, 'ev, 'w) watch_state \<Rightarrow> ('io, 'e, 'ev, 'w) watch_state" where
  "loader_poll online s =
     (if \<not> online then s\<lparr>ws_phase := ShuttingDown, ws_signal := Signalled\<rparr>
      else case ws_bounded s of
        event # bounded \<Rightarrow> s\<lparr>ws_phase := Settling, ws_bounded := bounded\<rparr>
      | [] \<Rightarrow> s)"

definition loader_reload ::
  "('n, 'io, 'de, 'se) config_io \<Rightarrow> ('n, 'ch, 'w) hub_api \<Rightarrow> ('io, 'e, 'ev, 'w) watch_state
     \<Rightarrow> ('io, 'e, 'ev, 'w) watch_state" where
  "loader_reload io hub s =
     (case config_file_event (io\<lparr>read_file := \<lambda>_. ws_file s\<rparr>) hub (ws_loader s) (ws_world s) of
        Ret (cl', w') \<Rightarrow> s\<lparr>ws_phase := Polling, ws_loader := cl', ws_world := w'\<rparr>
      | Panic \<Rightarrow> s\<lparr>ws_phase := Crashed, ws_signal := Dropped\<rparr>)"

inductive env_step :: "('io, 'e, 'ev, 'w) watch_state \<Rightarrow> ('io, 'e, 'ev, 'w) watch_state \<Rightarrow> bool" where
  file_changed: "env_step s (s\<lparr>ws_file := f, ws_unreported := False, ws_reports := ws_reports s @ [Inr event]\<rparr>)"
| file_replaced: "env_step s (s\<lparr>ws_file := f, ws_unreported := True\<rparr>)"
| other_report: "env_step s (s\<lparr>ws_reports := ws_reports s @ [r]\<rparr>)"

inductive own_step ::
  "('n, 'io, 'de, 'se) config_io \<Rightarrow> ('n, 'ch, 'w) hub_api \<Rightarrow> ('io, 'e, 'ev, 'w) watch_state
     \<Rightarrow> ('io, 'e, 'ev, 'w) watch_state \<Rightarrow> bool" for io hub where
  callback: "ws_reports s = r # rs \<Longrightarrow> watcher_alive s \<Longrightarrow>
    own_step io hub s (s\<lparr>ws_reports := rs, ws_notify := notify_callback r (ws_notify s)\<rparr>)"
| bridge: "ws_bridge s \<Longrightarrow> own_step io hub s (bridge_step s)"
| poll: "ws_phase s = Polling \<Longrightarrow> own_step io hub s (loader_poll online s)"
| reload: "ws_phase s = Settling \<Longrightarrow> own_step io hub s (loader_reload io hub s)"
| joined: "ws_phase s = ShuttingDown \<Longrightarrow> \<not> ws_bridge s \<Longrightarrow>
    own_step io hub s (s\<lparr>ws_phase := Finished\<rparr>)"

inductive_cases env_stepE: "env_step s s'"
inductive_cases own_stepE: "own_step io hub s s'"

definition watch_step ::
  "('n, 'io, 'de, 'se) config_io \<Rightarrow> ('n, 'ch, 'w) hub_api \<Rightarrow> ('io, 'e, 'ev, 'w) watch_state
     \<Rightarrow> ('io, 'e, 'ev, 'w) watch_state \<Rightarrow> bool" where
  "watch_step io hub s s' \<longleftrightarrow> env_step s s' \<or> own_step io hub s s'"

section \<open>No change is missed\<close>

text \<open>A reload of the file would publish nothing: the loader has seen what the file says.\<close>

definition up_to_date :: "('n, 'io, 'de, 'se) config_io \<Rightarrow> 'io + string \<Rightarrow> config_loader \<Rightarrow> bool" where
  "up_to_date io file cl =
     (case reload_config (io\<lparr>read_file := \<lambda>_. file\<rparr>) cl of Ret (Inr (Some _), _) \<Rightarrow> False | _ \<Rightarrow> True)"

definition event_waiting :: "('io, 'e, 'ev, 'w) watch_state \<Rightarrow> bool" where
  "event_waiting s \<longleftrightarrow>
     \<not> list_all isl (ws_reports s) \<or> ws_notify s \<noteq> [] \<or> ws_bounded s \<noteq> [] \<or> ws_phase s = Settling"

definition watching :: "('io, 'e, 'ev, 'w) watch_state \<Rightarrow> bool" where
  "watching s \<longleftrightarrow> ws_phase s = Polling \<or> ws_phase s = Settling"

text \<open>\<open>synced\<close>: the loader started with what the file said when the watcher was set up.\<close>

definition watch_inv ::
  "('n, 'io, 'de, 'se) config_io \<Rightarrow> bool \<Rightarrow> ('io, 'e, 'ev, 'w) watch_state \<Rightarrow> bool" where
  "watch_inv io synced s \<longleftrightarrow>
     length (ws_bounded s) \<le> CONFIG_EVENT_BUFFER_SIZE \<and>
     (watching s \<longrightarrow> ws_bridge s \<and> ws_signal s = Quiet \<and>
        (synced \<longrightarrow> up_to_date io (ws_file s) (ws_loader s) \<or> event_waiting s \<or> ws_unreported s)) \<and>
     (ws_phase s = ShuttingDown \<longrightarrow> ws_signal s = Signalled) \<and>
     (ws_phase s \<in> {Finished, Crashed} \<longrightarrow> \<not> ws_bridge s \<or> ws_signal s = Dropped)"

lemma length_event_try_send:
  "length bounded \<le> CONFIG_EVENT_BUFFER_SIZE \<Longrightarrow> length (event_try_send bounded event) \<le> CONFIG_EVENT_BUFFER_SIZE"
  by (simp add: event_try_send_def)

lemma event_try_send_nonempty: "event_try_send bounded event \<noteq> []"
  by (auto simp: event_try_send_def CONFIG_EVENT_BUFFER_SIZE_def)

text \<open>After an event the loader is up to date: what it did not publish it would not publish again.\<close>

lemma config_file_event_up_to_date:
  assumes "config_file_event (io\<lparr>read_file := \<lambda>_. file\<rparr>) hub cl w = Ret (cl', w')"
  shows "up_to_date io file cl'"
proof -
  let ?io = "io\<lparr>read_file := \<lambda>_. file\<rparr>"
  obtain r cl1 where r: "reload_config ?io cl = Ret (r, cl1)"
    using assms by (cases "reload_config ?io cl") (auto simp: config_file_event_def)
  show ?thesis
  proof (cases "\<exists>p. r = Inr (Some p)")
    case True
    then obtain config_json paths where p: "r = Inr (Some (config_json, paths))" by auto
    with r assms have "cl1 = cl'" by (simp add: config_file_event_def)
    with r p have "reload_config ?io cl = Ret (Inr (Some (config_json, paths)), cl')" by simp
    then show ?thesis by (simp add: up_to_date_def reload_config_again)
  next
    case False
    with r have "cl1 = cl" by (intro reload_config_unchanged) auto
    moreover have "cl' = cl1"
      using r assms False by (auto simp: config_file_event_def split: sum.splits option.splits)
    ultimately show ?thesis using r False by (auto simp: up_to_date_def split: sum.split option.split)
  qed
qed

lemma watch_inv_start: "watch_inv io (up_to_date io file cl) (watch_start watcher watch file cl w)"
  by (auto simp: watch_inv_def watching_def watch_start_def Let_def split: sum.split)

lemma watch_inv_bridge:
  assumes "watch_inv io synced s" and "ws_bridge s"
  shows "watch_inv io synced (bridge_step s)"
proof (cases "ws_signal s = Quiet \<and> ws_notify s \<noteq> []")
  case True
  then obtain event notify_rx where "ws_notify s = event # notify_rx" by (cases "ws_notify s") auto
  with True assms show ?thesis
    by (auto simp: watch_inv_def bridge_step_def watching_def event_waiting_def
        length_event_try_send event_try_send_nonempty)
next
  case False
  with assms show ?thesis
    by (cases "ws_signal s")
       (auto simp: watch_inv_def bridge_step_def watching_def event_waiting_def watcher_alive_def)
qed

lemma watch_inv_poll: "watch_inv io synced s \<Longrightarrow> ws_phase s = Polling \<Longrightarrow> watch_inv io synced (loader_poll online s)"
  by (auto simp: watch_inv_def loader_poll_def watching_def event_waiting_def split: list.split)

lemma watch_inv_reload:
  assumes "watch_inv io synced s" and "ws_phase s = Settling"
  shows "watch_inv io synced (loader_reload io hub s)"
proof (cases "config_file_event (io\<lparr>read_file := \<lambda>_. ws_file s\<rparr>) hub (ws_loader s) (ws_world s)")
  case (Ret r)
  then obtain cl' w' where e: "config_file_event (io\<lparr>read_file := \<lambda>_. ws_file s\<rparr>) hub (ws_loader s) (ws_world s)
      = Ret (cl', w')" by (cases r) auto
  with config_file_event_up_to_date [OF e] assms show ?thesis
    by (simp add: watch_inv_def loader_reload_def watching_def)
qed (use assms in \<open>simp add: watch_inv_def loader_reload_def watching_def\<close>)

lemma watch_inv_callback:
  assumes "watch_inv io synced s" and "ws_reports s = r # rs" and "watcher_alive s"
  shows "watch_inv io synced (s\<lparr>ws_reports := rs, ws_notify := notify_callback r (ws_notify s)\<rparr>)"
  using assms by (cases r) (auto simp: watch_inv_def watching_def event_waiting_def notify_callback_def)

lemma watch_inv_env: "watch_inv io synced s \<Longrightarrow> env_step s s' \<Longrightarrow> watch_inv io synced s'"
  by (erule env_stepE) (auto simp: watch_inv_def watching_def event_waiting_def)

lemma watch_inv_own: "watch_inv io synced s \<Longrightarrow> own_step io hub s s' \<Longrightarrow> watch_inv io synced s'"
proof (erule own_stepE, goal_cases)
  case (1 r rs)
  then show ?case using watch_inv_callback by blast
qed (auto simp: watch_inv_bridge watch_inv_poll watch_inv_reload,
     auto simp: watch_inv_def watching_def)

lemma watch_inv_step: "watch_inv io synced s \<Longrightarrow> watch_step io hub s s' \<Longrightarrow> watch_inv io synced s'"
  using watch_inv_env watch_inv_own by (auto simp: watch_step_def)

section \<open>Work that is left\<close>

text \<open>A report can become an event for the bridge, that one in the buffer, that one a reload, and a
  reload may end the loader, which leaves the bridge to stop.\<close>

definition watch_work :: "('io, 'e, 'ev, 'w) watch_state \<Rightarrow> nat" where
  "watch_work s =
     (if watching s
      then 5 * length (ws_reports s) + 4 * length (ws_notify s) + 3 * length (ws_bounded s) +
           (if ws_phase s = Settling then 2 else 0)
      else (if ws_bridge s then 1 else 0) + (if ws_phase s = ShuttingDown then 1 else 0))"

text \<open>What the program's own steps keep: the file, and watching it unless its validation panics.\<close>

definition file_panics :: "('n, 'io, 'de, 'se) config_io \<Rightarrow> 'io + string \<Rightarrow> bool" where
  "file_panics io file \<longleftrightarrow>
     (case file of
        Inl e \<Rightarrow> False
      | Inr content \<Rightarrow>
          (case parse_toml io content of
             Inl e \<Rightarrow> False
           | Inr c \<Rightarrow> config_validate c = (Panic :: (('io, 'de) config_error + unit) outcome)))"

lemma event_panics:
  fixes io :: "('n, 'c, 'd, 'se) config_io"
  assumes "config_file_event (io\<lparr>read_file := \<lambda>_. file\<rparr>) hub cl w = Panic"
  shows "file_panics io file"
proof -
  have p: "reload_config (io\<lparr>read_file := \<lambda>_. file\<rparr>) cl = Panic"
    using assms by (simp add: config_file_event_def)
  have "config_from_file (\<lambda>_. file) (parse_toml io) (cl_config_path cl)
      = (Panic :: (('c, 'd) config_error + config) outcome)"
  proof (cases "config_from_file (\<lambda>_. file) (parse_toml io) (cl_config_path cl)
      :: (('c, 'd) config_error + config) outcome")
    case (Ret r)
    with p show ?thesis
      by (cases r) (auto simp: reload_config_def Let_def split: sum.splits if_splits)
  qed
  then show ?thesis
    by (auto simp: config_from_file_def file_panics_def split: sum.splits)
qed

definition same_watch ::
  "('n, 'io, 'de, 'se) config_io \<Rightarrow> ('io, 'e, 'ev, 'w) watch_state \<Rightarrow> ('io, 'e, 'ev, 'w) watch_state \<Rightarrow> bool" where
  "same_watch io s s' \<longleftrightarrow>
     ws_file s' = ws_file s \<and> (ws_unreported s' \<longleftrightarrow> ws_unreported s) \<and>
     (watching s \<longrightarrow> watching s' \<or> ws_phase s' = Crashed \<and> file_panics io (ws_file s)) \<and>
     (ws_phase s = Crashed \<longrightarrow> ws_phase s' = Crashed) \<and> (\<not> watching s \<longrightarrow> \<not> watching s')"

lemma same_watch_refl: "same_watch io s s"
  by (simp add: same_watch_def)

lemma same_watch_trans: "same_watch io s s' \<Longrightarrow> same_watch io s' s'' \<Longrightarrow> same_watch io s s''"
  by (auto simp: same_watch_def watching_def)

lemma work_callback:
  assumes "watching s" and "ws_reports s \<noteq> []"
  shows "\<exists>s'. own_step io hub s s' \<and> watch_work s' < watch_work s \<and> same_watch io s s'"
proof -
  obtain r rs where r: "ws_reports s = r # rs" using assms(2) by (cases "ws_reports s") auto
  let ?s = "s\<lparr>ws_reports := rs, ws_notify := notify_callback r (ws_notify s)\<rparr>"
  have "watcher_alive s" using assms(1) by (auto simp: watcher_alive_def watching_def)
  with r have "own_step io hub s ?s" by (rule own_step.callback)
  moreover have "watch_work ?s < watch_work s"
    using assms(1) r by (cases r) (simp_all add: watch_work_def watching_def notify_callback_def)
  moreover have "same_watch io s ?s" by (simp add: same_watch_def watching_def)
  ultimately show ?thesis by blast
qed

lemma work_bridge:
  assumes "watch_inv io synced s" and "ws_bridge s" and "watching s \<Longrightarrow> ws_notify s \<noteq> []"
    and "\<not> watching s \<Longrightarrow> ws_signal s \<noteq> Quiet"
  shows "\<exists>s'. own_step io hub s s' \<and> watch_work s' < watch_work s \<and> same_watch io s s'"
proof -
  have "own_step io hub s (bridge_step s)" by (rule own_step.bridge) (rule assms)
  moreover have "watch_work (bridge_step s) < watch_work s"
  proof (cases "watching s")
    case True
    with assms obtain event notify_rx where "ws_notify s = event # notify_rx" "ws_signal s = Quiet"
      by (cases "ws_notify s") (auto simp: watch_inv_def)
    with True show ?thesis
      by (simp add: watch_work_def watching_def bridge_step_def event_try_send_def)
  next
    case False
    with assms show ?thesis by (cases "ws_signal s") (simp_all add: watch_work_def watching_def bridge_step_def)
  qed
  moreover have "same_watch io s (bridge_step s)"
    by (simp add: same_watch_def watching_def bridge_step_def split: prod.split)
  ultimately show ?thesis by blast
qed

lemma work_poll:
  assumes "ws_phase s = Polling" and "ws_bounded s \<noteq> []"
  shows "\<exists>s'. own_step io hub s s' \<and> watch_work s' < watch_work s \<and> same_watch io s s'"
proof (intro exI conjI)
  show "own_step io hub s (loader_poll True s)" by (rule own_step.poll) (rule assms)
qed (use assms in \<open>auto simp: loader_poll_def watch_work_def watching_def same_watch_def split: list.split\<close>)

lemma work_reload:
  assumes "watch_inv io synced s" and "ws_phase s = Settling"
  shows "\<exists>s'. own_step io hub s s' \<and> watch_work s' < watch_work s \<and> same_watch io s s'"
proof (intro exI conjI)
  show "own_step io hub s (loader_reload io hub s)" by (rule own_step.reload) (rule assms)
qed (use assms in \<open>auto simp: loader_reload_def watch_work_def watching_def same_watch_def watch_inv_def
       event_panics split: outcome.split\<close>)

lemma watch_work_step:
  assumes "watch_inv io synced s" and "0 < watch_work s"
  shows "\<exists>s'. own_step io hub s s' \<and> watch_work s' < watch_work s \<and> same_watch io s s'"
proof (cases "watching s")
  case True
  with assms(1) have b: "ws_bridge s" by (simp add: watch_inv_def)
  consider "ws_phase s = Settling" | "ws_phase s = Polling" "ws_reports s \<noteq> []"
    | "ws_phase s = Polling" "ws_notify s \<noteq> []" | "ws_phase s = Polling" "ws_bounded s \<noteq> []"
    using True assms(2) by (auto simp: watch_work_def watching_def)
  then show ?thesis
    using True assms(1) b work_reload work_callback work_bridge work_poll by cases blast+
next
  case False
  show ?thesis
  proof (cases "ws_bridge s")
    case True
    have "ws_signal s \<noteq> Quiet" using True False assms(1)
      by (cases "ws_phase s") (auto simp: watch_inv_def watching_def)
    with work_bridge [OF assms(1) True] False show ?thesis by blast
  next
    case nb: False
    with False assms(2) have p: "ws_phase s = ShuttingDown" by (auto simp: watch_work_def split: if_splits)
    show ?thesis
    proof (intro exI conjI)
      show "own_step io hub s (s\<lparr>ws_phase := Finished\<rparr>)" by (rule own_step.joined) (rule p, rule nb)
    qed (use p nb in \<open>simp_all add: watch_work_def watching_def same_watch_def\<close>)
  qed
qed

lemma own_watch_step: "own_step io hub s s' \<Longrightarrow> watch_step io hub s s'"
  by (simp add: watch_step_def)

interpretation watch: draining_system "watch_start watcher watch f cl w" "watch_step io hub"
    "watch_inv io (up_to_date io f cl)" "own_step io hub" watch_work "same_watch io"
  for watcher watch f cl w io hub
  by unfold_locales
    (rule watch_inv_start watch_inv_step own_watch_step watch_work_step same_watch_refl same_watch_trans; assumption)+

abbreviation watch_reachable ::
  "('n, 'io, 'de, 'se) config_io \<Rightarrow> ('n, 'ch, 'w) hub_api \<Rightarrow> 'e + unit \<Rightarrow> (string \<Rightarrow> 'e + unit)
     \<Rightarrow> 'io + string \<Rightarrow> config_loader \<Rightarrow> 'w \<Rightarrow> ('io, 'e, 'ev, 'w) watch_state \<Rightarrow> bool" where
  "watch_reachable io hub watcher watch file cl w \<equiv> reachable (watch_start watcher watch file cl w) (watch_step io hub)"

lemma no_work_up_to_date:
  assumes "watch_inv io True s" and "watching s" and "watch_work s = 0" and "\<not> ws_unreported s"
  shows "ws_phase s = Polling \<and> up_to_date io (ws_file s) (ws_loader s)"
proof -
  from assms(2,3) have "ws_phase s = Polling" "ws_reports s = []" "ws_notify s = []" "ws_bounded s = []"
    by (auto simp: watch_work_def split: if_splits) (simp add: watching_def)
  with assms show ?thesis by (simp add: watch_inv_def event_waiting_def)
qed

text \<open>What being up to date means for a file that holds a valid configuration and a serializer that
  does not fail: the configuration in force serializes as the one in the file.\<close>

lemma up_to_date_in_force:
  assumes "up_to_date io file cl"
    and "config_from_file (\<lambda>_. file) (parse_toml io) (cl_config_path cl)
       = (Ret (Inr c) :: (('io, 'de) config_error + config) outcome)"
    and "to_value io (cl_current_config cl) = Inr old" and "to_value io c = Inr new"
    and "to_json_string io c = Inr str" and "json_wf old" and "json_wf new"
  shows "old = new"
  using assms diff_empty_iff [of old new "[]"]
  by (auto simp: up_to_date_def reload_config_def Let_def split: if_splits)

text \<open>A loader that starts with the configuration the file holds, as \<open>main\<close> starts it.\<close>

lemma up_to_date_loaded:
  fixes io :: "('n, 'io, 'de, 'se) config_io"
  assumes "parse_toml io content = Inr (cl_current_config cl)"
  shows "up_to_date io (Inr content) cl"
proof -
  have "reload_config (io\<lparr>read_file := \<lambda>_. Inr content\<rparr>) cl \<noteq> Ret (Inr (Some p), cl')" for p cl'
  proof
    assume r: "reload_config (io\<lparr>read_file := \<lambda>_. Inr content\<rparr>) cl = Ret (Inr (Some p), cl')"
    then obtain config_json paths where p: "p = (config_json, paths)" by (cases p)
    obtain c where "config_from_file (\<lambda>_ :: string. Inr content) (parse_toml io) (cl_config_path cl)
        = (Ret (Inr c) :: (('io, 'de) config_error + config) outcome)"
      using reload_config_changed [OF r [unfolded p]] by auto
    moreover from this have "c = cl_current_config cl"
      unfolding config_from_file_ok_iff using assms by simp
    ultimately show False using r by (auto simp: reload_config_def diff_self Let_def split: sum.splits)
  qed
  then show ?thesis by (auto simp: up_to_date_def split: outcome.split sum.split option.split)
qed

definition sample_watch_io :: "(nat, unit, unit, unit) config_io" where
  "sample_watch_io = sample_io\<lparr>parse_toml := \<lambda>s.
     Inr (sample_config (if s = ''old'' then [''a'', ''b''] else [''b'', ''c'']))\<rparr>"

definition sample_watch_start :: "(unit, unit, nat, nat) watch_state" where
  "sample_watch_start = watch_start (Inr ()) (\<lambda>_. Inr ()) (Inr ''old'')
     (config_loader_new ''config.toml'' (sample_config [''a'', ''b''])) 7"

lemma sample_watch_up_to_date:
  "up_to_date sample_watch_io (Inr ''old'') (config_loader_new ''config.toml'' (sample_config [''a'', ''b'']))"
  by (rule up_to_date_loaded) (simp add: sample_watch_io_def config_loader_new_def)

lemma sample_watch_changed:
  "watch_reachable sample_watch_io hub (Inr ()) (\<lambda>_. Inr ()) (Inr ''old'')
     (config_loader_new ''config.toml'' (sample_config [''a'', ''b''])) 7
     (sample_watch_start\<lparr>ws_file := Inr ''new'', ws_reports := [Inr 1]\<rparr>)"
proof (rule reachable.step [OF reachable.start])
  show "watch_step sample_watch_io hub (watch_start (Inr ()) (\<lambda>_. Inr ()) (Inr ''old'')
      (config_loader_new ''config.toml'' (sample_config [''a'', ''b''])) 7)
      (sample_watch_start\<lparr>ws_file := Inr ''new'', ws_reports := [Inr 1]\<rparr>)"
    using env_step.file_changed [of sample_watch_start 1 "Inr ''new''"]
    by (simp add: sample_watch_start_def watch_start_def watch_step_def)
qed

lemma sample_watching: "watching (sample_watch_start\<lparr>ws_file := Inr ''new'', ws_reports := [Inr 1]\<rparr>)"
  by (simp add: watching_def sample_watch_start_def watch_start_def)

text \<open>The bound of the second channel does not bound the memory: with reports coming in faster than the
  bridge's one event in 100 ms, the first channel grows without limit and nothing is dropped.\<close>

lemma notify_channel_unbounded:
  "\<exists>s :: ('io, 'e, nat, 'w) watch_state.
     watch_reachable io hub (Inr ()) (\<lambda>_. Inr ()) content cl w s \<and> watching s \<and>
     length (ws_notify s) = n \<and> ws_bounded s = [] \<and> ws_reports s = []"
proof (induction n)
  case 0
  show ?case
    by (intro exI [of _ "watch_start (Inr ()) (\<lambda>_. Inr ()) content cl w"] conjI reachable.start)
       (simp_all add: watch_start_def watching_def)
next
  case (Suc n)
  then obtain s :: "('io, 'e, nat, 'w) watch_state" where
    s: "watch_reachable io hub (Inr ()) (\<lambda>_. Inr ()) content cl w s"
      "watching s" "length (ws_notify s) = n" "ws_bounded s = []" "ws_reports s = []" by blast
  let ?s1 = "s\<lparr>ws_reports := ws_reports s @ [Inr 0]\<rparr>"
  let ?s2 = "?s1\<lparr>ws_reports := [], ws_notify := notify_callback (Inr 0 :: 'e + nat) (ws_notify ?s1)\<rparr>"
  have other: "watch_step io hub s ?s1" by (simp add: watch_step_def env_step.other_report)
  have "own_step io hub ?s1 ?s2"
    by (rule own_step.callback) (use s in \<open>auto simp: watcher_alive_def watching_def\<close>)
  then have "watch_reachable io hub (Inr ()) (\<lambda>_. Inr ()) content cl w ?s2"
    using reachable.step [OF reachable.step [OF s(1)]] other own_watch_step by blast
  moreover have "watching ?s2" "length (ws_notify ?s2) = Suc n" "ws_bounded ?s2 = []" "ws_reports ?s2 = []"
    using s by (simp_all add: watching_def notify_callback_def)
  ultimately show ?case by blast
qed

section \<open>Properties\<close>

text \<open>C9: However file changes, watcher reports, the bridge and the loader interleave, the bounded channel
  holds at most 100 events and no reported change of the file is missed: while the loader is watching
  and the file has not changed without a report since the last one, either an event is on its way to
  the loader or reloading the file would publish nothing.  So events dropped when the channel is full
  lose no change.\<close>

theorem no_change_is_missed:
  assumes "up_to_date io file cl" and "watch_reachable io hub watcher watch file cl w s" and "watching s"
  shows "length (ws_bounded s) \<le> 100 \<and>
     (event_waiting s \<or> up_to_date io (ws_file s) (ws_loader s) \<or> ws_unreported s)"
  using watch.inv_reachable [OF assms(2)] assms(1,3)
  by (auto simp: watch_inv_def CONFIG_EVENT_BUFFER_SIZE_def)

theorem no_change_is_missed_witness:
  "event_waiting (sample_watch_start\<lparr>ws_file := Inr ''new'', ws_reports := [Inr 1]\<rparr>) \<or>
   up_to_date sample_watch_io (Inr ''new'') (ws_loader sample_watch_start)"
  using no_change_is_missed [OF sample_watch_up_to_date sample_watch_changed sample_watching]
  by (simp add: sample_watch_start_def watch_start_def)

text \<open>A change without a report leaves the program in a state in which none of its own steps loads it.\<close>

lemma unreported_change_is_not_loaded:
  assumes "ws_phase s = Polling" "ws_reports s = []" "ws_notify s = []" "ws_bounded s = []" "ws_signal s = Quiet"
    and "own_step io hub s s'"
  shows "ws_loader s' = ws_loader s \<and> ws_file s' = ws_file s \<and> ws_reports s' = [] \<and>
     ws_notify s' = [] \<and> ws_bounded s' = []"
  using assms(6) by (rule own_stepE)
    (use assms(1-5) in \<open>auto simp: bridge_step_def loader_poll_def watcher_alive_def\<close>)

text \<open>From every state of the watching program its own steps can reach, with the file as it is, a state
  in which the loader waits for the next change and, if the last change of the file was reported, a
  reload would publish nothing, unless the validation of the file panics.  Once the loader is stopping
  or has stopped, the bridge thread can end.\<close>

lemma last_change_is_loaded:
  assumes "up_to_date io file cl" and "watch_reachable io hub watcher watch file cl w s" and "\<not> ws_unreported s"
  shows "\<exists>s'. (own_step io hub)\<^sup>*\<^sup>* s s' \<and> ws_file s' = ws_file s \<and>
     (if watching s
      then ws_phase s' = Crashed \<and> file_panics io (ws_file s) \<or> ws_phase s' = Polling \<and> up_to_date io (ws_file s) (ws_loader s')
      else ws_phase s' \<in> {Finished, Crashed} \<and> \<not> ws_bridge s')"
proof -
  from watch.drains [OF assms(2)] assms(1) obtain s' where s': "(own_step io hub)\<^sup>*\<^sup>* s s'"
    "watch_work s' = 0" "same_watch io s s'" "watch_inv io True s'" by auto
  have "ws_phase s' \<in> {Finished, Crashed} \<and> \<not> ws_bridge s'" if "\<not> watching s"
    using that s' by (cases "ws_phase s'") (auto simp: same_watch_def watch_work_def watching_def split: if_splits)
  then show ?thesis
    using s' assms(3) no_work_up_to_date [OF s'(4)] by (intro exI [of _ s']) (auto simp: same_watch_def)
qed

lemma last_change_is_loaded_example:
  "\<forall>hub :: (nat, unit, nat) hub_api. \<exists>s'. (own_step sample_watch_io hub)\<^sup>*\<^sup>*
       (sample_watch_start\<lparr>ws_file := Inr ''new'', ws_reports := [Inr 1]\<rparr>) s' \<and>
     (ws_phase s' = Crashed \<and> file_panics sample_watch_io (Inr ''new'') \<or>
      ws_phase s' = Polling \<and> up_to_date sample_watch_io (Inr ''new'') (ws_loader s'))"
proof
  fix hub :: "(nat, unit, nat) hub_api"
  let ?s = "sample_watch_start\<lparr>ws_file := Inr ''new'', ws_reports := [Inr 1]\<rparr>"
  have "\<not> ws_unreported ?s" by (simp add: sample_watch_start_def watch_start_def)
  from last_change_is_loaded [OF sample_watch_up_to_date sample_watch_changed [of hub] this] sample_watching
  show "\<exists>s'. (own_step sample_watch_io hub)\<^sup>*\<^sup>* ?s s' \<and>
     (ws_phase s' = Crashed \<and> file_panics sample_watch_io (Inr ''new'') \<or>
      ws_phase s' = Polling \<and> up_to_date sample_watch_io (Inr ''new'') (ws_loader s'))"
    by auto
qed

end
