(* ===== verification/Config_Reload.thy ===== *)
theory Config_Reload
  imports Config_Serde Config_Watch
begin

text \<open>
  The loader of \<open>src/workers/config_loader.rs\<close> with the JSON of a configuration as \<open>Config_Serde\<close> has it;
  printing and parsing JSON text stay parameters.

  The lemmas show that a reload finds a change exactly when the file holds another configuration, that
  the paths name the sections that differ, and that what is published is read back by the workers.
\<close>

section \<open>The serializer of the loader and the parser of its message\<close>

definition serde_io ::
  "(string \<Rightarrow> 'io + string) \<Rightarrow> (string \<Rightarrow> 'de + config) \<Rightarrow> 'n number_api \<Rightarrow> ('n json \<Rightarrow> string) \<Rightarrow> ('n, 'io, 'de, 'se) config_io" where
  "serde_io rd toml api print =
     \<lparr>read_file = rd, parse_toml = toml, to_value = (\<lambda>c. Inr (ser_config (value_serializer api) c)),
      to_json_string = (\<lambda>c. Inr (print (ser_config (text_serializer api) c)))\<rparr>"

text \<open>\<open>serde_json::from_str\<close> at the type \<open>Config\<close>; \<open>bad\<close> is the error of a text that is JSON of another form.\<close>

definition config_from_str ::
  "(string \<Rightarrow> 'e + 'n json) \<Rightarrow> ('n json \<Rightarrow> 'e) \<Rightarrow> 'n number_api \<Rightarrow> string \<Rightarrow> 'e + config" where
  "config_from_str parse bad api text =
     (case parse text of
        Inl e \<Rightarrow> Inl e
      | Inr v \<Rightarrow> (case de_config api v of Some c \<Rightarrow> Inr c | None \<Rightarrow> Inl (bad v)))"

lemma config_from_str_printed:
  assumes "number_laws api" and "parse text = Inr (ser_config (text_serializer api) c)"
  shows "config_from_str parse bad api text = Inr c"
  using assms config.read_back [OF text_serializer_laws [OF assms(1)], of c]
  by (simp add: config_from_str_def text_serializer_def)

section \<open>Sections\<close>

definition config_members :: "'n serializer \<Rightarrow> config \<Rightarrow> (string \<times> 'n json) list" where
  "config_members s c =
     [(''server'', ser_server s (cfg_server c)), (''logging'', ser_logging s (cfg_logging c)),
      (''timeouts'', ser_timeouts s (cfg_timeouts c)),
      (''devices'', ser_list ser_device s (cfg_devices c)),
      (''streams'', ser_list ser_stream_config s (cfg_streams c)),
      (''stream_settings'', ser_stream_settings s (cfg_stream_settings c))]"

definition changed_sections :: "config \<Rightarrow> config \<Rightarrow> string set" where
  "changed_sections old new =
     set (map fst (filter snd
       [(''server'', cfg_server old \<noteq> cfg_server new), (''logging'', cfg_logging old \<noteq> cfg_logging new),
        (''timeouts'', cfg_timeouts old \<noteq> cfg_timeouts new), (''devices'', cfg_devices old \<noteq> cfg_devices new),
        (''streams'', cfg_streams old \<noteq> cfg_streams new),
        (''stream_settings'', cfg_stream_settings old \<noteq> cfg_stream_settings new)]))"

lemma json_wf_object:
  assumes "list_all (\<lambda>(k, v). json_wf v) ms"
  shows "json_wf (json_object ms)"
proof -
  obtain kvs where kvs: "json_object ms = JObj kvs" "sorted_wrt (<) (map fst kvs)"
    using sorted_json_object [of ms] by auto
  have "json_wf v" if "(k, v) \<in> set kvs" for k v
  proof -
    have "map_of kvs k = Some v" using that kvs(2) by (simp add: strict_sorted_iff)
    then have "map_of (rev ms) k = Some v" using json_get_json_object [of ms k] kvs(1) by simp
    then have "(k, v) \<in> set ms" by (auto dest: map_of_SomeD)
    with assms show ?thesis by (auto simp: list_all_iff)
  qed
  with kvs show ?thesis by (auto simp: list_all_iff)
qed

lemma json_wf_scalars [simp]:
  "json_wf (ser_uint s w)" "json_wf (ser_bool s b)" "json_wf (ser_string s x)" "json_wf (ser_list ser s xs)"
  by (simp_all add: ser_uint_def ser_bool_def ser_string_def ser_list_def json_u64_def)

lemma json_wf_sections:
  "list_all (\<lambda>(k, v). json_wf v) (config_members (value_serializer api) c)"
  by (simp add: config_members_def ser_server_def ser_logging_def ser_timeouts_def ser_stream_settings_def
      value_serializer_def json_wf_object)

lemma changed_members:
  assumes "serializer_laws s"
  shows "{k. map_of (config_members s c) k \<noteq> map_of (config_members s c') k} = changed_sections c c'"
proof (intro set_eqI iffI)
  fix k
  note same = server.same_json logging.same_json timeouts.same_json device.same_json_list
    stream_config.same_json_list stream_settings.same_json
  show "k \<in> changed_sections c c'" if "k \<in> {k. map_of (config_members s c) k \<noteq> map_of (config_members s c') k}"
    using that assms by (auto simp: config_members_def changed_sections_def same split: if_splits)
  show "k \<in> {k. map_of (config_members s c) k \<noteq> map_of (config_members s c') k}" if "k \<in> changed_sections c c'"
    using that assms by (auto simp: config_members_def changed_sections_def same split: if_splits)
qed

lemma value_of_config:
  "\<exists>ms. ser_config (value_serializer api) c = JObj ms \<and> json_wf (JObj ms) \<and>
     map_of ms = map_of (config_members (value_serializer api) c)"
proof -
  let ?ms = "config_members (value_serializer api) c"
  have v: "ser_config (value_serializer api) c = json_object ?ms"
    by (simp add: ser_config_def config_members_def value_serializer_def)
  obtain ms where ms: "json_object ?ms = JObj ms" by (simp add: json_object_def)
  have "distinct (map fst ?ms)" by (simp add: config_members_def)
  then have "map_of ms k = map_of ?ms k" for k
    using json_get_json_object [of ?ms k] ms by (simp add: map_of_rev_distinct)
  moreover have "json_wf (JObj ms)" using json_wf_object [OF json_wf_sections, of api c] ms by simp
  ultimately show ?thesis using v ms by auto
qed

text \<open>The paths at which two configurations differ name the sections that differ.\<close>

lemma diff_configs:
  assumes "number_laws api"
  shows "path_section ` set (collect_diff_paths [] (ser_config (value_serializer api) c)
      (ser_config (value_serializer api) c')) = changed_sections c c'"
    and "collect_diff_paths [] (ser_config (value_serializer api) c) (ser_config (value_serializer api) c') = []
      \<longleftrightarrow> c' = c"
proof -
  let ?s = "value_serializer api"
  obtain o1 where o1: "ser_config ?s c = JObj o1" "json_wf (JObj o1)" "map_of o1 = map_of (config_members ?s c)"
    using value_of_config by blast
  obtain o2 where o2: "ser_config ?s c' = JObj o2" "json_wf (JObj o2)" "map_of o2 = map_of (config_members ?s c')"
    using value_of_config by blast
  have "fst ` set o1 = fst ` set (config_members ?s c)" "fst ` set o2 = fst ` set (config_members ?s c')"
    using o1(3) o2(3) by (metis dom_map_of_conv_image_fst)+
  then have "\<forall>k \<in> object_keys o1 o2. k \<noteq> [] \<and> CHR ''.'' \<notin> set k"
    by (simp add: object_keys_def config_members_def)
  from diff_sections [OF o1(2) o2(2) this]
  show "path_section ` set (collect_diff_paths [] (ser_config ?s c) (ser_config ?s c')) = changed_sections c c'"
    unfolding o1(1) o2(1) o1(3) o2(3) changed_members [OF value_serializer_laws [OF assms]] by (rule conjunct1)
  show "collect_diff_paths [] (ser_config ?s c) (ser_config ?s c') = [] \<longleftrightarrow> c' = c"
    using diff_empty_iff [OF o1(2) o2(2), of "[]"] config.same_json [OF value_serializer_laws [OF assms], of c c']
    unfolding o1(1) o2(1) by (simp add: eq_commute)
qed

text \<open>A data type in a field of a configuration that is read is one of the seven names.\<close>

lemma those_member: "those xs = Some ys \<Longrightarrow> x \<in> set xs \<Longrightarrow> \<exists>y. x = Some y"
  by (induction xs arbitrary: ys) (auto split: option.splits)

lemma de_list_member:
  assumes "de_list de api (JArr vs) = Some xs" and "v \<in> set vs"
  shows "\<exists>x. de api v = Some x"
  using assms by (auto simp: de_list_def dest!: those_member)

lemma de_variant_named: "de_variant (named name xs) (JStr t) = Some x \<Longrightarrow> t \<in> name ` set xs"
  by (auto simp: de_variant_def named_def dest!: map_of_SomeD)

lemma field_data_type:
  assumes "de_field_mapping api (JObj f) = Some fm" and "map_of f ''data_type'' = Some (JStr t)"
  shows "t \<in> set [''u16'', ''u32'', ''i16'', ''i32'', ''f32'', ''f64'', ''bool'']"
proof -
  obtain d where "de_data_type api (JStr t) = Some d"
    using assms by (auto simp: de_field_mapping_def struct_view_def required_def bind_eq_Some_conv split: if_splits)
  from de_variant_named [OF this [unfolded de_data_type_def]] show ?thesis by simp
qed

lemma group_field_read:
  assumes "de_signal_group api (JObj g) = Some sg" and "map_of g ''fields'' = Some (JArr fs)" and "f \<in> set fs"
  shows "\<exists>fm. de_field_mapping api f = Some fm"
  using assms by (auto simp: de_signal_group_def struct_view_def required_def bind_eq_Some_conv
      split: if_splits dest!: de_list_member)

lemma device_group_read:
  assumes "de_device api (JObj d) = Some dev" and "map_of d ''signal_groups'' = Some (JArr gs)" and "g \<in> set gs"
  shows "\<exists>sg. de_signal_group api g = Some sg"
  using assms by (auto simp: de_device_def struct_view_def defaulted_def bind_eq_Some_conv
      split: if_splits dest!: de_list_member)

lemma config_device_read:
  assumes "de_config api (JObj c) = Some cfg" and "map_of c ''devices'' = Some (JArr ds)" and "d \<in> set ds"
  shows "\<exists>dev. de_device api d = Some dev"
  using assms by (auto simp: de_config_def struct_view_def defaulted_def bind_eq_Some_conv
      split: if_splits dest!: de_list_member)

lemma sample_config_eq: "''a'' \<in> set xs \<longleftrightarrow> ''a'' \<notin> set ys \<Longrightarrow> sample_config xs \<noteq> sample_config ys"
  by (metis device_ids_sample)

text \<open>For a valid file the loader is up to date exactly when it holds the configuration of the file, and the
  validation of the file does not panic.\<close>

lemma up_to_date_iff:
  fixes cl :: config_loader
  assumes "number_laws api" and "toml content = Inr c" and "config_ok c"
  shows "up_to_date (serde_io rd toml api print :: ('n, 'io, 'de, 'se) config_io) (Inr content) cl \<longleftrightarrow>
     cl_current_config cl = c"
proof -
  have "config_from_file (\<lambda>_ :: string. Inr content) toml (cl_config_path cl)
      = (Ret (Inr c) :: (('io, 'de) config_error + config) outcome)"
    unfolding config_from_file_ok_iff using assms by simp
  then show ?thesis
    using diff_configs(2) [OF assms(1), of "cl_current_config cl" c]
    by (simp add: up_to_date_def reload_config_def serde_io_def eq_commute [of c])
qed

lemma valid_file_no_panic:
  fixes io :: "('n, 'io, 'de, 'se) config_io"
  assumes "parse_toml io content = Inr c" and "config_ok c"
  shows "\<not> file_panics io (Inr content)"
proof -
  have "config_validate c = (Ret (Inr ()) :: (('io, 'de) config_error + unit) outcome)"
    using assms(2) by (simp add: config_validate_ok)
  with assms(1) show ?thesis by (simp add: file_panics_def)
qed

section \<open>Properties\<close>


text \<open>C12: Reading back the JSON text a configuration is published as gives the configuration: every name,
  variant and integer of its types is read as it is written.\<close>

theorem config_json_roundtrip:
  assumes "number_laws api"
  shows "de_config api (ser_config (text_serializer api) c) = Some c"
  using config.read_back [OF text_serializer_laws [OF assms], of c] by (simp add: text_serializer_def)

theorem config_json_roundtrip_witness:
  "de_config sample_api (ser_config (text_serializer sample_api) (sample_config [''a'', ''b'']))
     = Some (sample_config [''a'', ''b''])"
  by (rule config_json_roundtrip [OF number_laws_sample])

text \<open>C27: A reload of a valid file publishes a change exactly when the file holds another configuration than
  the one in force, takes it over, and names in the paths exactly the sections that differ.\<close>

theorem reload_tells_what_changed:
  assumes "number_laws api"
    and "config_from_file rd toml (cl_config_path cl) = (Ret (Inr c) :: (('io, 'de) config_error + config) outcome)"
  shows "\<exists>paths. reload_config (serde_io rd toml api print :: ('n, 'io, 'de, 'se) config_io) cl =
       Ret (if c = cl_current_config cl then (Inr None, cl)
            else (Inr (Some (print (ser_config (text_serializer api) c), paths)), cl\<lparr>cl_current_config := c\<rparr>)) \<and>
     path_section ` set paths = changed_sections (cl_current_config cl) c"
  using assms(2) diff_configs [OF assms(1), of "cl_current_config cl" c]
  by (intro exI [of _ "collect_diff_paths [] (ser_config (value_serializer api) (cl_current_config cl))
        (ser_config (value_serializer api) c)"])
     (simp add: reload_config_def serde_io_def)

theorem reload_tells_what_changed_witness:
  "\<exists>paths. reload_config (serde_io (\<lambda>p. Inr ''file'') (\<lambda>s. Inr (sample_config [''b''])) sample_api (\<lambda>v. ''json'')
       :: (sample_number, unit, unit, unit) config_io)
       (config_loader_new ''config.toml'' (sample_config [''a''])) =
     Ret (Inr (Some (''json'', paths)), config_loader_new ''config.toml'' (sample_config [''b''])) \<and>
     path_section ` set paths = {''devices''}"
proof -
  let ?cl = "config_loader_new ''config.toml'' (sample_config [''a''])"
  have ok: "config_ok (sample_config [''b''])"
    by (simp add: config_ok_def sample_config_def config_default_def sample_device_def)
  have d: "sample_config [''b''] \<noteq> sample_config [''a'']" by (rule sample_config_eq) simp
  have f: "config_from_file (\<lambda>p. Inr ''file'') (\<lambda>s. Inr (sample_config [''b''])) (cl_config_path ?cl)
      = (Ret (Inr (sample_config [''b''])) :: ((unit, unit) config_error + config) outcome)"
    unfolding config_from_file_ok_iff using ok by simp
  have "changed_sections (sample_config [''a'']) (sample_config [''b'']) = {''devices''}"
    by (simp add: changed_sections_def sample_config_def config_default_def sample_device_def)
  with reload_tells_what_changed [OF number_laws_sample f, of "\<lambda>v. ''json''"] d show ?thesis
    by (simp add: config_loader_new_def)
qed

text \<open>C37: A change of the file that is published puts a valid configuration in force: once the updater has
  handled the message, it and the loader hold the same configuration and the table of devices holds
  exactly its devices, provided the JSON text printed is parsed as the value it was printed from.\<close>

theorem published_change_takes_effect:
  assumes "number_laws api"
    and printed: "parse (print (ser_config (text_serializer api) (cl_current_config cl')))
      = Inr (ser_config (text_serializer api) (cl_current_config cl'))"
    and "iteration_order iter" and "cu_config cu = cl_current_config cl"
    and "dom (map_of states) = device_ids (cl_current_config cl)"
    and reload: "reload_config (serde_io rd toml api print :: ('n, 'io, 'de, 'se) config_io) cl
      = Ret (Inr (Some (config_json, paths)), cl')"
    and update: "apply_config_update (config_from_str parse bad api) iter instant_now config_json cu states w
      = (r, cu', states', w')"
  shows "config_ok (cl_current_config cl') \<and> cu_config cu' = cl_current_config cl' \<and>
     dom (map_of states') = device_ids (cl_current_config cl')"
proof -
  have "config_json = print (ser_config (text_serializer api) (cl_current_config cl'))"
    using reload_config_changed [OF reload] by (auto simp: serde_io_def)
  then have "config_from_str parse bad api config_json = Inr (cl_current_config cl')"
    using config_from_str_printed [OF assms(1)] printed by simp
  from published_change [OF this assms(3-5) reload update] show ?thesis .
qed

theorem published_change_takes_effect_witness:
  "cu_config (fst (snd (apply_config_update
       (config_from_str (\<lambda>t. Inr (ser_config (text_serializer sample_api) (sample_config [''b'', ''c'']))) (\<lambda>v. ()) sample_api)
       sorted_list_of_set (\<lambda>w. (w, Suc w)) ''json''
       (config_updater_new (sample_config [''a'', ''b''])) [(''a'', initial_status 5), (''b'', initial_status 6)] 7)))
     = sample_config [''b'', ''c'']"
proof -
  let ?new = "sample_config [''b'', ''c'']"
  let ?cl = "config_loader_new ''config.toml'' (sample_config [''a'', ''b''])"
  let ?cu = "config_updater_new (sample_config [''a'', ''b''])"
  let ?st = "[(''a'', initial_status 5), (''b'', initial_status 6)]"
  let ?parse = "\<lambda>t :: string. (Inr (ser_config (text_serializer sample_api) ?new) :: unit + sample_number json)"
  let ?io = "serde_io (\<lambda>p. Inr ''file'') (\<lambda>s. Inr ?new) sample_api (\<lambda>v. ''json'')
    :: (sample_number, unit, unit, unit) config_io"
  obtain r cu' states' w' where step:
    "apply_config_update (config_from_str ?parse (\<lambda>v. ()) sample_api) sorted_list_of_set (\<lambda>w. (w, Suc w)) ''json''
       ?cu ?st (7 :: nat) = (r, cu', states', w')"
    by (cases "apply_config_update (config_from_str ?parse (\<lambda>v. ()) sample_api) sorted_list_of_set
          (\<lambda>w. (w, Suc w)) ''json'' ?cu ?st (7 :: nat)")
  have "config_from_file (\<lambda>p :: string. Inr ''file'') (\<lambda>s. Inr ?new) (cl_config_path ?cl)
      = (Ret (Inr ?new) :: ((unit, unit) config_error + config) outcome)"
    unfolding config_from_file_ok_iff using config_ok_sample by simp
  moreover have "?new \<noteq> sample_config [''a'', ''b'']"
    by (rule sample_config_eq) simp
  ultimately obtain paths where reload:
    "reload_config ?io ?cl = Ret (Inr (Some (''json'', paths)), config_loader_new ''config.toml'' ?new)"
    using diff_configs(2) [OF number_laws_sample, of "sample_config [''a'', ''b'']" ?new]
    by (simp add: reload_config_def serde_io_def config_loader_new_def)
  have cu: "cu_config ?cu = cl_current_config ?cl" by (simp add: config_updater_new_def config_loader_new_def)
  have st: "dom (map_of ?st) = device_ids (cl_current_config ?cl)"
    by (auto simp: config_loader_new_def device_ids_sample)
  from published_change_takes_effect [OF number_laws_sample _ iteration_order_sorted cu st reload step]
  have "cu_config cu' = ?new" by (simp add: config_loader_new_def)
  with step show ?thesis by simp
qed

text \<open>C16: A configuration that gives a field a data type other than the seven lower-case names is refused; so
  are the files that come with the program and write \<open>F32\<close> or \<open>U16\<close>.\<close>

theorem unknown_data_type_refused:
  assumes "map_of c ''devices'' = Some (JArr ds)" and "JObj d \<in> set ds"
    and "map_of d ''signal_groups'' = Some (JArr gs)" and "JObj g \<in> set gs"
    and "map_of g ''fields'' = Some (JArr fs)" and "JObj f \<in> set fs"
    and "map_of f ''data_type'' = Some (JStr t)"
    and "t \<notin> set [''u16'', ''u32'', ''i16'', ''i32'', ''f32'', ''f64'', ''bool'']"
  shows "de_config api (JObj c) = None"
proof (rule ccontr)
  assume "de_config api (JObj c) \<noteq> None"
  then obtain cfg where "de_config api (JObj c) = Some cfg" by blast
  then obtain dev where "de_device api (JObj d) = Some dev" using config_device_read assms(1,2) by blast
  then obtain sg where "de_signal_group api (JObj g) = Some sg" using device_group_read assms(3,4) by blast
  then obtain fm where "de_field_mapping api (JObj f) = Some fm" using group_field_read assms(5,6) by blast
  with field_data_type assms(7,8) show False by blast
qed

text \<open>The first field of \<open>config.example.toml\<close>.\<close>

theorem unknown_data_type_refused_witness:
  "de_config sample_api (JObj [(''devices'', JArr [JObj
     [(''id'', JStr ''plc-1''), (''type'', JStr ''plc''), (''address'', JStr ''192.168.1.100''),
      (''port'', json_u64 sample_api 502), (''unit_id'', json_u64 sample_api 1),
      (''signal_groups'', JArr [JObj
        [(''name'', JStr ''sensor_data''), (''register_address'', JStr ''h100''),
         (''register_count'', json_u64 sample_api 6),
         (''fields'', JArr [JObj [(''name'', JStr ''temperature''), (''data_type'', JStr ''F32''),
            (''offset'', json_u64 sample_api 0)]])]])]])]) = None"
  by (rule unknown_data_type_refused [where t = "''F32''"], simp, simp, simp, simp, simp, simp, simp, simp)

text \<open>C20: From every state of the watching program in which the file holds a valid configuration and its last
  change was reported, the program's own steps, with no further change and no further report, can reach
  a state in which the loader waits for the next change with exactly that configuration in force.\<close>

theorem last_change_in_force:
  fixes io :: "('n, 'io, 'de, 'se) config_io"
  assumes "number_laws api" and io: "io = serde_io rd toml api print"
    and start: "toml content0 = Inr (cl_current_config cl)"
    and reach: "watch_reachable io hub watcher watch (Inr content0) cl w s"
    and "watching s" and reported: "\<not> ws_unreported s"
    and "ws_file s = Inr content" and "toml content = Inr c" and "config_ok c"
  shows "\<exists>s'. (own_step io hub)\<^sup>*\<^sup>* s s' \<and> ws_phase s' = Polling \<and> cl_current_config (ws_loader s') = c"
proof -
  have "up_to_date io (Inr content0) cl" by (rule up_to_date_loaded) (simp add: io serde_io_def start)
  from last_change_is_loaded [OF this reach reported] assms(5,7) obtain s' where s':
    "(own_step io hub)\<^sup>*\<^sup>* s s'"
    "ws_phase s' = Crashed \<and> file_panics io (Inr content) \<or> ws_phase s' = Polling \<and> up_to_date io (Inr content) (ws_loader s')"
    by auto
  moreover have "\<not> file_panics io (Inr content)"
    by (rule valid_file_no_panic [OF _ assms(9)]) (simp add: io serde_io_def assms(8))
  moreover have "up_to_date io (Inr content) (ws_loader s') \<longleftrightarrow> cl_current_config (ws_loader s') = c"
    unfolding io by (rule up_to_date_iff) (rule assms)+
  ultimately show ?thesis by blast
qed

definition sample_serde_io :: "(sample_number, unit, unit, unit) config_io" where
  "sample_serde_io = serde_io (\<lambda>p. Inr ''old'')
     (\<lambda>s. Inr (sample_config (if s = ''old'' then [''a'', ''b''] else [''b'', ''c'']))) sample_api (\<lambda>v. ''json'')"

text \<open>The file has changed and the watcher has reported it.\<close>

theorem last_change_in_force_witness:
  "\<forall>hub :: (sample_number, unit, nat) hub_api. \<exists>s'. (own_step sample_serde_io hub)\<^sup>*\<^sup>*
       (sample_watch_start\<lparr>ws_file := Inr ''new'', ws_reports := [Inr 1]\<rparr>) s' \<and>
     ws_phase s' = Polling \<and> cl_current_config (ws_loader s') = sample_config [''b'', ''c'']"
proof
  fix hub :: "(sample_number, unit, nat) hub_api"
  let ?cl = "config_loader_new ''config.toml'' (sample_config [''a'', ''b''])"
  let ?s = "sample_watch_start\<lparr>ws_file := Inr ''new'', ws_reports := [Inr 1]\<rparr>"
  have "watch_step sample_serde_io hub (watch_start (Inr ()) (\<lambda>_. Inr ()) (Inr ''old'') ?cl 7) ?s"
    using env_step.file_changed [of sample_watch_start 1 "Inr ''new''"]
    by (simp add: sample_watch_start_def watch_start_def watch_step_def)
  then have r: "watch_reachable sample_serde_io hub (Inr ()) (\<lambda>_. Inr ()) (Inr ''old'') ?cl 7 ?s"
    by (rule reachable.step [OF reachable.start])
  show "\<exists>s'. (own_step sample_serde_io hub)\<^sup>*\<^sup>* ?s s' \<and>
     ws_phase s' = Polling \<and> cl_current_config (ws_loader s') = sample_config [''b'', ''c'']"
    by (rule last_change_in_force [OF number_laws_sample sample_serde_io_def _ r sample_watching, of "''new''"])
       (simp_all add: config_loader_new_def config_ok_sample, simp_all add: sample_watch_start_def watch_start_def)
qed

end
