(* ===== verification/Register_Demo.thy ===== *)
theory Register_Demo
  imports Demo_Client Config_Reload
begin

text \<open>
  \<open>demo/register_rpc_demo.rs\<close>: the configuration it writes, the requests it shows, the registers it sets
  and reads back, and its way of sending a request.  Its server is the one of the tests, of which it uses
  the maps of registers; the TOML text of the configuration is given as the tree of its tables.

  The lemmas show that the program would take neither the configuration nor the requests.
\<close>

section \<open>Configuration\<close>

definition demo_field :: "'n number_api \<Rightarrow> string \<Rightarrow> u64 \<Rightarrow> 'n json" where
  "demo_field api name offset =
     JObj [(''name'', JStr name), (''data_type'', JStr ''U16''), (''offset'', json_u64 api offset)]"

definition demo_device :: "'n number_api \<Rightarrow> u16 \<Rightarrow> (string \<times> 'n json) list" where
  "demo_device api modbus_port =
     [(''id'', JStr ''demo-plc''), (''type'', JStr ''plc''), (''address'', JStr ''127.0.0.1''),
      (''port'', json_u64 api (ucast modbus_port)), (''unit_id'', json_u64 api 1),
      (''addressing_mode'', JStr ''zero_based''), (''byte_order'', JStr ''big_endian''),
      (''tcp_nodelay'', JBool True), (''max_concurrent_ops'', json_u64 api 3),
      (''heartbeat_interval_sec'', json_u64 api 30),
      (''signal_groups'', JArr [JObj
        [(''name'', JStr ''sensors''), (''register_address'', JStr ''h100''), (''register_count'', json_u64 api 2),
         (''fields'', JArr [demo_field api ''temperature'' 0, demo_field api ''pressure'' 1])]])]"

definition create_demo_config :: "'n number_api \<Rightarrow> u16 \<Rightarrow> u16 \<Rightarrow> u16 \<Rightarrow> (string \<times> 'n json) list" where
  "create_demo_config api rpc http modbus =
     [(''server'', JObj [(''rpc_port'', json_u64 api (ucast rpc)), (''http_port'', json_u64 api (ucast http))]),
      (''logging'', JObj [(''level'', JStr ''info''), (''file'', JStr ''/tmp/register_rpc_demo.log''),
        (''daily_rotation'', JBool True)]),
      (''devices'', JArr [JObj (demo_device api modbus)])]"

section \<open>Requests\<close>

definition build_jsonrpc_request :: "'n number_api \<Rightarrow> string \<Rightarrow> 'n json \<Rightarrow> u64 \<Rightarrow> 'n json" where
  "build_jsonrpc_request api method params i =
     json_object [(''jsonrpc'', JStr ''2.0''), (''method'', JStr method), (''params'', params), (''id'', json_u64 api i)]"

text \<open>The three requests \<open>main\<close> shows.\<close>

definition demo_ping :: "'n number_api \<Rightarrow> 'n json" where
  "demo_ping api = build_jsonrpc_request api ''ping'' (json_object []) 1"

definition demo_read_sensors :: "'n number_api \<Rightarrow> 'n json" where
  "demo_read_sensors api = build_jsonrpc_request api ''read_signal_group''
     (json_object [(''device_id'', JStr ''demo-plc''), (''group_name'', JStr ''sensors'')]) 2"

definition demo_write_actuators :: "'n number_api \<Rightarrow> 'n json" where
  "demo_write_actuators api = build_jsonrpc_request api ''write_signal_group''
     (json_object [(''device_id'', JStr ''demo-plc''), (''group_name'', JStr ''actuators''),
       (''data'', json_object [(''temperature'', json_u64 api 75), (''pressure'', json_u64 api 200)])]) 3"

text \<open>A line is sent and the answer is what one \<open>read\<close> gives of it, at most 4096 bytes; \<open>write_all\<close>
  and \<open>flush\<close> are one write.\<close>

definition send_jsonrpc_request ::
  "('w \<Rightarrow> ('e + 's) \<times> 'w) \<Rightarrow> ('s \<Rightarrow> string \<Rightarrow> 'w \<Rightarrow> ('e + unit) \<times> 'w) \<Rightarrow> ('s \<Rightarrow> nat \<Rightarrow> 'w \<Rightarrow> ('e + string) \<times> 'w)
     \<Rightarrow> (string \<Rightarrow> string) \<Rightarrow> string \<Rightarrow> 'w \<Rightarrow> ('e + string) \<times> 'w" where
  "send_jsonrpc_request connect write_all read_once from_utf8_lossy request w =
     (case connect w of
        (Inl e, w1) \<Rightarrow> (Inl e, w1)
      | (Inr stream, w1) \<Rightarrow>
          (case write_all stream (request @ [CHR 0x0A]) w1 of
             (Inl e, w2) \<Rightarrow> (Inl e, w2)
           | (Inr _, w2) \<Rightarrow>
               (case read_once stream 4096 w2 of
                  (Inl e, w3) \<Rightarrow> (Inl e, w3)
                | (Inr bytes, w3) \<Rightarrow> (Inr (from_utf8_lossy bytes), w3))))"

section \<open>Registers\<close>

record demo_registers =
  dr_holding :: "u16 \<rightharpoonup> u16"
  dr_input :: "u16 \<rightharpoonup> u16"
  dr_coils :: "u16 \<rightharpoonup> bool"

text \<open>What \<open>main\<close> sets and what it reads, before and after the new values.\<close>

definition demo_main_registers :: "demo_registers \<Rightarrow> (u16 option \<times> u16 option) \<times> (u16 option \<times> u16 option) \<times> demo_registers" where
  "demo_main_registers r =
     (let r1 = r\<lparr>dr_holding := (dr_holding r)(100 \<mapsto> 42, 101 \<mapsto> 100), dr_input := (dr_input r)(200 \<mapsto> 25),
                 dr_coils := (dr_coils r)(300 \<mapsto> True)\<rparr>;
          r2 = r1\<lparr>dr_holding := (dr_holding r1)(100 \<mapsto> 50, 101 \<mapsto> 150)\<rparr>
      in ((dr_holding r1 100, dr_holding r1 101), (dr_holding r2 100, dr_holding r2 101), r2))"

lemma demo_reads_what_it_wrote:
  "fst (demo_main_registers r) = (Some 42, Some 100) \<and> fst (snd (demo_main_registers r)) = (Some 50, Some 150)"
  by (simp add: demo_main_registers_def Let_def)

section \<open>What the program makes of them\<close>

lemma demo_config_refused: "de_config api (JObj (create_demo_config api rpc http modbus)) = None"
proof (rule ccontr)
  assume "de_config api (JObj (create_demo_config api rpc http modbus)) \<noteq> None"
  then obtain cfg where "de_config api (JObj (create_demo_config api rpc http modbus)) = Some cfg" by blast
  from config_device_read [OF this, of "[JObj (demo_device api modbus)]" "JObj (demo_device api modbus)"]
  obtain dev where "de_device api (JObj (demo_device api modbus)) = Some dev"
    by (auto simp: create_demo_config_def)
  from device_group_read [OF this]
  obtain sg where "de_signal_group api (JObj
        [(''name'', JStr ''sensors''), (''register_address'', JStr ''h100''), (''register_count'', json_u64 api 2),
         (''fields'', JArr [demo_field api ''temperature'' 0, demo_field api ''pressure'' 1])]) = Some sg"
    by (force simp: demo_device_def)
  from group_field_read [OF this, of _ "demo_field api ''temperature'' 0"]
  obtain fm where "de_field_mapping api (demo_field api ''temperature'' 0) = Some fm" by auto
  from field_data_type [OF this [unfolded demo_field_def], of "''U16''"] show False by simp
qed

text \<open>No request of this form names its method as the server reads it, whatever its parameters.\<close>

theorem demo_requests_not_understood:
  "\<exists>ms. build_jsonrpc_request api method params i = JObj ms \<and> decode_method ms = None"
proof -
  obtain ms where ms: "build_jsonrpc_request api method params i = JObj ms"
    by (simp add: build_jsonrpc_request_def json_object_def)
  have "map_of ms ''m'' = json_get (build_jsonrpc_request api method params i) ''m''" by (simp add: ms)
  also have "\<dots> = None" by (simp add: build_jsonrpc_request_def json_get_json_object)
  finally show ?thesis using ms by (simp add: decode_method_def)
qed

text \<open>In the words of the server the write would name a group the configuration does not have.\<close>

lemma demo_write_group_missing:
  "decode_method [(''m'', JStr ''write_signal_group''), (''p'', JObj
      [(''data'', d), (''device_id'', JStr ''demo-plc''), (''group_name'', JStr ''actuators'')])]
     = Some (MWriteSignalGroup ''demo-plc'' ''actuators'' d)"
  by (simp add: decode_method_def decode_params_def members_in_def str_member_def)

end
