(* ===== verification/Sse.thy ===== *)
theory Sse
  imports Messages
begin

text \<open>
  \<open>src/workers/sse_worker.rs\<close>: the registry of server-sent event connections and the worker that
  routes stream updates and heartbeats to them.  The bounded channel of a connection (\<open>tokio\<close>) is its
  buffer, oldest event first, and whether its receiver is gone.  The \<open>DashMap\<close> of connections is the
  association list in the order it iterates.
\<close>

section \<open>Connections\<close>

datatype 'n sse_event_data = JsonData "'n json" | Heartbeat

record 'n sse_channel =
  ch_capacity :: nat
  ch_buffer :: "'n sse_event_data list"
  ch_closed :: bool

datatype try_send_error = Full | Closed

definition try_send :: "'n sse_event_data \<Rightarrow> 'n sse_channel \<Rightarrow> (try_send_error + unit) \<times> 'n sse_channel" where
  "try_send e c =
     (if ch_closed c then (Inl Closed, c)
      else if length (ch_buffer c) < ch_capacity c then (Inr (), c\<lparr>ch_buffer := ch_buffer c @ [e]\<rparr>)
      else (Inl Full, c))"

definition SSE_CHANNEL_CAPACITY :: nat where "SSE_CHANNEL_CAPACITY = 100"

definition create_sse_channel :: "'n sse_channel" where
  "create_sse_channel = \<lparr>ch_capacity = SSE_CHANNEL_CAPACITY, ch_buffer = [], ch_closed = False\<rparr>"

type_synonym sse_connection_id = u64

record 'n sse_connection =
  sse_device_id :: string
  sse_signal_groups :: "string list"
  sse_connected_at :: u64
  sse_sender :: "'n sse_channel"

definition sse_connection_new :: "string \<Rightarrow> string list \<Rightarrow> u64 \<Rightarrow> 'n sse_channel \<Rightarrow> 'n sse_connection" where
  "sse_connection_new d gs t c =
     \<lparr>sse_device_id = d, sse_signal_groups = gs, sse_connected_at = t, sse_sender = c\<rparr>"

definition is_subscribed_to :: "'n sse_connection \<Rightarrow> string \<Rightarrow> bool" where
  "is_subscribed_to conn signal_group = list_ex (\<lambda>g. g = signal_group) (sse_signal_groups conn)"

section \<open>The registry\<close>

definition MAX_SSE_CONNECTIONS :: nat where "MAX_SSE_CONNECTIONS = 100"

record 'n sse_registry =
  sr_connections :: "(sse_connection_id \<times> 'n sse_connection) list"
  sr_next_id :: u64

definition sse_registry_new :: "'n sse_registry" where
  "sse_registry_new = \<lparr>sr_connections = [], sr_next_id = 0\<rparr>"

text \<open>The number of connections is tested before the insertion, which is not one atomic operation; the
  two parts are separate so that registrations may interleave.\<close>

definition register_allowed :: "'n sse_registry \<Rightarrow> bool" where
  "register_allowed r \<longleftrightarrow> \<not> MAX_SSE_CONNECTIONS \<le> length (sr_connections r)"

definition register_insert :: "'n sse_connection \<Rightarrow> 'n sse_registry \<Rightarrow> sse_connection_id \<times> 'n sse_registry" where
  "register_insert conn r =
     (let i = sr_next_id r in
      (i, \<lparr>sr_connections = filter (\<lambda>(k, _). k \<noteq> i) (sr_connections r) @ [(i, conn)], sr_next_id = i + 1\<rparr>))"

definition register :: "'n sse_connection \<Rightarrow> 'n sse_registry \<Rightarrow> (string + sse_connection_id) \<times> 'n sse_registry" where
  "register conn r =
     (if \<not> register_allowed r
      then (Inl (''Maximum SSE connections limit reached ('' @ show_nat MAX_SSE_CONNECTIONS
                 @ ''). Rejecting new connection.''), r)
      else let (i, r') = register_insert conn r in (Inr i, r'))"

definition unregister :: "sse_connection_id \<Rightarrow> 'n sse_registry \<Rightarrow> 'n sse_channel option \<times> 'n sse_registry" where
  "unregister i r =
     (map_option sse_sender (map_of (sr_connections r) i),
      r\<lparr>sr_connections := filter (\<lambda>(k, _). k \<noteq> i) (sr_connections r)\<rparr>)"

definition registry_count :: "'n sse_registry \<Rightarrow> nat" where
  "registry_count r = length (sr_connections r)"

definition all_connection_ids :: "'n sse_registry \<Rightarrow> sse_connection_id list" where
  "all_connection_ids r = map fst (sr_connections r)"

definition registry_clear :: "'n sse_registry \<Rightarrow> 'n sse_registry" where
  "registry_clear r = r\<lparr>sr_connections := []\<rparr>"

text \<open>The loop over the connections: the number of events sent, the dead connections, and the
  connections with their channels after it.  \<open>wanted\<close> selects the addressees.\<close>

fun send_loop ::
  "('n sse_connection \<Rightarrow> bool) \<Rightarrow> 'n sse_event_data \<Rightarrow> (sse_connection_id \<times> 'n sse_connection) list
     \<Rightarrow> nat \<times> sse_connection_id list \<times> (sse_connection_id \<times> 'n sse_connection) list" where
  "send_loop wanted e [] = (0, [], [])"
| "send_loop wanted e ((i, conn) # cs) =
     (let (n, dead, cs') = send_loop wanted e cs in
      if wanted conn
      then case try_send e (sse_sender conn) of
             (Inr _, c) \<Rightarrow> (Suc n, dead, (i, conn\<lparr>sse_sender := c\<rparr>) # cs')
           | (Inl Full, c) \<Rightarrow> (n, dead, (i, conn\<lparr>sse_sender := c\<rparr>) # cs')
           | (Inl Closed, c) \<Rightarrow> (n, i # dead, (i, conn\<lparr>sse_sender := c\<rparr>) # cs')
      else (n, dead, (i, conn) # cs'))"

definition send_and_clean ::
  "('n sse_connection \<Rightarrow> bool) \<Rightarrow> 'n sse_event_data \<Rightarrow> 'n sse_registry \<Rightarrow> nat \<times> 'n sse_registry" where
  "send_and_clean wanted e r =
     (let (n, dead, cs) = send_loop wanted e (sr_connections r)
      in (n, fold (\<lambda>i r. snd (unregister i r)) dead (r\<lparr>sr_connections := cs\<rparr>)))"

definition send_to_subscribers ::
  "string \<Rightarrow> string \<Rightarrow> 'n sse_event_data \<Rightarrow> 'n sse_registry \<Rightarrow> nat \<times> 'n sse_registry" where
  "send_to_subscribers device_id signal_group e r =
     send_and_clean (\<lambda>conn. sse_device_id conn = device_id \<and> is_subscribed_to conn signal_group) e r"

definition send_heartbeat_to_all :: "'n sse_registry \<Rightarrow> nat \<times> 'n sse_registry" where
  "send_heartbeat_to_all r = send_and_clean (\<lambda>conn. True) Heartbeat r"

section \<open>The worker\<close>

definition SSE_HEARTBEAT_INTERVAL_SECS :: nat where "SSE_HEARTBEAT_INTERVAL_SECS = 15"

record sse_worker =
  sw_messages_received :: u64
  sw_messages_routed :: u64
  sw_last_heartbeat_check :: nat

definition sse_worker_new :: "nat \<Rightarrow> sse_worker" where
  "sse_worker_new now =
     \<lparr>sw_messages_received = 0, sw_messages_routed = 0, sw_last_heartbeat_check = now\<rparr>"

definition sse_data ::
  "'n number_api \<Rightarrow> string \<Rightarrow> string \<Rightarrow> 'n json \<Rightarrow> u64 \<Rightarrow> u64 \<Rightarrow> u64 \<Rightarrow> 'n json" where
  "sse_data api device_id signal_group values timestamp_ms latency_us seqno = json_object
     [(''device_id'', JStr device_id), (''signal_group'', JStr signal_group), (''values'', values),
      (''timestamp_ms'', json_u64 api timestamp_ms), (''latency_us'', json_u64 api latency_us),
      (''sequence'', json_u64 api seqno)]"

fun handle_data_stream_update ::
  "'n number_api \<Rightarrow> ('n, 'ch) message \<Rightarrow> sse_worker \<Rightarrow> 'n sse_registry \<Rightarrow> sse_worker \<times> 'n sse_registry" where
  "handle_data_stream_update api (DataStreamUpdate device_id signal_group values ts lat seqno) sw r =
     (let sw1 = sw\<lparr>sw_messages_received := sw_messages_received sw + 1\<rparr>;
          (n, r') = send_to_subscribers device_id signal_group
                      (JsonData (sse_data api device_id signal_group values ts lat seqno)) r
      in (if 0 < n then sw1\<lparr>sw_messages_routed := sw_messages_routed sw1 + word_of_nat n\<rparr> else sw1, r'))"
| "handle_data_stream_update api _ sw r =
     (sw\<lparr>sw_messages_received := sw_messages_received sw + 1\<rparr>, r)"

text \<open>\<open>now\<close> is the monotonic clock in nanoseconds.\<close>

definition send_heartbeat_if_needed :: "nat \<Rightarrow> sse_worker \<Rightarrow> 'n sse_registry \<Rightarrow> sse_worker \<times> 'n sse_registry" where
  "send_heartbeat_if_needed now sw r =
     (if SSE_HEARTBEAT_INTERVAL_SECS * 10 ^ 9 \<le> now - sw_last_heartbeat_check sw
      then (sw\<lparr>sw_last_heartbeat_check := now\<rparr>, snd (send_heartbeat_to_all r))
      else (sw, r))"

definition sse_message ::
  "'n number_api \<Rightarrow> nat \<Rightarrow> ('n, 'ch) message \<Rightarrow> sse_worker \<Rightarrow> 'n sse_registry \<Rightarrow> sse_worker \<times> 'n sse_registry" where
  "sse_message api now msg sw r =
     (let (sw1, r1) = handle_data_stream_update api msg sw r in send_heartbeat_if_needed now sw1 r1)"

section \<open>The registry in use\<close>

text \<open>Registrations and removals of any number of clients, what the clients do to their channels, and
  the routing of the worker, interleaved; at most \<open>threads\<close> registrations are between their test and
  their insertion, and \<open>k\<close> of them are.\<close>

inductive registry_reach :: "nat \<Rightarrow> nat \<Rightarrow> 'n sse_registry \<Rightarrow> bool" for threads :: nat where
  new: "registry_reach threads 0 sse_registry_new"
| test: "registry_reach threads k r \<Longrightarrow> register_allowed r \<Longrightarrow> k < threads \<Longrightarrow> registry_reach threads (Suc k) r"
| insert: "registry_reach threads (Suc k) r \<Longrightarrow> registry_reach threads k (snd (register_insert conn r))"
| remove: "registry_reach threads k r \<Longrightarrow> registry_reach threads k (snd (unregister i r))"
| route: "registry_reach threads k r \<Longrightarrow> registry_reach threads k (snd (send_and_clean wanted e r))"
| client: "registry_reach threads k r \<Longrightarrow> registry_reach threads k
    (r\<lparr>sr_connections := map (\<lambda>(i, c). (i, c\<lparr>sse_sender := f i (sse_sender c)\<rparr>)) (sr_connections r)\<rparr>)"
| clear: "registry_reach threads k r \<Longrightarrow> registry_reach threads k (registry_clear r)"

section \<open>Lemmas\<close>

text \<open>What a broadcast does to one connection.\<close>

definition has_room :: "'n sse_connection \<Rightarrow> bool" where
  "has_room conn \<longleftrightarrow> length (ch_buffer (sse_sender conn)) < ch_capacity (sse_sender conn)"

definition is_dead :: "'n sse_connection \<Rightarrow> bool" where
  "is_dead conn \<longleftrightarrow> ch_closed (sse_sender conn)"

definition deliver :: "'n sse_event_data \<Rightarrow> 'n sse_connection \<Rightarrow> 'n sse_connection" where
  "deliver e conn = conn\<lparr>sse_sender := (sse_sender conn)\<lparr>ch_buffer := ch_buffer (sse_sender conn) @ [e]\<rparr>\<rparr>"

definition receives :: "('n sse_connection \<Rightarrow> bool) \<Rightarrow> 'n sse_connection \<Rightarrow> bool" where
  "receives wanted conn \<longleftrightarrow> wanted conn \<and> \<not> is_dead conn \<and> has_room conn"

definition subscriber :: "string \<Rightarrow> string \<Rightarrow> 'n sse_connection \<Rightarrow> bool" where
  "subscriber device_id signal_group conn \<longleftrightarrow>
     sse_device_id conn = device_id \<and> signal_group \<in> set (sse_signal_groups conn)"

lemma send_loop_eq:
  "send_loop wanted e cs =
     (length (filter (\<lambda>(i, c). receives wanted c) cs),
      map fst (filter (\<lambda>(i, c). wanted c \<and> is_dead c) cs),
      map (\<lambda>(i, c). (i, if receives wanted c then deliver e c else c)) cs)"
proof (induction cs)
  case (Cons p cs)
  then show ?case
    by (cases p) (auto simp: try_send_def receives_def is_dead_def has_room_def deliver_def)
qed simp

lemma fold_unregister:
  "fold (\<lambda>i r. snd (unregister i r)) ks r =
     r\<lparr>sr_connections := filter (\<lambda>(k, _). k \<notin> set ks) (sr_connections r)\<rparr>"
proof (induction ks arbitrary: r)
  case (Cons k ks)
  have "filter (\<lambda>(k', _). k' \<notin> set ks) (filter (\<lambda>(k', _). k' \<noteq> k) cs) = filter (\<lambda>(k', _). k' \<notin> set (k # ks)) cs"
    for cs :: "(u64 \<times> 'a sse_connection) list"
    by (simp add: split_beta) (rule filter_cong; auto)
  with Cons show ?case by (simp add: unregister_def)
qed (simp add: case_prod_unfold)

lemma send_and_clean_eq:
  assumes "distinct (map fst (sr_connections r))"
  shows "send_and_clean wanted e r =
     (length (filter (\<lambda>(i, c). receives wanted c) (sr_connections r)),
      r\<lparr>sr_connections :=
          map (\<lambda>(i, c). (i, if receives wanted c then deliver e c else c))
            (filter (\<lambda>(i, c). \<not> (wanted c \<and> is_dead c)) (sr_connections r))\<rparr>)"
proof -
  let ?cs = "sr_connections r" and ?d = "\<lambda>(i :: u64, c). (i, if receives wanted c then deliver e c else c)"
  have dead: "i \<in> fst ` set (filter (\<lambda>(i, c). wanted c \<and> is_dead c) ?cs) \<longleftrightarrow> wanted c \<and> is_dead c"
    if "(i, c) \<in> set ?cs" for i c
    using that assms by (force dest: eq_key_imp_eq_value)
  have "filter (\<lambda>(k, _). k \<notin> fst ` set (filter (\<lambda>(i, c). wanted c \<and> is_dead c) ?cs)) (map ?d ?cs)
      = map ?d (filter (\<lambda>(k, _). k \<notin> fst ` set (filter (\<lambda>(i, c). wanted c \<and> is_dead c) ?cs)) ?cs)"
    by (simp add: filter_map o_def case_prod_unfold)
  also have "\<dots> = map ?d (filter (\<lambda>(i, c). \<not> (wanted c \<and> is_dead c)) ?cs)"
    using dead by (intro arg_cong [where f = "map ?d"] filter_cong) auto
  finally show ?thesis
    by (simp add: send_and_clean_def send_loop_eq fold_unregister)
qed

lemma registry_ids_distinct: "registry_reach threads k r \<Longrightarrow> distinct (map fst (sr_connections r))"
proof (induction rule: registry_reach.induct)
  case (insert k r conn)
  then show ?case by (auto simp: register_insert_def Let_def distinct_map intro: inj_on_subset)
next
  case (remove k r i)
  then show ?case by (auto simp: unregister_def distinct_map intro: inj_on_subset)
next
  case (route k r wanted e)
  have "map fst (map (\<lambda>(i, c). (i, if receives wanted c then deliver e c else c)) cs) = map fst cs"
    for cs :: "(u64 \<times> 'a sse_connection) list"
    by (simp add: case_prod_unfold)
  with route show ?case
    by (simp add: send_and_clean_eq distinct_map_filter del: map_map)
next
  case (client k r f)
  then show ?case by (simp add: o_def case_prod_unfold)
qed (simp_all add: sse_registry_new_def registry_clear_def)

lemma registry_reach_bound:
  "registry_reach threads k r \<Longrightarrow> k \<le> threads \<and> length (sr_connections r) + k \<le> 99 + threads"
proof (induction rule: registry_reach.induct)
  case (test k r)
  then show ?case by (simp add: register_allowed_def MAX_SSE_CONNECTIONS_def)
next
  case (insert k r conn)
  have "length (sr_connections (snd (register_insert conn r))) \<le> Suc (length (sr_connections r))"
    by (simp add: register_insert_def Let_def)
  with insert show ?case by linarith
next
  case (remove k r i)
  have "length (sr_connections (snd (unregister i r))) \<le> length (sr_connections r)"
    by (simp add: unregister_def)
  with remove show ?case by linarith
next
  case (route k r wanted e)
  have "length (sr_connections (snd (send_and_clean wanted e r))) \<le> length (sr_connections r)"
    by (simp add: send_and_clean_def send_loop_eq fold_unregister order_trans [OF length_filter_le])
  with route show ?case by linarith
qed (simp_all add: sse_registry_new_def registry_clear_def)

lemma registry_reach_fill:
  "n \<le> 99 \<Longrightarrow> \<exists>r :: 'n sse_registry. registry_reach threads 0 r \<and> length (sr_connections r) = n \<and>
     sr_next_id r = word_of_nat n \<and> fst ` set (sr_connections r) = word_of_nat ` {0..<n}" if "0 < threads"
proof (induction n)
  case 0
  have "registry_reach threads 0 (sse_registry_new :: 'n sse_registry)" by (rule registry_reach.new)
  then show ?case by (intro exI [of _ sse_registry_new]) (simp add: sse_registry_new_def)
next
  case (Suc n)
  then obtain r :: "'n sse_registry" where r: "registry_reach threads 0 r" "length (sr_connections r) = n"
    "sr_next_id r = word_of_nat n" "fst ` set (sr_connections r) = word_of_nat ` {0..<n}"
    by auto
  have "registry_reach threads (Suc 0) r"
    by (rule registry_reach.test [OF r(1)]) (use r(2) Suc.prems that in \<open>simp_all add: register_allowed_def MAX_SSE_CONNECTIONS_def\<close>)
  then have "registry_reach threads 0 (snd (register_insert undefined r))" by (rule registry_reach.insert)
  moreover have "(word_of_nat n :: u64) \<notin> word_of_nat ` {0..<n}"
  proof
    assume "(word_of_nat n :: u64) \<in> word_of_nat ` {0..<n}"
    then obtain m where "m < n" "(word_of_nat n :: u64) = word_of_nat m" by auto
    moreover have "unat (word_of_nat n :: u64) = n" "unat (word_of_nat m :: u64) = m"
      using Suc.prems \<open>m < n\<close> by (simp_all add: unat_of_nat take_bit_nat_eq_self)
    ultimately show False by simp
  qed
  then have "filter (\<lambda>(k, _). k \<noteq> word_of_nat n) (sr_connections r) = sr_connections r"
    using r(4) by (intro filter_True) force
  then have "snd (register_insert undefined r) =
      \<lparr>sr_connections = sr_connections r @ [(word_of_nat n, undefined)], sr_next_id = word_of_nat (Suc n)\<rparr>"
    using r(3) by (simp add: register_insert_def Let_def add.commute)
  moreover have "word_of_nat ` {0..<Suc n} = insert (word_of_nat n :: u64) (word_of_nat ` {0..<n})"
    by (simp add: atLeast0_lessThan_Suc)
  ultimately show ?case
    using r(2,4) by (intro exI [of _ "snd (register_insert undefined r)"] conjI) simp_all
qed

lemma send_to_subscribers_eq:
  assumes "registry_reach threads k r"
  shows "send_to_subscribers device_id signal_group e r =
     (length (filter (\<lambda>(i, c). receives (subscriber device_id signal_group) c) (sr_connections r)),
      r\<lparr>sr_connections :=
          map (\<lambda>(i, c). (i, if receives (subscriber device_id signal_group) c then deliver e c else c))
            (filter (\<lambda>(i, c). \<not> (subscriber device_id signal_group c \<and> is_dead c)) (sr_connections r))\<rparr>)"
proof -
  have "send_to_subscribers device_id signal_group e r = send_and_clean (subscriber device_id signal_group) e r"
    unfolding send_to_subscribers_def
    by (rule arg_cong [where f = "\<lambda>w. send_and_clean w e r"])
       (auto simp: fun_eq_iff subscriber_def is_subscribed_to_def list_ex_iff)
  with send_and_clean_eq [OF registry_ids_distinct [OF assms], of "subscriber device_id signal_group" e]
  show ?thesis by simp
qed

section \<open>Properties\<close>

text \<open>C23: An update of a signal group is put, after what is there, into the channel of every connection
  of the device that is subscribed to the group, is alive and has room, and into no other; of the
  dead ones exactly the addressed are removed; the result is the number of channels reached.  This
  holds in every registry that clients and worker can reach, where the ids are distinct.\<close>

theorem update_reaches_subscribers:
  assumes "registry_reach threads k r"
  shows "send_to_subscribers device_id signal_group e r =
     (length (filter (\<lambda>(i, c). receives (subscriber device_id signal_group) c) (sr_connections r)),
      r\<lparr>sr_connections :=
          map (\<lambda>(i, c). (i, if receives (subscriber device_id signal_group) c then deliver e c else c))
            (filter (\<lambda>(i, c). \<not> (subscriber device_id signal_group c \<and> is_dead c)) (sr_connections r))\<rparr>)"
  by (rule send_to_subscribers_eq [OF assms])

definition sample_client :: "nat sse_connection" where
  "sample_client = sse_connection_new ''plc'' [''t'', ''p''] 5 create_sse_channel"

theorem update_reaches_subscribers_witness:
  "fst (send_to_subscribers ''plc'' ''p'' Heartbeat
      (snd (register_insert sample_client (sse_registry_new :: nat sse_registry)))) = 1"
proof -
  have "registry_reach 1 0 (snd (register_insert sample_client (sse_registry_new :: nat sse_registry)))"
    by (rule registry_reach.insert, rule registry_reach.test, rule registry_reach.new)
       (simp_all add: register_allowed_def sse_registry_new_def MAX_SSE_CONNECTIONS_def)
  from update_reaches_subscribers [OF this, of "''plc''" "''p''" Heartbeat] show ?thesis
    by (simp add: register_insert_def sse_registry_new_def subscriber_def receives_def is_dead_def has_room_def
        sample_client_def sse_connection_new_def create_sse_channel_def SSE_CHANNEL_CAPACITY_def)
qed

text \<open>With registrations from at most \<open>threads\<close> clients at a time the registry never holds more than
  \<open>99 + threads\<close> connections: the limit of 100 when they are made one after the other.\<close>

theorem registry_bounded:
  assumes "registry_reach threads k r"
  shows "registry_count r \<le> 99 + threads"
  using registry_reach_bound [OF assms] by (simp add: registry_count_def)

theorem registry_bounded_witness:
  "registry_count (snd (register_insert sample_client (sse_registry_new :: nat sse_registry))) \<le> 99 + 1"
proof (rule registry_bounded)
  show "registry_reach 1 0 (snd (register_insert sample_client (sse_registry_new :: nat sse_registry)))"
    by (rule registry_reach.insert, rule registry_reach.test, rule registry_reach.new)
       (simp_all add: register_allowed_def sse_registry_new_def MAX_SSE_CONNECTIONS_def)
qed

text \<open>The limit of 100 connections is not kept when two registrations overlap: a registry of 101
  connections can be reached.\<close>

theorem registry_limit_can_be_exceeded:
  "\<exists>r :: 'n sse_registry. registry_reach 2 0 r \<and> registry_count r = MAX_SSE_CONNECTIONS + 1"
proof -
  obtain r :: "'n sse_registry" where r: "registry_reach 2 0 r" "length (sr_connections r) = 99"
    "sr_next_id r = 99" "fst ` set (sr_connections r) = word_of_nat ` {0..<99}"
    using registry_reach_fill [of 2 99] by auto
  have ids: "(99 :: u64) \<notin> word_of_nat ` {0..<99}" "(100 :: u64) \<notin> word_of_nat ` {0..<99}"
    by (auto dest!: arg_cong [where f = unat] simp: unat_of_nat take_bit_nat_eq_self)
  have "register_allowed r" using r(2) by (simp add: register_allowed_def MAX_SSE_CONNECTIONS_def)
  then have "registry_reach 2 (Suc (Suc 0)) r"
    by (intro registry_reach.test [OF registry_reach.test [OF r(1)]]) simp_all
  then have "registry_reach 2 0 (snd (register_insert undefined (snd (register_insert undefined r))))"
    by (intro registry_reach.insert)
  moreover have "filter (\<lambda>(k, _). k \<noteq> 99) (sr_connections r) = sr_connections r"
    "filter (\<lambda>(k, _). k \<noteq> 100) (sr_connections r) = sr_connections r"
    using ids r(4) by (intro filter_True; force)+
  ultimately show ?thesis
    using r(2,3) by (auto simp: register_insert_def Let_def registry_count_def MAX_SSE_CONNECTIONS_def)
qed

end
