(* ===== verification/Data_Stream.thy ===== *)
theory Data_Stream
  imports Hub_Protection Config
begin

text \<open>
  \<open>src/workers/data_stream_worker.rs\<close>: the worker that polls signal groups at their intervals, keeps
  the results in the data cache and broadcasts them.  Parsing the JSON of a \<open>ConfigUpdate\<close> is the
  parameter \<open>parse_config\<close>; instants are nanoseconds.

  The lemmas describe the grouping of the streams by interval, what a poll leaves in the cache, and
  the timers: no interval is polled before its time is over.
\<close>

section \<open>State\<close>

definition MAX_PENDING_HEARTBEATS :: nat where "MAX_PENDING_HEARTBEATS = 50"
definition MAX_PENDING_RESPONSES :: nat where "MAX_PENDING_RESPONSES = 1000"
definition DEFAULT_POLL_TIMEOUT_MS :: u64 where "DEFAULT_POLL_TIMEOUT_MS = 2000"

type_synonym stream_groups = "u32 \<rightharpoonup> stream_config list"

definition group_stream :: "stream_config \<Rightarrow> stream_groups \<Rightarrow> stream_groups" where
  "group_stream s groups =
     (if sc_enabled s
      then groups(sc_poll_interval_ms s \<mapsto>
             (case groups (sc_poll_interval_ms s) of None \<Rightarrow> [] | Some ss \<Rightarrow> ss) @ [s])
      else groups)"

definition group_streams_by_interval :: "stream_config list \<Rightarrow> stream_groups" where
  "group_streams_by_interval streams = fold group_stream streams Map.empty"

record data_stream_worker =
  dsw_config :: config
  dsw_stream_groups :: stream_groups
  dsw_sequence :: u64

definition data_stream_worker_new :: "config \<Rightarrow> data_stream_worker" where
  "data_stream_worker_new c =
     \<lparr>dsw_config = c, dsw_stream_groups = group_streams_by_interval (cfg_streams c), dsw_sequence = 0\<rparr>"

section \<open>Polling\<close>

text \<open>\<open>format!("{device_id}_{signal_group}")\<close>, the key of the cache.\<close>

definition cache_key :: "string \<Rightarrow> string \<Rightarrow> string" where
  "cache_key device_id signal_group = device_id @ ''_'' @ signal_group"

text \<open>The fields of a successful answer.\<close>

definition polled_values :: "bool \<Rightarrow> 'n json \<Rightarrow> 'n json" where
  "polled_values success data =
     (if success
      then case Option.bind (json_get data ''result'') (\<lambda>r. json_get r ''fields'') of
             None \<Rightarrow> JNull | Some v \<Rightarrow> v
      else JNull)"

definition poll_signal_group ::
  "('n, 'ch, 'w) hub_api \<Rightarrow> string \<Rightarrow> string \<Rightarrow> data_stream_worker \<Rightarrow> 'n data_cache \<Rightarrow> 'w
     \<Rightarrow> (bool \<times> u64 \<times> 'n json) \<times> data_stream_worker \<times> 'n data_cache \<times> 'w" where
  "poll_signal_group hub device_id signal_group dsw cache w =
     (let start = hub_system_now hub w;
          (correlation_id, w1) = hub_next_id hub w;
          (tx, w2) = hub_channel hub w1;
          params = json_object [(''group_name'', JStr signal_group)];
          msg = DeviceControl device_id ReadSignalGroup params correlation_id (Some tx)
      in case hub_send hub msg DEFAULT_HUB_SEND_TIMEOUT w2 of
           (Inl e, w3) \<Rightarrow> ((False, 0, JNull), dsw, cache, w3)
         | (Inr _, w3) \<Rightarrow>
             (case hub_recv hub tx (unat DEFAULT_POLL_TIMEOUT_MS) w3 of
                (Inr (success, data, err), w4) \<Rightarrow>
                  let latency_us = word_of_nat ((hub_system_now hub w4 - start) div 1000);
                      values = polled_values success data;
                      timestamp_ms = word_of_nat (hub_system_now hub w4 div 1000000);
                      entry = data_cache_entry_new values timestamp_ms latency_us (\<not> success);
                      cache' = data_cache_set (cache_key device_id signal_group) entry cache;
                      dsw' = dsw\<lparr>dsw_sequence := dsw_sequence dsw + 1\<rparr>;
                      (sent, w5) = hub_send hub
                        (DataStreamUpdate device_id signal_group values timestamp_ms latency_us (dsw_sequence dsw'))
                        DEFAULT_HUB_SEND_TIMEOUT w4
                  in ((success, latency_us, values), dsw', cache', w5)
              | (Inl Recv_Timeout, w4) \<Rightarrow>
                  let timestamp_ms = word_of_nat (hub_system_now hub w4 div 1000000);
                      entry = data_cache_entry_new JNull timestamp_ms (DEFAULT_POLL_TIMEOUT_MS * 1000) True
                  in ((False, DEFAULT_POLL_TIMEOUT_MS * 1000, JNull), dsw,
                      data_cache_set (cache_key device_id signal_group) entry cache, w4)
              | (Inl Recv_Disconnected, w4) \<Rightarrow> ((False, 0, JNull), dsw, cache, w4)))"

definition update_config :: "(string \<Rightarrow> 'de + config) \<Rightarrow> string \<Rightarrow> data_stream_worker \<Rightarrow> data_stream_worker" where
  "update_config parse_config config_json dsw =
     (case parse_config config_json of
        Inr new_config \<Rightarrow>
          dsw\<lparr>dsw_config := new_config,
              dsw_stream_groups := group_streams_by_interval (cfg_streams new_config)\<rparr>
      | Inl e \<Rightarrow> dsw)"

section \<open>The loop\<close>

type_synonym poll_times = "u32 \<rightharpoonup> nat"

text \<open>\<open>keys\<close> is the order in which the map of groups is iterated.\<close>

definition start_timers :: "nat \<Rightarrow> u32 list \<Rightarrow> poll_times" where
  "start_timers now keys = (\<lambda>iv. if iv \<in> set keys then Some now else None)"

definition interval_due :: "nat \<Rightarrow> poll_times \<Rightarrow> u32 \<Rightarrow> bool" where
  "interval_due now timers iv \<longleftrightarrow>
     unat iv * 1000000 \<le> now - (case timers iv of None \<Rightarrow> now | Some t \<Rightarrow> t)"

definition touch_timers :: "nat \<Rightarrow> u32 list \<Rightarrow> poll_times \<Rightarrow> poll_times" where
  "touch_timers now keys timers =
     (\<lambda>iv. if iv \<in> set keys \<and> timers iv = None then Some now else timers iv)"

definition polls_to_run :: "nat \<Rightarrow> u32 list \<Rightarrow> stream_groups \<Rightarrow> poll_times \<Rightarrow> (u32 \<times> (string \<times> string) list) list" where
  "polls_to_run now keys groups timers =
     map (\<lambda>iv. (iv, map (\<lambda>s. (sc_device_id s, sc_signal_group s))
                  (case groups iv of None \<Rightarrow> [] | Some ss \<Rightarrow> ss)))
       (filter (interval_due now timers) keys)"

fun poll_items ::
  "('n, 'ch, 'w) hub_api \<Rightarrow> (string \<times> string) list \<Rightarrow> data_stream_worker \<Rightarrow> 'n data_cache \<Rightarrow> 'w
     \<Rightarrow> data_stream_worker \<times> 'n data_cache \<times> 'w" where
  "poll_items hub [] dsw cache w = (dsw, cache, w)"
| "poll_items hub ((d, g) # items) dsw cache w =
     (let (r, dsw1, cache1, w1) = poll_signal_group hub d g dsw cache w
      in poll_items hub items dsw1 cache1 w1)"

text \<open>The polls of one round; the time of an interval restarts when its polls are done.\<close>

fun run_polls ::
  "('n, 'ch, 'w) hub_api \<Rightarrow> (u32 \<times> (string \<times> string) list) list \<Rightarrow> poll_times \<Rightarrow> data_stream_worker
     \<Rightarrow> 'n data_cache \<Rightarrow> 'w \<Rightarrow> poll_times \<times> data_stream_worker \<times> 'n data_cache \<times> 'w" where
  "run_polls hub [] timers dsw cache w = (timers, dsw, cache, w)"
| "run_polls hub ((iv, items) # polls) timers dsw cache w =
     (let (dsw1, cache1, w1) = poll_items hub items dsw cache w
      in run_polls hub polls (timers(iv \<mapsto> hub_instant_now hub w1)) dsw1 cache1 w1)"

text \<open>One round of the loop: the message received first, if any, then the polls that are due.\<close>

definition stream_round ::
  "('n, 'ch, 'w) hub_api \<Rightarrow> (string \<Rightarrow> 'de + config) \<Rightarrow> (stream_groups \<Rightarrow> u32 list) \<Rightarrow> string option
     \<Rightarrow> poll_times \<Rightarrow> data_stream_worker \<Rightarrow> 'n data_cache \<Rightarrow> 'w
     \<Rightarrow> poll_times \<times> data_stream_worker \<times> 'n data_cache \<times> 'w" where
  "stream_round hub parse_config keys received timers dsw cache w =
     (let (timers1, dsw1) = (case received of
            Some config_json \<Rightarrow>
              let dsw' = update_config parse_config config_json dsw
              in (start_timers (hub_instant_now hub w) (keys (dsw_stream_groups dsw')), dsw')
          | None \<Rightarrow> (timers, dsw));
          groups = dsw_stream_groups dsw1;
          now = hub_instant_now hub w;
          polls = polls_to_run now (keys groups) groups timers1
      in run_polls hub polls (touch_timers now (keys groups) timers1) dsw1 cache w)"

section \<open>Lemmas\<close>

text \<open>The streams of an interval, in the order of the configuration.\<close>

definition streams_of :: "stream_config list \<Rightarrow> u32 \<Rightarrow> stream_config list" where
  "streams_of streams iv = filter (\<lambda>s. sc_enabled s \<and> sc_poll_interval_ms s = iv) streams"

lemma fold_group_stream:
  "fold group_stream streams groups iv =
     (if streams_of streams iv = [] then groups iv
      else Some ((case groups iv of None \<Rightarrow> [] | Some ss \<Rightarrow> ss) @ streams_of streams iv))"
  by (induction streams arbitrary: groups) (auto simp: group_stream_def streams_of_def split: option.split)

text \<open>What a poll does, by the fate of its request.\<close>

lemma poll_answered:
  assumes "hub_next_id hub w = (cid, w1)" and "hub_channel hub w1 = (tx, w2)"
    and "hub_send hub (DeviceControl d ReadSignalGroup (json_object [(''group_name'', JStr g)]) cid (Some tx))
      DEFAULT_HUB_SEND_TIMEOUT w2 = (Inr (), w3)"
    and "hub_recv hub tx (unat DEFAULT_POLL_TIMEOUT_MS) w3 = (Inr (success, data, err), w4)"
  shows "\<exists>lat. poll_signal_group hub d g dsw cache w =
     ((success, lat, polled_values success data), dsw\<lparr>dsw_sequence := dsw_sequence dsw + 1\<rparr>,
      data_cache_set (cache_key d g)
        (data_cache_entry_new (polled_values success data)
          (word_of_nat (hub_system_now hub w4 div 1000000)) lat (\<not> success)) cache,
      snd (hub_send hub (DataStreamUpdate d g (polled_values success data)
        (word_of_nat (hub_system_now hub w4 div 1000000)) lat (dsw_sequence dsw + 1)) DEFAULT_HUB_SEND_TIMEOUT w4))"
  using assms by (simp add: poll_signal_group_def split_beta Let_def)

lemma poll_cache_frame:
  assumes "poll_signal_group hub d g dsw cache w = (r, dsw', cache', w')" and "key \<noteq> cache_key d g"
  shows "data_cache_get cache' key = data_cache_get cache key"
  using assms
  by (auto simp: poll_signal_group_def split_beta Let_def data_cache.lookup_update
      split: sum.splits recv_error.splits prod.splits)

lemma run_polls_times:
  assumes "run_polls hub polls timers dsw cache w = (timers', dsw', cache', w')" and "iv \<notin> fst ` set polls"
  shows "timers' iv = timers iv"
  using assms
  by (induction polls arbitrary: timers dsw cache w) (auto simp: split_beta Let_def split: prod.splits)

text \<open>A key tells device and group apart when the ids of the devices hold no underscore.\<close>

lemma cache_key_inj:
  assumes "cache_key d g = cache_key d' g'" and "CHR ''_'' \<notin> set d" and "CHR ''_'' \<notin> set d'"
  shows "d = d' \<and> g = g'"
proof -
  have "takeWhile (\<lambda>c. c \<noteq> CHR ''_'') (cache_key x y) = x" if "CHR ''_'' \<notin> set x" for x y
    using that by (induction x) (auto simp: cache_key_def)
  with assms have "d = d'" by metis
  with assms(1) show ?thesis by (simp add: cache_key_def)
qed

text \<open>The monotonic clock never goes back, whatever the hub and the channels do.\<close>

definition monotonic_clock :: "('n, 'ch, 'w) hub_api \<Rightarrow> bool" where
  "monotonic_clock hub \<longleftrightarrow>
     (\<forall>w. hub_instant_now hub w \<le> hub_instant_now hub (snd (hub_channel hub w))) \<and>
     (\<forall>msg t w. hub_instant_now hub w \<le> hub_instant_now hub (snd (hub_send hub msg t w))) \<and>
     (\<forall>ch t w. hub_instant_now hub w \<le> hub_instant_now hub (snd (hub_recv hub ch t w))) \<and>
     (\<forall>w. hub_instant_now hub w \<le> hub_instant_now hub (snd (hub_next_id hub w)))"

lemma monotonic_clockD:
  assumes "monotonic_clock hub"
  shows "hub_channel hub w = (ch, w') \<Longrightarrow> hub_instant_now hub w \<le> hub_instant_now hub w'"
    and "hub_send hub msg t w = (r, w') \<Longrightarrow> hub_instant_now hub w \<le> hub_instant_now hub w'"
    and "hub_recv hub ch t w = (q, w') \<Longrightarrow> hub_instant_now hub w \<le> hub_instant_now hub w'"
    and "hub_next_id hub w = (i, w') \<Longrightarrow> hub_instant_now hub w \<le> hub_instant_now hub w'"
  using assms unfolding monotonic_clock_def by (metis snd_conv)+

lemma poll_clock:
  assumes hub: "monotonic_clock hub" and p: "poll_signal_group hub d g dsw cache w = (r, dsw', cache', w')"
  shows "hub_instant_now hub w \<le> hub_instant_now hub w'"
proof -
  obtain cid w1 where 1: "hub_next_id hub w = (cid, w1)" by (cases "hub_next_id hub w")
  obtain tx w2 where 2: "hub_channel hub w1 = (tx, w2)" by (cases "hub_channel hub w1")
  obtain q w3 where 3: "hub_send hub (DeviceControl d ReadSignalGroup (json_object [(''group_name'', JStr g)]) cid
      (Some tx)) DEFAULT_HUB_SEND_TIMEOUT w2 = (q, w3)"
    by fastforce
  obtain a w4 where 4: "hub_recv hub tx (unat DEFAULT_POLL_TIMEOUT_MS) w3 = (a, w4)" by fastforce
  note m = monotonic_clockD [OF hub]
  have le: "hub_instant_now hub w \<le> hub_instant_now hub w3" "hub_instant_now hub w3 \<le> hub_instant_now hub w4"
    using m(4) [OF 1] m(1) [OF 2] m(2) [OF 3] m(3) [OF 4] by linarith+
  have "w' = w3 \<or> w' = w4 \<or> (\<exists>msg t. w' = snd (hub_send hub msg t w4))"
    using p 1 2 3 4
    by (auto simp: poll_signal_group_def Let_def split_beta split: sum.splits recv_error.splits)
  moreover have "hub_instant_now hub w4 \<le> hub_instant_now hub (snd (hub_send hub msg t w4))" for msg t
    using m(2) [of msg t w4] by (metis prod.collapse)
  ultimately show ?thesis using le by (metis le_trans)
qed

lemma poll_items_clock:
  assumes "monotonic_clock hub" and "poll_items hub items dsw cache w = (dsw', cache', w')"
  shows "hub_instant_now hub w \<le> hub_instant_now hub w'"
  using assms(2)
proof (induction items arbitrary: dsw cache w)
  case (Cons dg items)
  obtain d g where dg: "dg = (d, g)" by (cases dg)
  obtain r dsw1 cache1 w1 where p: "poll_signal_group hub d g dsw cache w = (r, dsw1, cache1, w1)"
    by (cases "poll_signal_group hub d g dsw cache w")
  with Cons.prems dg have "poll_items hub items dsw1 cache1 w1 = (dsw', cache', w')" by simp
  from Cons.IH [OF this] poll_clock [OF assms(1) p] show ?case by simp
qed simp

lemma run_polls_timers:
  assumes "monotonic_clock hub" and "run_polls hub polls timers dsw cache w = (timers', dsw', cache', w')"
    and "iv \<in> fst ` set polls"
  shows "\<exists>t. timers' iv = Some t \<and> hub_instant_now hub w \<le> t"
  using assms(2,3)
proof (induction polls arbitrary: timers dsw cache w)
  case (Cons p polls)
  obtain iv0 items where p: "p = (iv0, items)" by (cases p)
  obtain dsw1 cache1 w1 where i: "poll_items hub items dsw cache w = (dsw1, cache1, w1)"
    by (cases "poll_items hub items dsw cache w")
  let ?t1 = "timers(iv0 \<mapsto> hub_instant_now hub w1)"
  from Cons.prems p i have r: "run_polls hub polls ?t1 dsw1 cache1 w1 = (timers', dsw', cache', w')" by simp
  have le: "hub_instant_now hub w \<le> hub_instant_now hub w1" by (rule poll_items_clock [OF assms(1) i])
  show ?case
  proof (cases "iv \<in> fst ` set polls")
    case True
    from Cons.IH [OF r this] le show ?thesis by (meson le_trans)
  next
    case False
    with run_polls_times [OF r False] Cons.prems(2) p le show ?thesis by auto
  qed
qed simp

section \<open>Properties\<close>

text \<open>The groups are exactly the enabled streams of the configuration by interval, each interval's in
  the order of the configuration, and no interval without a stream has a group.\<close>

theorem stream_groups_exact:
  "group_streams_by_interval streams iv =
     (if streams_of streams iv = [] then None else Some (streams_of streams iv))"
  by (simp add: group_streams_by_interval_def fold_group_stream)

text \<open>A poll of a signal group changes no cached data but that of its group, whatever the hub and the
  device do, provided that the ids of the two devices hold no underscore.\<close>

theorem poll_touches_only_its_group:
  assumes "poll_signal_group hub d g dsw cache w = (r, dsw', cache', w')"
    and "(d', g') \<noteq> (d, g)" and "CHR ''_'' \<notin> set d" and "CHR ''_'' \<notin> set d'"
  shows "data_cache_get cache' (cache_key d' g') = data_cache_get cache (cache_key d' g')"
  using poll_cache_frame [OF assms(1), of "cache_key d' g'"] cache_key_inj [of d' g' d g] assms(2-4) by auto

text \<open>In a round of the loop an interval is polled only when at least its length has passed since its
  timer started, and the timer then restarts at a time after the polls; the timer of every other
  interval keeps its start.  So two polls of an interval are never closer than its length.\<close>

theorem intervals_respected:
  assumes hub: "monotonic_clock hub"
    and r: "stream_round hub parse_config keys None timers dsw cache w = (timers', dsw', cache', w')"
    and iv: "iv \<in> set (keys (dsw_stream_groups dsw))"
  defines "now \<equiv> hub_instant_now hub w"
  shows "(if interval_due now timers iv
      then (\<forall>t. timers iv = Some t \<longrightarrow> unat iv * 1000000 \<le> now - t) \<and> (\<exists>t. timers' iv = Some t \<and> now \<le> t)
      else timers' iv = Some (case timers iv of None \<Rightarrow> now | Some t \<Rightarrow> t))"
proof -
  let ?keys = "keys (dsw_stream_groups dsw)"
  define polls where "polls = polls_to_run now ?keys (dsw_stream_groups dsw) timers"
  have run: "run_polls hub polls (touch_timers now ?keys timers) dsw cache w = (timers', dsw', cache', w')"
    using r by (simp add: stream_round_def polls_def now_def Let_def)
  have polled: "iv \<in> fst ` set polls \<longleftrightarrow> interval_due now timers iv"
    using iv by (auto simp: polls_def polls_to_run_def image_image)
  show ?thesis
  proof (cases "interval_due now timers iv")
    case True
    have "unat iv * 1000000 \<le> now - t" if "timers iv = Some t" for t
      using True that by (simp add: interval_due_def)
    moreover have "\<exists>t. timers' iv = Some t \<and> now \<le> t"
      using run_polls_timers [OF hub run] polled True by (simp add: now_def)
    ultimately show ?thesis using True by simp
  next
    case False
    with run_polls_times [OF run, of iv] polled iv show ?thesis
      by (simp add: touch_timers_def split: option.split)
  qed
qed

text \<open>A hub that answers every request for a group with one field, and takes a millisecond for it.\<close>

definition sample_hub :: "(nat, unit, nat) hub_api" where
  "sample_hub =
     \<lparr>hub_channel = (\<lambda>w. ((), w)), hub_send = (\<lambda>msg t w. (Inr (), w)),
      hub_recv = (\<lambda>ch t w.
        (Inr (True, JObj [(''result'', JObj [(''fields'', JArr [JNum 7])])], None), w + 1000000)),
      hub_next_id = (\<lambda>w. (1, w)), hub_system_now = (\<lambda>w. w), hub_instant_now = (\<lambda>w. w)\<rparr>"

lemma monotonic_sample_hub: "monotonic_clock sample_hub"
  by (simp add: monotonic_clock_def sample_hub_def)

definition sample_stream :: stream_config where
  "sample_stream = \<lparr>sc_device_id = ''plc'', sc_signal_group = ''t'', sc_poll_interval_ms = 100, sc_enabled = True,
     sc_priority = 0\<rparr>"

definition sample_stream_worker :: data_stream_worker where
  "sample_stream_worker = data_stream_worker_new (config_default\<lparr>cfg_streams := [sample_stream]\<rparr>)"

theorem poll_touches_only_its_group_witness:
  "data_cache_get (fst (snd (snd (poll_signal_group sample_hub ''plc'' ''t'' sample_stream_worker
      (data_cache_set ''plc_u'' (data_cache_entry_new JNull 1 2 False) data_cache_new) 0)))) ''plc_u'' \<noteq> None"
proof -
  let ?c = "data_cache_set ''plc_u'' (data_cache_entry_new JNull 1 2 False) data_cache_new :: nat data_cache"
  obtain r dsw' c' w' where p: "poll_signal_group sample_hub ''plc'' ''t'' sample_stream_worker ?c 0 = (r, dsw', c', w')"
    by (cases "poll_signal_group sample_hub ''plc'' ''t'' sample_stream_worker ?c 0")
  from poll_touches_only_its_group [OF p, of "''plc''" "''u''"]
  have "data_cache_get c' (cache_key ''plc'' ''u'') = data_cache_get ?c (cache_key ''plc'' ''u'')" by simp
  with p show ?thesis by (simp add: cache_key_def data_cache.lookup_update)
qed

theorem intervals_respected_witness:
  "\<exists>t. fst (stream_round sample_hub (\<lambda>_. Inl ()) (\<lambda>_. [100]) None [100 \<mapsto> 5] sample_stream_worker data_cache_new
      (200 * 1000000)) 100 = Some t \<and> 200 * 1000000 \<le> t"
proof -
  obtain timers' dsw' c' w' where r: "stream_round sample_hub (\<lambda>_. Inl ()) (\<lambda>_. [100]) None [100 \<mapsto> 5]
      sample_stream_worker data_cache_new (200 * 1000000) = (timers', dsw', c', w')"
    by (cases "stream_round sample_hub (\<lambda>_. Inl ()) (\<lambda>_. [100]) None [100 \<mapsto> 5] sample_stream_worker
      data_cache_new (200 * 1000000)")
  from intervals_respected [OF monotonic_sample_hub r, of 100] r show ?thesis
    by (simp add: interval_due_def sample_hub_def)
qed

end
