(* ===== verification/Http.thy ===== *)
theory Http
  imports Sse Data_Stream Device_States
begin

text \<open>
  \<open>src/workers/http_worker.rs\<close>: the handlers of the HTTP interface, as functions of the shared state
  and the clocks to a status and a JSON body.  Routing, CORS, the server and its runtime belong to
  \<open>actix\<close>.  The table of device states (a \<open>DashMap\<close>) is the association list in the order it
  iterates; \<open>now\<close> is \<open>Instant::now()\<close> in nanoseconds, \<open>now_ms\<close> \<open>SystemTime::now()\<close> in milliseconds
  since the epoch.
\<close>

section \<open>Responses\<close>

record 'n http_response =
  http_status :: nat
  http_body :: "'n json"

abbreviation http_ok :: "'n json \<Rightarrow> 'n http_response" where
  "http_ok b \<equiv> \<lparr>http_status = 200, http_body = b\<rparr>"

section \<open>Devices\<close>

text \<open>\<open>last_communication.elapsed().as_millis() as u64\<close>\<close>

definition elapsed_ms :: "nat \<Rightarrow> device_status \<Rightarrow> u64" where
  "elapsed_ms now st = word_of_nat ((now - ds_last_communication st) div 1000000)"

definition get_devices :: "'n number_api \<Rightarrow> nat \<Rightarrow> device_states \<Rightarrow> 'n http_response" where
  "get_devices api now states =
     http_ok (json_object [(''devices'', JArr (map (\<lambda>(i, st). json_object
       [(''id'', JStr i), (''connected'', JBool (ds_connected st)),
        (''last_communication_ms'', json_u64 api (elapsed_ms now st)),
        (''error_count'', json_u64 api (ucast (ds_error_count st)))]) states))])"

definition get_device_by_id :: "'n number_api \<Rightarrow> nat \<Rightarrow> string \<Rightarrow> device_states \<Rightarrow> 'n http_response" where
  "get_device_by_id api now device_id states =
     (case map_of states device_id of
        Some st \<Rightarrow> http_ok (json_object
          [(''id'', JStr device_id), (''connected'', JBool (ds_connected st)),
           (''last_communication_ms'', json_u64 api (elapsed_ms now st)),
           (''error_count'', json_u64 api (ucast (ds_error_count st))),
           (''reconnect_count'', json_u64 api (ucast (ds_reconnect_count st)))])
      | None \<Rightarrow> \<lparr>http_status = 404, http_body = json_object [(''error'', JStr ''Device not found'')]\<rparr>)"

definition health_status :: "nat \<Rightarrow> nat \<Rightarrow> string" where
  "health_status n connected =
     (if n = 0 then ''unhealthy''
      else if connected = n then ''healthy''
      else if connected = 0 then ''unhealthy''
      else ''degraded'')"

definition get_health :: "'n number_api \<Rightarrow> device_states \<Rightarrow> 'n http_response" where
  "get_health api states =
     (let n = length states;
          connected = length (filter (\<lambda>(i, st). ds_connected st) states);
          disconnected = n - connected
      in http_ok (json_object
           [(''status'', JStr (health_status n connected)),
            (''devices'', json_object
               [(''total'', json_u64 api (word_of_nat n)),
                (''connected'', json_u64 api (word_of_nat connected)),
                (''disconnected'', json_u64 api (word_of_nat disconnected))])]))"

definition get_config :: "(config \<Rightarrow> 'n json) \<Rightarrow> config \<Rightarrow> 'n http_response" where
  "get_config to_json c = http_ok (json_object [(''config'', to_json c)])"

definition reload_config_endpoint :: "'n http_response" where
  "reload_config_endpoint = http_ok (json_object [(''reload'', JStr ''ok'')])"

section \<open>Cached data\<close>

definition CACHE_TTL_MS :: u64 where "CACHE_TTL_MS = 50"

definition cached_body ::
  "'n number_api \<Rightarrow> string \<Rightarrow> string \<Rightarrow> 'n data_cache_entry \<Rightarrow> u64 \<Rightarrow> 'n json" where
  "cached_body api device_id signal_group e now_ms =
     (let cache_age_ms = saturating_sub now_ms (ce_timestamp_ms e);
          fresh = (cache_age_ms < CACHE_TTL_MS)
      in json_object
           [(''device_id'', JStr device_id), (''signal_group'', JStr signal_group),
            (''values'', ce_values e), (''timestamp_ms'', json_u64 api (ce_timestamp_ms e)),
            (''cache_age_ms'', json_u64 api cache_age_ms), (''fresh'', JBool fresh)])"

definition get_cached_data ::
  "'n number_api \<Rightarrow> u64 \<Rightarrow> string \<Rightarrow> string \<Rightarrow> 'n data_cache \<Rightarrow> 'n http_response" where
  "get_cached_data api now_ms device_id signal_group cache =
     (case data_cache_get cache (cache_key device_id signal_group) of
        Some e \<Rightarrow> http_ok (cached_body api device_id signal_group e now_ms)
      | None \<Rightarrow>
          \<lparr>http_status = 404, http_body = json_object
             [(''error'', JStr (''Cache miss: no data found for device '' @ [CHR 0x27] @ device_id @ [CHR 0x27]
                 @ '' and signal group '' @ [CHR 0x27] @ signal_group @ [CHR 0x27])),
              (''device_id'', JStr device_id), (''signal_group'', JStr signal_group)]\<rparr>)"

section \<open>The event stream\<close>

record sse_query =
  sq_device :: string
  sq_groups :: string

text \<open>\<open>str::split(',')\<close>, which gives at least one piece.\<close>

fun split_comma :: "string \<Rightarrow> string list" where
  "split_comma [] = [[]]"
| "split_comma (c # cs) =
     (let pieces = split_comma cs in
      if c = CHR '','' then [] # pieces else (c # hd pieces) # tl pieces)"

definition query_groups :: "sse_query \<Rightarrow> string list" where
  "query_groups q = filter (\<lambda>s. s \<noteq> []) (map trim (split_comma (sq_groups q)))"

definition sse_stream ::
  "nat \<Rightarrow> sse_query \<Rightarrow> 'n sse_registry \<Rightarrow> ('n http_response + sse_connection_id) \<times> 'n sse_registry" where
  "sse_stream now_ms q r =
     (let signal_groups = query_groups q in
      if signal_groups = []
      then (Inl \<lparr>http_status = 400, http_body = json_object [(''error'', JStr ''No signal groups specified'')]\<rparr>, r)
      else let conn = sse_connection_new (sq_device q) signal_groups (word_of_nat now_ms) create_sse_channel in
        (case register conn r of
           (Inl e, r') \<Rightarrow> (Inl \<lparr>http_status = 503, http_body = json_object [(''error'', JStr e)]\<rparr>, r')
         | (Inr i, r') \<Rightarrow> (Inr i, r')))"

text \<open>The events of the stream, as \<open>actix_sse\<close> is given them; \<open>to_string\<close> is the serializer.\<close>

datatype http_event = Sse_Data string | Sse_Comment string

fun sse_event :: "('n json \<Rightarrow> string) \<Rightarrow> 'n sse_event_data \<Rightarrow> http_event" where
  "sse_event to_string (JsonData d) = Sse_Data (to_string d)"
| "sse_event to_string Heartbeat = Sse_Comment ''heartbeat''"

section \<open>Lemmas\<close>

text \<open>A JSON implementation whose numbers are natural numbers, used by the witnesses.\<close>

definition counting_api :: "nat number_api" where
  "counting_api =
     \<lparr>num_as_f64 = (\<lambda>n. Some (f64_of_int (int n))), num_as_u64 = (\<lambda>n. Some (word_of_nat n)),
      num_from_u64 = unat, num_from_f64 = (\<lambda>x. None)\<rparr>"

lemma length_split_comma: "split_comma s \<noteq> []"
  by (induction s) (auto simp: Let_def)

lemma length_filter_all: "length (filter P xs) = length xs \<longleftrightarrow> (\<forall>x \<in> set xs. P x)"
proof (induction xs)
  case (Cons x xs)
  have "length (filter P xs) \<noteq> Suc (length xs)" using length_filter_le [of P xs] by linarith
  with Cons show ?case by simp
qed simp

lemma json_get_status: "json_get (http_body (get_health api states)) ''status'' =
   Some (JStr (health_status (length states) (length (filter (\<lambda>(i, st). ds_connected st) states))))"
  by (simp add: get_health_def Let_def json_get_json_object)

text \<open>What the cache endpoint makes of a poll that was answered.\<close>

lemma poll_then_cached:
  assumes "hub_next_id hub w = (cid, w1)" and "hub_channel hub w1 = (tx, w2)"
    and "hub_send hub (DeviceControl d ReadSignalGroup (json_object [(''group_name'', JStr g)]) cid (Some tx))
      DEFAULT_HUB_SEND_TIMEOUT w2 = (Inr (), w3)"
    and "hub_recv hub tx (unat DEFAULT_POLL_TIMEOUT_MS) w3 = (Inr (success, data, err), w4)"
    and "poll_signal_group hub d g dsw cache w = (r, dsw', cache', w')"
  shows "let response = get_cached_data api now_ms d g cache' in
     http_status response = 200 \<and>
     json_get (http_body response) ''values'' = Some (polled_values success data) \<and>
     json_get (http_body response) ''fresh'' =
       Some (JBool (saturating_sub now_ms (word_of_nat (hub_system_now hub w4 div 1000000)) < 50))"
proof -
  obtain lat where "data_cache_get cache' (cache_key d g) = Some (data_cache_entry_new (polled_values success data)
      (word_of_nat (hub_system_now hub w4 div 1000000)) lat (\<not> success))"
    using poll_answered [OF assms(1-4), of dsw cache] assms(5) by (auto simp: data_cache.lookup_update)
  then show ?thesis
    by (simp add: get_cached_data_def cached_body_def data_cache_entry_new_def Let_def
        json_get_json_object CACHE_TTL_MS_def)
qed

section \<open>Properties\<close>

text \<open>The health endpoint says healthy exactly when there is a device and all are connected, unhealthy
  exactly when none is connected, and degraded exactly when some are and some are not.\<close>

theorem health_is_exact:
  "json_get (http_body (get_health api states)) ''status'' =
     Some (JStr (if list_all (\<lambda>(i, st). \<not> ds_connected st) states then ''unhealthy''
                 else if list_all (\<lambda>(i, st). ds_connected st) states then ''healthy'' else ''degraded''))"
proof -
  let ?c = "filter (\<lambda>(i, st). ds_connected st) states"
  have "length ?c = 0 \<longleftrightarrow> list_all (\<lambda>(i, st). \<not> ds_connected st) states"
    by (induction states) auto
  moreover have "length ?c = length states \<longleftrightarrow> list_all (\<lambda>(i, st). ds_connected st) states"
    using length_filter_all [of "\<lambda>(i, st). ds_connected st" states] by (auto simp: list_all_iff)
  ultimately show ?thesis
    unfolding json_get_status health_status_def by auto
qed

text \<open>After a poll that was answered, the cache endpoint serves the polled fields of the group with
  status 200, as fresh exactly while they are less than 50 ms old, whether the device read them or
  reported an error (the fields are then null).\<close>

theorem polled_values_served:
  assumes "hub_next_id hub w = (cid, w1)" and "hub_channel hub w1 = (tx, w2)"
    and "hub_send hub (DeviceControl d ReadSignalGroup (json_object [(''group_name'', JStr g)]) cid (Some tx))
      DEFAULT_HUB_SEND_TIMEOUT w2 = (Inr (), w3)"
    and "hub_recv hub tx (unat DEFAULT_POLL_TIMEOUT_MS) w3 = (Inr (success, data, err), w4)"
    and "poll_signal_group hub d g dsw cache w = (r, dsw', cache', w')"
  shows "let response = get_cached_data api now_ms d g cache' in
     http_status response = 200 \<and>
     json_get (http_body response) ''values'' = Some (polled_values success data) \<and>
     json_get (http_body response) ''fresh'' =
       Some (JBool (saturating_sub now_ms (word_of_nat (hub_system_now hub w4 div 1000000)) < 50))"
  using assms by (rule poll_then_cached)

theorem polled_values_served_witness:
  "json_get (http_body (get_cached_data counting_api 30 ''plc'' ''t''
      (fst (snd (snd (poll_signal_group sample_hub ''plc'' ''t'' sample_stream_worker data_cache_new 0)))))) ''values''
    = Some (JArr [JNum 7])"
proof -
  let ?c = "data_cache_new :: nat data_cache"
  obtain r dsw' c' w' where p: "poll_signal_group sample_hub ''plc'' ''t'' sample_stream_worker ?c 0 = (r, dsw', c', w')"
    by (cases "poll_signal_group sample_hub ''plc'' ''t'' sample_stream_worker ?c 0")
  have n: "hub_next_id sample_hub 0 = (1, 0)" and c: "hub_channel sample_hub 0 = ((), 0)"
    and s: "hub_send sample_hub (DeviceControl ''plc'' ReadSignalGroup (json_object [(''group_name'', JStr ''t'')])
      1 (Some ())) DEFAULT_HUB_SEND_TIMEOUT 0 = (Inr (), 0)"
    and a: "hub_recv sample_hub () (unat DEFAULT_POLL_TIMEOUT_MS) 0 =
      (Inr (True, JObj [(''result'', JObj [(''fields'', JArr [JNum 7])])], None), 0 + 1000000)"
    by (simp_all add: sample_hub_def)
  from polled_values_served [OF n c s a p, of counting_api 30] p show ?thesis
    by (simp add: Let_def polled_values_def)
qed

text \<open>A client that opens an event stream for a device is registered for each group it names, blanks
  around the names aside, and the next update of any of them reaches its channel.\<close>

theorem stream_client_gets_update:
  assumes "registry_reach threads k r" and "k < threads"
    and "sse_stream now_ms q r = (Inr i, r')" and "g \<in> set (query_groups q)"
  shows "\<exists>conn. map_of (sr_connections (snd (send_to_subscribers (sq_device q) g e r'))) i = Some conn \<and>
     ch_buffer (sse_sender conn) = [e]"
proof -
  let ?conn = "sse_connection_new (sq_device q) (query_groups q) (word_of_nat now_ms) create_sse_channel :: 'a sse_connection"
  have allowed: "register_allowed r" and r': "(i, r') = register_insert ?conn r"
    using assms(3,4) by (auto simp: sse_stream_def register_def Let_def split: if_splits prod.splits)
  have "registry_reach threads k (snd (register_insert ?conn r))"
    by (rule registry_reach.insert, rule registry_reach.test [OF assms(1) allowed assms(2)])
  then have reach: "registry_reach threads k r'" using r' by (metis snd_conv)
  have "(i, ?conn) \<in> set (sr_connections r')" using r' by (auto simp: register_insert_def Let_def)
  moreover have "receives (subscriber (sq_device q) g) ?conn"
    using assms(4) by (simp add: receives_def subscriber_def is_dead_def has_room_def sse_connection_new_def
        create_sse_channel_def SSE_CHANNEL_CAPACITY_def)
  ultimately have "(i, deliver e ?conn) \<in> set (sr_connections (snd (send_to_subscribers (sq_device q) g e r')))"
    unfolding send_to_subscribers_eq [OF reach] by (force simp: receives_def)
  moreover have "distinct (map fst (sr_connections (snd (send_to_subscribers (sq_device q) g e r'))))"
    using registry_ids_distinct [OF registry_reach.route [OF reach]] by (simp add: send_to_subscribers_def)
  ultimately show ?thesis
    by (auto simp: deliver_def sse_connection_new_def create_sse_channel_def dest: map_of_is_SomeI)
qed

theorem stream_client_gets_update_witness:
  "\<exists>i r'. sse_stream 5 \<lparr>sq_device = ''plc'', sq_groups = ''a, b''\<rparr> (sse_registry_new :: nat sse_registry) = (Inr i, r') \<and>
     (\<exists>conn. map_of (sr_connections (snd (send_to_subscribers ''plc'' ''b'' Heartbeat r'))) i = Some conn \<and>
        ch_buffer (sse_sender conn) = [Heartbeat])"
proof -
  let ?q = "\<lparr>sq_device = ''plc'', sq_groups = ''a, b''\<rparr>"
  have g: "query_groups ?q = [''a'', ''b'']" by code_simp
  obtain i r' where s: "sse_stream 5 ?q (sse_registry_new :: nat sse_registry) = (Inr i, r')"
    by (cases "register (sse_connection_new ''plc'' [''a'', ''b''] (word_of_nat 5) create_sse_channel)
        (sse_registry_new :: nat sse_registry)")
      (auto simp: sse_stream_def g register_def register_allowed_def sse_registry_new_def
        MAX_SSE_CONNECTIONS_def Let_def split: prod.splits)
  have "registry_reach 1 0 (sse_registry_new :: nat sse_registry)" by (rule registry_reach.new)
  from stream_client_gets_update [OF this _ s, of "''b''" Heartbeat] s g show ?thesis by simp
qed

end
