(* ===== verification/Http_Server.thy ===== *)
theory Http_Server
  imports Http
begin

text \<open>
  The server around the handlers of \<open>src/workers/http_worker.rs\<close>: the state they share, the routes, a
  request from its path to its handler, and the worker with the thread of the server.  \<open>actix\<close> splits a
  path into its segments and answers what no route matches; the runtime, the socket and the running
  of the server are parameters.

  The lemmas show that requests only read, apart from the registration of an event stream, and that
  the configuration that is served is the one of the start.
\<close>

section \<open>Routes\<close>

record 'n app_state =
  as_device_states :: device_states
  as_config :: config
  as_data_cache :: "'n data_cache"
  as_sse_registry :: "'n sse_registry"

text \<open>\<open>Variables\<close> of \<open>src/lib.rs\<close>, which all workers share.  The two rings are of the framework:
  \<open>bounded\<close> makes an empty one of a capacity.\<close>

record ('n, 'r, 'e) variables =
  va_device_states :: device_states
  va_modbus_transactions :: 'r
  va_device_events :: 'e
  va_data_cache :: "'n data_cache"
  va_sse_registry :: "'n sse_registry"

definition variables_default :: "(nat \<Rightarrow> 'r) \<Rightarrow> (nat \<Rightarrow> 'e) \<Rightarrow> ('n, 'r, 'e) variables" where
  "variables_default bounded_log bounded_events =
     \<lparr>va_device_states = [], va_modbus_transactions = bounded_log 500, va_device_events = bounded_events 500,
      va_data_cache = data_cache_new, va_sse_registry = sse_registry_new\<rparr>"

text \<open>The state of the handlers: the shared variables, and the configuration the worker was made with.\<close>

definition http_app_state :: "config \<Rightarrow> ('n, 'r, 'e) variables \<Rightarrow> 'n app_state" where
  "http_app_state c vars =
     \<lparr>as_device_states = va_device_states vars, as_config = c, as_data_cache = va_data_cache vars,
      as_sse_registry = va_sse_registry vars\<rparr>"

datatype http_method = GET | POST

datatype route =
    GetDevices | GetDeviceById string | GetHealth | GetConfig | ReloadConfig
  | GetCachedData string string | SseStream

definition configure_routes :: "http_method \<Rightarrow> string list \<Rightarrow> route option" where
  "configure_routes method path =
     (case path of
        scope # rest \<Rightarrow>
          if scope \<noteq> ''api'' then None
          else if method = GET \<and> rest = [''devices''] then Some GetDevices
          else if method = GET \<and> length rest = 3 \<and> rest ! 0 = ''devices'' \<and> rest ! 2 = ''status''
          then Some (GetDeviceById (rest ! 1))
          else if method = GET \<and> rest = [''health''] then Some GetHealth
          else if method = GET \<and> rest = [''config''] then Some GetConfig
          else if method = POST \<and> rest = [''config'', ''reload''] then Some ReloadConfig
          else if method = GET \<and> length rest = 3 \<and> rest ! 0 = ''cache''
          then Some (GetCachedData (rest ! 1) (rest ! 2))
          else if method = GET \<and> rest = [''stream''] then Some SseStream
          else None
      | [] \<Rightarrow> None)"

section \<open>Requests\<close>

text \<open>An answer is a response or an event stream with its connection.  \<open>now\<close> and \<open>now_ms\<close> are the clocks.\<close>

definition handle_route ::
  "'n number_api \<Rightarrow> (config \<Rightarrow> 'n json) \<Rightarrow> nat \<Rightarrow> nat \<Rightarrow> sse_query \<Rightarrow> route \<Rightarrow> 'n app_state
     \<Rightarrow> ('n http_response + sse_connection_id) \<times> 'n app_state" where
  "handle_route api to_json now now_ms query r st =
     (case r of
        GetDevices \<Rightarrow> (Inl (get_devices api now (as_device_states st)), st)
      | GetDeviceById i \<Rightarrow> (Inl (get_device_by_id api now i (as_device_states st)), st)
      | GetHealth \<Rightarrow> (Inl (get_health api (as_device_states st)), st)
      | GetConfig \<Rightarrow> (Inl (get_config to_json (as_config st)), st)
      | ReloadConfig \<Rightarrow> (Inl reload_config_endpoint, st)
      | GetCachedData d g \<Rightarrow> (Inl (get_cached_data api (word_of_nat now_ms) d g (as_data_cache st)), st)
      | SseStream \<Rightarrow>
          (let (answer, registry) = sse_stream now_ms query (as_sse_registry st)
           in (answer, st\<lparr>as_sse_registry := registry\<rparr>)))"

definition http_request ::
  "'n number_api \<Rightarrow> (config \<Rightarrow> 'n json) \<Rightarrow> nat \<Rightarrow> nat \<Rightarrow> http_method \<Rightarrow> string list \<Rightarrow> sse_query \<Rightarrow> 'n app_state
     \<Rightarrow> ('n http_response + sse_connection_id) option \<times> 'n app_state" where
  "http_request api to_json now now_ms method path query st =
     (case configure_routes method path of
        None \<Rightarrow> (None, st)
      | Some r \<Rightarrow> (let (answer, st') = handle_route api to_json now now_ms query r st in (Some answer, st')))"

section \<open>The worker\<close>

text \<open>The thread: every failure is an \<open>expect\<close>.\<close>

definition http_thread :: "'be + 'rt \<Rightarrow> (string \<Rightarrow> 'se + 'srv) \<Rightarrow> ('srv \<Rightarrow> 'se + unit) \<Rightarrow> config \<Rightarrow> unit outcome" where
  "http_thread build bind_addr run_server c =
     (case build of
        Inl e \<Rightarrow> Panic
      | Inr rt \<Rightarrow>
          (case bind_addr (''0.0.0.0:'' @ show_nat (unat (http_port (cfg_server c)))) of
             Inl e \<Rightarrow> Panic
           | Inr server \<Rightarrow> (case run_server server of Inl e \<Rightarrow> Panic | Inr _ \<Rightarrow> Ret ())))"

text \<open>\<open>run\<close>: whether the thread ended without a panic is only logged.\<close>

definition http_worker_run ::
  "'be + 'rt \<Rightarrow> (string \<Rightarrow> 'se + 'srv) \<Rightarrow> ('srv \<Rightarrow> 'se + unit) \<Rightarrow> config \<Rightarrow> bool \<times> ('e + unit)" where
  "http_worker_run build bind_addr run_server c =
     (http_thread build bind_addr run_server c \<noteq> Panic, Inr ())"

section \<open>Lemmas\<close>

lemma configure_routes_cache: "configure_routes GET [''api'', ''cache'', d, g] = Some (GetCachedData d g)"
  by (simp add: configure_routes_def)

text \<open>A request leaves everything but the registry of event streams as it is, and that as well unless it
  opens a stream.\<close>

lemma http_request_reads:
  assumes "http_request api to_json now now_ms verb target query st = (answer, st')"
  shows "as_device_states st' = as_device_states st \<and> as_config st' = as_config st \<and>
     as_data_cache st' = as_data_cache st \<and>
     (configure_routes verb target \<noteq> Some SseStream \<longrightarrow> st' = st)"
proof (cases "configure_routes verb target")
  case (Some r)
  with assms show ?thesis by (cases r) (auto simp: http_request_def handle_route_def split: prod.splits)
qed (use assms in \<open>simp add: http_request_def\<close>)

definition http_requests ::
  "'n number_api \<Rightarrow> (config \<Rightarrow> 'n json) \<Rightarrow> (nat \<times> nat \<times> http_method \<times> string list \<times> sse_query) list
     \<Rightarrow> 'n app_state \<Rightarrow> 'n app_state" where
  "http_requests api to_json rqs st =
     fold (\<lambda>(now, now_ms, verb, target, query) st. snd (http_request api to_json now now_ms verb target query st)) rqs st"

text \<open>After any requests the configuration endpoint serves the configuration of the start.\<close>

lemma http_requests_config:
  "as_config (http_requests api to_json rqs st) = as_config st \<and>
   as_data_cache (http_requests api to_json rqs st) = as_data_cache st \<and>
   as_device_states (http_requests api to_json rqs st) = as_device_states st"
proof (induction rqs arbitrary: st)
  case (Cons rq rqs)
  obtain now now_ms verb target query where rq: "rq = (now, now_ms, verb, target, query)" by (cases rq)
  obtain answer st' where h: "http_request api to_json now now_ms verb target query st = (answer, st')"
    by (cases "http_request api to_json now now_ms verb target query st")
  from Cons [of st'] http_request_reads [OF h] rq h show ?case by (simp add: http_requests_def)
qed (simp add: http_requests_def)

end
