(* ===== verification/Monitoring.thy ===== *)
theory Monitoring
  imports End_To_End Http_Server
begin

text \<open>
  The read path of the whole program: the data stream worker polls a group through the hub and the
  Modbus worker, and the HTTP server serves what the poll has put into the cache.  The device is the
  one of \<open>End_To_End\<close>.
\<close>

text \<open>The fields of a read are what the poll takes out of the answer.\<close>

lemma polled_read_answer:
  "polled_values True (read_answer api name pfs l) = JArr (map (parsed_field_json api) pfs)"
  by (simp add: polled_values_def read_answer_def json_get_json_object)

text \<open>The broadcast of the update, which the Modbus worker does not register for, changes nothing.\<close>

lemma plant_update_broadcast:
  "pl_device (snd (hub_send (plant_hub api io parse_config) (DataStreamUpdate d g v ts lat sq) tmo p)) = pl_device p"
  by (simp add: plant_hub_def plant_deliver_def worker_message_def unanswered_def Let_def)

text \<open>C3: What a poll of a group of holding registers puts into the cache is what the registers of the
  device hold: whatever HTTP requests come in between, the cache endpoint answers with status 200 and
  the group's fields parsed from these registers, in the byte order of the device, and the registers
  are not changed.\<close>

theorem device_registers_served_over_http:
  fixes p :: "('n, 'c, 'w) plant"
  assumes api: "number_laws api" and dev: "register_device io rd rng" and inv: "worker_inv (plant_state p)"
    and id: "dev_id (ws_device (plant_state p)) = dev"
    and free: "in_flight (plant_state p) < unat (dev_max_concurrent_ops (ws_device (plant_state p)))"
    and g: "resolve_signal_group (plant_state p) name = Some g"
    and a: "parse_register_address (sg_register_address g) = Some (Holding, a)"
    and rng: "in_range (a, sg_register_count g)"
    and poll: "poll_signal_group (plant_hub api io parse_config) dev name dsw cache p = (r, dsw', cache', p')"
    and app: "as_data_cache st = cache'"
  shows "\<exists>resp. fst (http_request api to_json now now_ms GET [''api'', ''cache'', dev, name] query
       (http_requests api to_json rqs st)) = Some (Inl resp) \<and>
     http_status resp = 200 \<and>
     json_get (http_body resp) ''values'' = Some (JArr (map (parsed_field_json api)
       (parse_signal_group_fields (group_registers (rd (pl_device p)) a g) (sg_fields g)
         (dev_byte_order (ws_device (plant_state p)))))) \<and>
     rd (pl_device p') = rd (pl_device p)"
proof -
  let ?params = "json_object [(''group_name'', JStr name)]"
  let ?rr = "plant_request dev ReadSignalGroup ?params p"
  let ?pfs = "parse_signal_group_fields (group_registers (rd (pl_device p)) a g) (sg_fields g)
    (dev_byte_order (ws_device (plant_state p)))"
  have rr: "rq_operation ?rr = ReadSignalGroup" "group_name_param (rq_params ?rr) = Some name"
    by (simp_all add: plant_request_def group_name_param_def json_get_json_object)
  obtain l s' w' where answer: "serve api io ?rr (plant_state p) (pl_device p) =
      Ret ([send_response ?rr True (read_answer api name ?pfs l) None], s', w')" "rd w' = rd (pl_device p)"
    using serve_read [OF api dev inv free g a rng rr, of "pl_device p"] by blast
  obtain cid p1 ch p2 p3 p4 where hub:
    "hub_next_id (plant_hub api io parse_config) p = (cid, p1)"
    "hub_channel (plant_hub api io parse_config) p1 = (ch, p2)"
    "hub_send (plant_hub api io parse_config) (DeviceControl dev ReadSignalGroup ?params cid (Some ch))
       DEFAULT_HUB_SEND_TIMEOUT p2 = (Inr (), p3)"
    "\<forall>tmo. hub_recv (plant_hub api io parse_config) ch tmo p3 = (Inr (True, read_answer api name ?pfs l, None), p4)"
    "pl_device p4 = w'"
    using plant_exchange [OF id answer(1), of parse_config] by blast
  let ?resp = "get_cached_data api (word_of_nat now_ms) dev name cache'"
  have "http_status ?resp = 200" "json_get (http_body ?resp) ''values'' = Some (JArr (map (parsed_field_json api) ?pfs))"
    using poll_then_cached [OF hub(1-3) hub(4) [rule_format] poll, of api "word_of_nat now_ms"]
    by (simp_all add: Let_def polled_read_answer)
  moreover have "fst (http_request api to_json now now_ms GET [''api'', ''cache'', dev, name] query
      (http_requests api to_json rqs st)) = Some (Inl ?resp)"
    using app http_requests_config [of api to_json rqs st]
    by (simp add: http_request_def configure_routes_cache handle_route_def)
  moreover have "pl_device p' = w'"
    using poll_answered [OF hub(1-3) hub(4) [rule_format], of dsw cache] poll hub(5) plant_update_broadcast by auto
  ultimately show ?thesis using answer(2) by blast
qed

text \<open>A device whose holding registers 7, 8 and 9 hold 70, 80 and 90.\<close>

definition monitored_plant :: "(sample_number, unit, nat \<Rightarrow> u16) plant" where
  "monitored_plant = sample_plant\<lparr>pl_device := \<lambda>i. word_of_nat (10 * i)\<rparr>"

theorem device_registers_served_over_http_witness:
  "\<exists>resp cache'. cache' = fst (snd (snd (poll_signal_group (plant_hub sample_api memory_io (\<lambda>_. Inl ()))
       ''plc'' ''g'' (data_stream_worker_new config_default) data_cache_new monitored_plant))) \<and>
     fst (http_request sample_api (\<lambda>_. JNull) 0 0 GET [''api'', ''cache'', ''plc'', ''g'']
       \<lparr>sq_device = [], sq_groups = []\<rparr>
       \<lparr>as_device_states = [], as_config = config_default, as_data_cache = cache', as_sse_registry = sse_registry_new\<rparr>)
       = Some (Inl resp) \<and>
     json_get (http_body resp) ''values'' = Some (JArr (map (parsed_field_json sample_api)
       (parse_signal_group_fields [70, 80, 90] sample_fields BigEndian)))"
proof -
  let ?g = "sample_group ''h7'' 3 sample_fields"
  obtain r dsw' cache' p' where poll: "poll_signal_group (plant_hub sample_api memory_io (\<lambda>_. Inl ()))
      ''plc'' ''g'' (data_stream_worker_new config_default) data_cache_new monitored_plant = (r, dsw', cache', p')"
    by (cases "poll_signal_group (plant_hub sample_api memory_io (\<lambda>_. Inl ()))
      ''plc'' ''g'' (data_stream_worker_new config_default) data_cache_new monitored_plant")
  let ?st = "\<lparr>as_device_states = [], as_config = config_default, as_data_cache = cache', as_sse_registry = sse_registry_new\<rparr>"
  have ready: "worker_inv (plant_state monitored_plant)" "dev_id (ws_device (plant_state monitored_plant)) = ''plc''"
    "in_flight (plant_state monitored_plant) < unat (dev_max_concurrent_ops (ws_device (plant_state monitored_plant)))"
    "resolve_signal_group (plant_state monitored_plant) ''g'' = Some ?g"
    using sample_plant_ready by (simp_all add: monitored_plant_def)
  have vals: "group_registers (pl_device monitored_plant) 7 ?g = [70, 80, 90]"
    by (simp add: group_registers_def monitored_plant_def sample_group_def upt_rec)
  have device: "sg_fields ?g = sample_fields" "dev_byte_order (ws_device (plant_state monitored_plant)) = BigEndian"
    by (simp_all add: sample_group_def monitored_plant_def sample_plant_def modbus_worker_new_def
        worker_state_new_def sample_device_def)
  from device_registers_served_over_http [OF number_laws_sample memory_register_device ready sample_plant_ready(5,6)
      poll, of ?st "\<lambda>_. JNull" 0 0 "\<lparr>sq_device = [], sq_groups = []\<rparr>" "[]"]
  show ?thesis using poll by (simp add: http_requests_def vals device) blast
qed

end
