(* ===== verification/Streaming.thy ===== *)
theory Streaming
  imports Monitoring "HOL-Library.Sublist"
begin

text \<open>
  The other read path of the whole program: the data stream worker polls a group through the hub and the
  Modbus worker and broadcasts what it found, and the event stream worker hands it to the clients that
  opened a stream over HTTP.  The device is the one of \<open>End_To_End\<close>; the event stream worker takes a
  message as soon as it is sent.
\<close>

section \<open>The hub with the event stream worker\<close>

record ('n, 'c, 'w) station =
  sn_plant :: "('n, 'c, 'w) plant"
  sn_sse :: sse_worker
  sn_registry :: "'n sse_registry"

text \<open>The worker registers for \<open>DataStreamUpdate\<close> only.\<close>

fun station_route ::
  "'n number_api \<Rightarrow> nat \<Rightarrow> ('n, 'ch) message \<Rightarrow> sse_worker \<Rightarrow> 'n sse_registry \<Rightarrow> sse_worker \<times> 'n sse_registry" where
  "station_route api now (DataStreamUpdate d g v ts lat sq) sw r =
     sse_message api now (DataStreamUpdate d g v ts lat sq :: (_, 'ch) message) sw r"
| "station_route api now _ sw r = (sw, r)"

definition station_hub ::
  "'n number_api \<Rightarrow> ('w, 'c, 'm) modbus_io \<Rightarrow> (string \<Rightarrow> 'de + config) \<Rightarrow> ('n, nat, ('n, 'c, 'w) station) hub_api"
where
  "station_hub api io parse_config =
     (let h = plant_hub api io parse_config in
      \<lparr>hub_channel = (\<lambda>s. let (ch, p) = hub_channel h (sn_plant s) in (ch, s\<lparr>sn_plant := p\<rparr>)),
       hub_send = (\<lambda>msg tmo s.
         let (r, p) = hub_send h msg tmo (sn_plant s);
             (sw, reg) = station_route api (hub_instant_now h p) msg (sn_sse s) (sn_registry s)
         in (r, s\<lparr>sn_plant := p, sn_sse := sw, sn_registry := reg\<rparr>)),
       hub_recv = (\<lambda>ch tmo s. let (r, p) = hub_recv h ch tmo (sn_plant s) in (r, s\<lparr>sn_plant := p\<rparr>)),
       hub_next_id = (\<lambda>s. let (i, p) = hub_next_id h (sn_plant s) in (i, s\<lparr>sn_plant := p\<rparr>)),
       hub_system_now = (\<lambda>s. hub_system_now h (sn_plant s)),
       hub_instant_now = (\<lambda>s. hub_instant_now h (sn_plant s))\<rparr>)"

section \<open>One connection\<close>

lemma map_of_filter_map:
  assumes "distinct (map fst cs)"
  shows "map_of (map (\<lambda>(i, c). (i, f c)) (filter (\<lambda>(i, c). P c) cs)) i =
     (case map_of cs i of None \<Rightarrow> None | Some c \<Rightarrow> if P c then Some (f c) else None)"
  using assms
  by (induction cs) (auto simp: map_of_eq_None_iff image_iff split: option.split)

lemma send_and_clean_lookup:
  assumes "distinct (map fst (sr_connections r))"
  shows "map_of (sr_connections (snd (send_and_clean wanted e r))) i =
     (case map_of (sr_connections r) i of
        None \<Rightarrow> None
      | Some c \<Rightarrow> if wanted c \<and> is_dead c then None else Some (if receives wanted c then deliver e c else c))"
  unfolding send_and_clean_eq [OF assms] using map_of_filter_map [OF assms, of "\<lambda>c. if receives wanted c then deliver e c else c" "\<lambda>c. \<not> (wanted c \<and> is_dead c)" i]
  by (auto split: option.split)

lemma send_and_clean_distinct:
  assumes "distinct (map fst (sr_connections r))"
  shows "distinct (map fst (sr_connections (snd (send_and_clean wanted e r))))"
  using assms
  by (simp add: send_and_clean_eq o_def case_prod_unfold distinct_map_filter)

text \<open>A heartbeat leaves what is in the channel of a living connection.\<close>

lemma heartbeat_keeps:
  assumes "distinct (map fst (sr_connections r))" and "map_of (sr_connections r) i = Some c" and "\<not> is_dead c"
  shows "\<exists>c'. map_of (sr_connections (snd (send_heartbeat_if_needed now sw r))) i = Some c' \<and>
     prefix (ch_buffer (sse_sender c)) (ch_buffer (sse_sender c'))"
  using assms send_and_clean_lookup [OF assms(1), of "\<lambda>c. True" Heartbeat i]
  by (auto simp: send_heartbeat_if_needed_def send_heartbeat_to_all_def deliver_def)

text \<open>An update that a connection is to receive is in its channel after what was there.\<close>

lemma update_delivered:
  assumes d: "distinct (map fst (sr_connections r))" and c: "map_of (sr_connections r) i = Some c"
    and s: "subscriber dev g c" "\<not> is_dead c" "has_room c"
  shows "\<exists>c'. map_of (sr_connections (snd (sse_message api now (DataStreamUpdate dev g v ts lat sq) sw r))) i = Some c' \<and>
     prefix (ch_buffer (sse_sender c) @ [JsonData (sse_data api dev g v ts lat sq)]) (ch_buffer (sse_sender c'))"
proof -
  let ?e = "JsonData (sse_data api dev g v ts lat sq)"
  let ?w = "\<lambda>conn. sse_device_id conn = dev \<and> is_subscribed_to conn g"
  let ?r1 = "snd (send_and_clean ?w ?e r)"
  have w: "?w c" using s(1) by (simp add: subscriber_def is_subscribed_to_def list_ex_iff)
  then have l: "map_of (sr_connections ?r1) i = Some (deliver ?e c)"
    using send_and_clean_lookup [OF d, of ?w ?e i] c s(2,3) by (simp add: receives_def)
  have r1: "snd (handle_data_stream_update api (DataStreamUpdate dev g v ts lat sq) sw r) = ?r1"
    by (simp add: send_to_subscribers_def split_beta Let_def)
  have "\<not> is_dead (deliver ?e c)" using s(2) by (simp add: is_dead_def deliver_def)
  from heartbeat_keeps [OF send_and_clean_distinct [OF d] l this] r1
  show ?thesis by (simp add: sse_message_def split_beta Let_def deliver_def)
qed

section \<open>The exchange of a poll\<close>

text \<open>What does not carry an update passes the event stream worker by.\<close>

lemma station_hub_simps:
  "hub_next_id (station_hub api io parse_config) s =
     (let (i, p) = hub_next_id (plant_hub api io parse_config) (sn_plant s) in (i, s\<lparr>sn_plant := p\<rparr>))"
  "hub_channel (station_hub api io parse_config) s =
     (let (ch, p) = hub_channel (plant_hub api io parse_config) (sn_plant s) in (ch, s\<lparr>sn_plant := p\<rparr>))"
  "hub_recv (station_hub api io parse_config) ch tmo s =
     (let (r, p) = hub_recv (plant_hub api io parse_config) ch tmo (sn_plant s) in (r, s\<lparr>sn_plant := p\<rparr>))"
  "hub_send (station_hub api io parse_config) (DeviceControl d op params cid re) tmo s =
     (let (r, p) = hub_send (plant_hub api io parse_config) (DeviceControl d op params cid re) tmo (sn_plant s)
      in (r, s\<lparr>sn_plant := p\<rparr>))"
  "sn_registry (snd (hub_send (station_hub api io parse_config) (DataStreamUpdate d g v ts lat sq) tmo s)) =
     snd (sse_message api
       (hub_instant_now (plant_hub api io parse_config)
         (snd (hub_send (plant_hub api io parse_config) (DataStreamUpdate d g v ts lat sq) tmo (sn_plant s))))
       (DataStreamUpdate d g v ts lat sq :: ('n, nat) message) (sn_sse s) (sn_registry s))"
  by (simp_all add: station_hub_def Let_def split_beta)

lemma station_poll:
  fixes s :: "('n, 'c, 'w) station"
  assumes id: "dev_id (ws_device (plant_state (sn_plant s))) = dev"
    and answer: "serve api io (plant_request dev ReadSignalGroup (json_object [(''group_name'', JStr name)]) (sn_plant s))
      (plant_state (sn_plant s)) (pl_device (sn_plant s)) =
      Ret ([send_response (plant_request dev ReadSignalGroup (json_object [(''group_name'', JStr name)]) (sn_plant s))
        True d None], w, x)"
    and poll: "poll_signal_group (station_hub api io parse_config) dev name dsw cache s = (r, dsw', cache', s')"
  shows "\<exists>now ts lat. sn_registry s' =
     snd (sse_message api now
       (DataStreamUpdate dev name (polled_values True d) ts lat (dsw_sequence dsw + 1) :: ('n, nat) message)
       (sn_sse s) (sn_registry s))"
proof -
  let ?h = "plant_hub api io parse_config" and ?H = "station_hub api io parse_config"
  let ?params = "json_object [(''group_name'', JStr name)]"
  obtain cid p1 ch p2 p3 p4 where hub:
    "hub_next_id ?h (sn_plant s) = (cid, p1)" "hub_channel ?h p1 = (ch, p2)"
    "hub_send ?h (DeviceControl dev ReadSignalGroup ?params cid (Some ch)) DEFAULT_HUB_SEND_TIMEOUT p2 = (Inr (), p3)"
    "hub_recv ?h ch (unat DEFAULT_POLL_TIMEOUT_MS) p3 = (Inr (True, d, None), p4)"
    using plant_exchange [OF id answer, of parse_config] by blast
  have "hub_next_id ?H s = (cid, s\<lparr>sn_plant := p1\<rparr>)"
    "hub_channel ?H (s\<lparr>sn_plant := p1\<rparr>) = (ch, s\<lparr>sn_plant := p2\<rparr>)"
    "hub_send ?H (DeviceControl dev ReadSignalGroup ?params cid (Some ch)) DEFAULT_HUB_SEND_TIMEOUT (s\<lparr>sn_plant := p2\<rparr>)
      = (Inr (), s\<lparr>sn_plant := p3\<rparr>)"
    "hub_recv ?H ch (unat DEFAULT_POLL_TIMEOUT_MS) (s\<lparr>sn_plant := p3\<rparr>) = (Inr (True, d, None), s\<lparr>sn_plant := p4\<rparr>)"
    by (simp_all add: station_hub_simps hub)
  from poll_answered [OF this, of dsw cache] poll obtain ts lat where
    "s' = snd (hub_send ?H (DataStreamUpdate dev name (polled_values True d) ts lat (dsw_sequence dsw + 1))
      DEFAULT_HUB_SEND_TIMEOUT (s\<lparr>sn_plant := p4\<rparr>))"
    by auto
  then have "sn_registry s' = snd (sse_message api
      (hub_instant_now ?h (snd (hub_send ?h (DataStreamUpdate dev name (polled_values True d) ts lat (dsw_sequence dsw + 1))
        DEFAULT_HUB_SEND_TIMEOUT p4)))
      (DataStreamUpdate dev name (polled_values True d) ts lat (dsw_sequence dsw + 1) :: ('n, nat) message)
      (sn_sse s) (sn_registry s))"
    by (simp add: station_hub_simps)
  then show ?thesis by blast
qed

section \<open>Property\<close>

text \<open>C4: A client that has opened an event stream over HTTP for a device and a group of holding registers
  gets, with the next poll of the group, what the registers of the device hold: the first event in its
  channel carries the group's fields parsed from these registers, in the byte order of the device.\<close>

theorem device_registers_streamed:
  fixes s :: "('n, 'c, 'w) station"
  assumes api: "number_laws api" and dev: "register_device io rd rng" and inv: "worker_inv (plant_state (sn_plant s))"
    and id: "dev_id (ws_device (plant_state (sn_plant s))) = dev"
    and free: "in_flight (plant_state (sn_plant s)) < unat (dev_max_concurrent_ops (ws_device (plant_state (sn_plant s))))"
    and g: "resolve_signal_group (plant_state (sn_plant s)) name = Some g"
    and a: "parse_register_address (sg_register_address g) = Some (Holding, a)"
    and rng: "in_range (a, sg_register_count g)"
    and reach: "registry_reach threads k reg" and k: "k < threads"
    and client: "sse_stream now_ms q reg = (Inr i, sn_registry s)" "sq_device q = dev" "name \<in> set (query_groups q)"
    and poll: "poll_signal_group (station_hub api io parse_config) dev name dsw cache s = (r, dsw', cache', s')"
  shows "\<exists>conn v more. map_of (sr_connections (sn_registry s')) i = Some conn \<and>
     ch_buffer (sse_sender conn) = JsonData v # more \<and>
     json_get v ''values'' = Some (JArr (map (parsed_field_json api)
       (parse_signal_group_fields (group_registers (rd (pl_device (sn_plant s))) a g) (sg_fields g)
         (dev_byte_order (ws_device (plant_state (sn_plant s)))))))"
proof -
  let ?rr = "plant_request dev ReadSignalGroup (json_object [(''group_name'', JStr name)]) (sn_plant s)"
  let ?pfs = "parse_signal_group_fields (group_registers (rd (pl_device (sn_plant s))) a g) (sg_fields g)
    (dev_byte_order (ws_device (plant_state (sn_plant s))))"
  have rr: "rq_operation ?rr = ReadSignalGroup" "group_name_param (rq_params ?rr) = Some name"
    by (simp_all add: plant_request_def group_name_param_def json_get_json_object)
  obtain l w x where "serve api io ?rr (plant_state (sn_plant s)) (pl_device (sn_plant s)) =
      Ret ([send_response ?rr True (read_answer api name ?pfs l) None], w, x)"
    using serve_read [OF api dev inv free g a rng rr, of "pl_device (sn_plant s)"] by blast
  from station_poll [OF id this poll] obtain now ts lat where routed: "sn_registry s' =
      snd (sse_message api now (DataStreamUpdate dev name (JArr (map (parsed_field_json api) ?pfs)) ts lat
        (dsw_sequence dsw + 1) :: ('n, nat) message) (sn_sse s) (sn_registry s))"
    by (auto simp: polled_read_answer)
  let ?conn = "sse_connection_new dev (query_groups q) (word_of_nat now_ms) create_sse_channel :: 'n sse_connection"
  have new: "(i, sn_registry s) = register_insert ?conn reg" and "register_allowed reg"
    using client by (auto simp: sse_stream_def register_def Let_def split: if_splits prod.splits)
  then have "registry_reach threads k (sn_registry s)"
    using registry_reach.insert [OF registry_reach.test [OF reach _ k], of ?conn] by (metis snd_conv)
  then have d: "distinct (map fst (sr_connections (sn_registry s)))" by (rule registry_ids_distinct)
  have "(i, ?conn) \<in> set (sr_connections (sn_registry s))" using new by (auto simp: register_insert_def Let_def)
  then have c: "map_of (sr_connections (sn_registry s)) i = Some ?conn" using d by (rule map_of_is_SomeI [rotated])
  have "subscriber dev name ?conn" "\<not> is_dead ?conn" "has_room ?conn"
    using client(3) by (simp_all add: subscriber_def is_dead_def has_room_def sse_connection_new_def
        create_sse_channel_def SSE_CHANNEL_CAPACITY_def)
  from update_delivered [OF d c this, of api now "JArr (map (parsed_field_json api) ?pfs)" ts lat
      "dsw_sequence dsw + 1" "sn_sse s"] routed
  obtain conn where "map_of (sr_connections (sn_registry s')) i = Some conn"
    "prefix [JsonData (sse_data api dev name (JArr (map (parsed_field_json api) ?pfs)) ts lat (dsw_sequence dsw + 1))]
      (ch_buffer (sse_sender conn))"
    by (auto simp: sse_connection_new_def create_sse_channel_def)
  then show ?thesis by (auto simp: prefix_def sse_data_def json_get_json_object)
qed

definition sample_station :: "(sample_number, unit, nat \<Rightarrow> u16) station" where
  "sample_station = \<lparr>sn_plant = monitored_plant, sn_sse = sse_worker_new 0,
     sn_registry = snd (sse_stream 5 \<lparr>sq_device = ''plc'', sq_groups = ''g''\<rparr> sse_registry_new)\<rparr>"

lemma sample_stream_opened:
  "sse_stream 5 \<lparr>sq_device = ''plc'', sq_groups = ''g''\<rparr> (sse_registry_new :: sample_number sse_registry) =
     (Inr 0, sn_registry sample_station)"
proof -
  have "query_groups \<lparr>sq_device = ''plc'', sq_groups = ''g''\<rparr> = [''g'']" by code_simp
  then show ?thesis
    by (simp add: sample_station_def sse_stream_def register_def register_insert_def register_allowed_def
        sse_registry_new_def MAX_SSE_CONNECTIONS_def Let_def)
qed

theorem device_registers_streamed_witness:
  "\<exists>conn v more. map_of (sr_connections (sn_registry (snd (snd (snd (poll_signal_group
       (station_hub sample_api memory_io (\<lambda>_. Inl ())) ''plc'' ''g'' (data_stream_worker_new config_default)
       data_cache_new sample_station)))))) 0 = Some conn \<and>
     ch_buffer (sse_sender conn) = JsonData v # more \<and>
     json_get v ''values'' = Some (JArr (map (parsed_field_json sample_api)
       (parse_signal_group_fields [70, 80, 90] sample_fields BigEndian)))"
proof -
  let ?g = "sample_group ''h7'' 3 sample_fields"
  obtain r dsw' cache' s' where poll: "poll_signal_group (station_hub sample_api memory_io (\<lambda>_. Inl ()))
      ''plc'' ''g'' (data_stream_worker_new config_default) data_cache_new sample_station = (r, dsw', cache', s')"
    by (cases "poll_signal_group (station_hub sample_api memory_io (\<lambda>_. Inl ()))
      ''plc'' ''g'' (data_stream_worker_new config_default) data_cache_new sample_station")
  have p: "sn_plant sample_station = monitored_plant" by (simp add: sample_station_def)
  have ready: "worker_inv (plant_state (sn_plant sample_station))"
    "dev_id (ws_device (plant_state (sn_plant sample_station))) = ''plc''"
    "in_flight (plant_state (sn_plant sample_station)) < unat (dev_max_concurrent_ops (ws_device (plant_state (sn_plant sample_station))))"
    "resolve_signal_group (plant_state (sn_plant sample_station)) ''g'' = Some ?g"
    using sample_plant_ready by (simp_all add: p monitored_plant_def)
  have vals: "group_registers (pl_device (sn_plant sample_station)) 7 ?g = [70, 80, 90]"
    by (simp add: p group_registers_def monitored_plant_def sample_group_def upt_rec)
  have device: "sg_fields ?g = sample_fields" "dev_byte_order (ws_device (plant_state (sn_plant sample_station))) = BigEndian"
    by (simp_all add: p sample_group_def monitored_plant_def sample_plant_def modbus_worker_new_def
        worker_state_new_def sample_device_def)
  have q: "''g'' \<in> set (query_groups \<lparr>sq_device = ''plc'', sq_groups = ''g''\<rparr>)" by code_simp
  from device_registers_streamed [OF number_laws_sample memory_register_device ready sample_plant_ready(5,6)
      registry_reach.new [of 1] _ sample_stream_opened _ q poll]
  show ?thesis using poll by (simp add: vals device)
qed

end
