(* ===== verification/Heartbeat.thy ===== *)
theory Heartbeat
  imports Device_States Hub_Protection
begin

text \<open>
  \<open>src/workers/heartbeat_worker.rs\<close>: the worker that asks the devices for their status in turn, keeps
  the table of device states and broadcasts a heartbeat with the measured latency.  The hub, its
  channels and the clocks are the record \<open>hub_api\<close>; an index into the device list is a \<open>nat\<close>.

  The lemmas describe the turn (every device once in each round), the table and the events, and the
  time a round takes.
\<close>

section \<open>State\<close>

record heartbeat_worker =
  hb_config :: config
  hb_current_device_index :: nat
  hb_heartbeat_interval_sec :: u32
  hb_heartbeat_timeout_sec :: u32

definition min_interval :: "device list \<Rightarrow> u32" where
  "min_interval ds =
     (case map dev_heartbeat_interval_sec ds of [] \<Rightarrow> 30 | i # is \<Rightarrow> fold min is i)"

definition heartbeat_worker_new :: "config \<Rightarrow> heartbeat_worker" where
  "heartbeat_worker_new c =
     \<lparr>hb_config = c, hb_current_device_index = 0,
      hb_heartbeat_interval_sec = min_interval (cfg_devices c), hb_heartbeat_timeout_sec = 1\<rparr>"

section \<open>One check\<close>

text \<open>Whether the device is online, and the latency in microseconds.\<close>

definition ping_device ::
  "('n, 'ch, 'w) hub_api \<Rightarrow> heartbeat_worker \<Rightarrow> string \<Rightarrow> 'w \<Rightarrow> (bool \<times> u64) \<times> 'w" where
  "ping_device hub hb device_id w =
     (let start = hub_system_now hub w;
          (correlation_id, w1) = hub_next_id hub w;
          (tx, w2) = hub_channel hub w1
      in case hub_send hub (DeviceControl device_id GetStatus (json_object []) correlation_id (Some tx))
                DEFAULT_HUB_SEND_TIMEOUT w2 of
           (Inl e, w3) \<Rightarrow> ((False, 0), w3)
         | (Inr _, w3) \<Rightarrow>
             (case hub_recv hub tx (unat (hb_heartbeat_timeout_sec hb) * 1000) w3 of
                (Inr (success, data, error), w4) \<Rightarrow>
                  ((success, word_of_nat ((hub_system_now hub w4 - start) div 1000)), w4)
              | (Inl e, w4) \<Rightarrow> ((False, 0), w4)))"

definition update_device_status ::
  "('n, 'ch, 'w) hub_api \<Rightarrow> string \<Rightarrow> bool \<Rightarrow> device_states \<Rightarrow> 'w \<Rightarrow> device_event list \<times> device_states" where
  "update_device_status hub device_id connected states w =
     (case map_of states device_id of
        Some st \<Rightarrow>
          (if ds_connected st \<noteq> connected
           then [\<lparr>de_device_id = device_id,
                  de_event_type = (if connected then EvConnected else EvDisconnected),
                  de_timestamp_ms = word_of_nat (hub_system_now hub w div 1000000),
                  de_details = ''Device '' @ (if connected then ''connected'' else ''disconnected'')
                    @ '' via heartbeat check''\<rparr>]
           else [],
           AList.update device_id
             (st\<lparr>ds_connected := connected, ds_last_communication := hub_instant_now hub w\<rparr>) states)
      | None \<Rightarrow> ([], states))"

definition broadcast_heartbeat ::
  "('n, 'ch, 'w) hub_api \<Rightarrow> string \<Rightarrow> u64 \<Rightarrow> 'w \<Rightarrow> 'w" where
  "broadcast_heartbeat hub device_id latency_us w =
     snd (hub_send hub (DeviceHeartbeat device_id (word_of_nat (hub_system_now hub w div 1000000)) latency_us)
            DEFAULT_HUB_SEND_TIMEOUT w)"

section \<open>The loop\<close>

definition BASE_INTERVAL_MS :: nat where "BASE_INTERVAL_MS = 100"

text \<open>The time slept after a check, in milliseconds.\<close>

definition sleep_duration_ms :: "u32 \<Rightarrow> nat \<Rightarrow> nat" where
  "sleep_duration_ms interval_sec device_count =
     (let per_device_interval = unat interval_sec div device_count * 1000;
          target_interval = max per_device_interval BASE_INTERVAL_MS
      in target_interval - BASE_INTERVAL_MS)"

text \<open>One round of the loop gives the events pushed and the time slept.\<close>

definition heartbeat_tick ::
  "('n, 'ch, 'w) hub_api \<Rightarrow> heartbeat_worker \<Rightarrow> device_states \<Rightarrow> 'w
     \<Rightarrow> device_event list \<times> nat \<times> heartbeat_worker \<times> device_states \<times> 'w" where
  "heartbeat_tick hub hb states w =
     (let device_count = length (cfg_devices (hb_config hb)) in
      if device_count = 0 then ([], 0, hb, states, w)
      else
        let i = hb_current_device_index hb mod device_count;
            device_id = dev_id (cfg_devices (hb_config hb) ! i);
            ((connected, latency_us), w1) = ping_device hub hb device_id w;
            (events, states') = update_device_status hub device_id connected states w1;
            w2 = broadcast_heartbeat hub device_id latency_us w1
        in (events, sleep_duration_ms (hb_heartbeat_interval_sec hb) device_count,
            hb\<lparr>hb_current_device_index := (i + 1) mod device_count\<rparr>, states', w2))"

fun heartbeat_run ::
  "('n, 'ch, 'w) hub_api \<Rightarrow> nat \<Rightarrow> heartbeat_worker \<Rightarrow> device_states \<Rightarrow> 'w
     \<Rightarrow> device_event list \<times> nat \<times> heartbeat_worker \<times> device_states \<times> 'w" where
  "heartbeat_run hub 0 hb states w = ([], 0, hb, states, w)"
| "heartbeat_run hub (Suc n) hb states w =
     (let (events, sleep, hb1, states1, w1) = heartbeat_tick hub hb states w;
          (events', sleep', hb', states', w') = heartbeat_run hub n hb1 states1 w1
      in (events @ events', sleep + sleep', hb', states', w'))"

section \<open>Lemmas\<close>

subsection \<open>What the worker sends\<close>

text \<open>\<open>log\<close> reads off the world the messages given to the hub so far.\<close>

definition hub_records :: "('n, 'ch, 'w) hub_api \<Rightarrow> ('w \<Rightarrow> ('n, 'ch) message list) \<Rightarrow> bool" where
  "hub_records hub log \<longleftrightarrow>
     (\<forall>msg t w. log (snd (hub_send hub msg t w)) = log w @ [msg]) \<and>
     (\<forall>ch t w. log (snd (hub_recv hub ch t w)) = log w) \<and>
     (\<forall>w. log (snd (hub_next_id hub w)) = log w) \<and> (\<forall>w. log (snd (hub_channel hub w)) = log w)"

fun heartbeat_of :: "('n, 'ch) message \<Rightarrow> string list" where
  "heartbeat_of (DeviceHeartbeat d ts lat) = [d]"
| "heartbeat_of _ = []"

fun status_request_of :: "('n, 'ch) message \<Rightarrow> string list" where
  "status_request_of (DeviceControl d GetStatus params i ch) = [d]"
| "status_request_of _ = []"

definition heartbeats :: "('n, 'ch) message list \<Rightarrow> string list" where
  "heartbeats msgs = concat (map heartbeat_of msgs)"

definition status_requests :: "('n, 'ch) message list \<Rightarrow> string list" where
  "status_requests msgs = concat (map status_request_of msgs)"

lemma heartbeats_append [simp]: "heartbeats (xs @ ys) = heartbeats xs @ heartbeats ys"
  and status_requests_append [simp]: "status_requests (xs @ ys) = status_requests xs @ status_requests ys"
  and heartbeats_one [simp]: "heartbeats [m] = heartbeat_of m"
  and status_requests_one [simp]: "status_requests [m] = status_request_of m"
  by (simp_all add: heartbeats_def status_requests_def)

lemma ping_device_log:
  assumes "hub_records hub log"
  shows "\<exists>i ch. log (snd (ping_device hub hb d w)) = log w @ [DeviceControl d GetStatus (json_object []) i ch]"
proof -
  obtain i w1 where n: "hub_next_id hub w = (i, w1)" by (cases "hub_next_id hub w")
  obtain tx w2 where c: "hub_channel hub w1 = (tx, w2)" by (cases "hub_channel hub w1")
  let ?m = "DeviceControl d GetStatus (json_object []) i (Some tx)"
  obtain r w3 where s: "hub_send hub ?m DEFAULT_HUB_SEND_TIMEOUT w2 = (r, w3)"
    by (cases "hub_send hub ?m DEFAULT_HUB_SEND_TIMEOUT w2")
  obtain a w4 where a: "hub_recv hub tx (unat (hb_heartbeat_timeout_sec hb) * 1000) w3 = (a, w4)"
    by (cases "hub_recv hub tx (unat (hb_heartbeat_timeout_sec hb) * 1000) w3")
  have "log w1 = log w" "log w2 = log w1" "log w3 = log w2 @ [?m]" "log w4 = log w3"
    using assms n c s a unfolding hub_records_def by (metis snd_conv)+
  then show ?thesis
    by (auto simp: ping_device_def n c s a split: sum.split prod.split)
qed

lemma heartbeat_tick_log:
  assumes "hub_records hub log" and "cfg_devices (hb_config hb) \<noteq> []"
    and "heartbeat_tick hub hb states w = (events, sleep, hb', states', w')"
  defines "n \<equiv> length (cfg_devices (hb_config hb))"
  defines "d \<equiv> map dev_id (cfg_devices (hb_config hb)) ! (hb_current_device_index hb mod n)"
  shows "heartbeats (log w') = heartbeats (log w) @ [d] \<and> status_requests (log w') = status_requests (log w) @ [d] \<and>
     hb' = hb\<lparr>hb_current_device_index := (hb_current_device_index hb mod n + 1) mod n\<rparr>"
proof -
  have d: "dev_id (cfg_devices (hb_config hb) ! (hb_current_device_index hb mod n)) = d"
    using assms(2) by (simp add: d_def n_def)
  obtain c lat w1 where p: "ping_device hub hb d w = ((c, lat), w1)" by (metis surj_pair)
  from ping_device_log [OF assms(1), of hb d w] p
  have "heartbeats (log w1) = heartbeats (log w)" "status_requests (log w1) = status_requests (log w) @ [d]"
    by auto
  moreover have "log w' = log w1 @ [DeviceHeartbeat d (word_of_nat (hub_system_now hub w1 div 1000000)) lat]"
    using assms(1,2,3) d p
    by (auto simp: heartbeat_tick_def n_def Let_def split_beta broadcast_heartbeat_def hub_records_def)
  moreover have "hb' = hb\<lparr>hb_current_device_index := (hb_current_device_index hb mod n + 1) mod n\<rparr>"
    using assms(2,3) by (auto simp: heartbeat_tick_def n_def Let_def split_beta)
  ultimately show ?thesis by simp
qed

lemma heartbeat_run_log:
  assumes "hub_records hub log"
  shows "cfg_devices (hb_config hb) \<noteq> [] \<Longrightarrow>
     heartbeat_run hub m hb states w = (events, sleep, hb', states', w') \<Longrightarrow>
     heartbeats (log w') = heartbeats (log w) @
       map (\<lambda>j. map dev_id (cfg_devices (hb_config hb)) !
         ((hb_current_device_index hb + j) mod length (cfg_devices (hb_config hb)))) [0..<m] \<and>
     status_requests (log w') = status_requests (log w) @
       map (\<lambda>j. map dev_id (cfg_devices (hb_config hb)) !
         ((hb_current_device_index hb + j) mod length (cfg_devices (hb_config hb)))) [0..<m]"
proof (induction m arbitrary: hb states w events sleep)
  case (Suc m)
  obtain ev1 sl1 hb1 states1 w1 where t: "heartbeat_tick hub hb states w = (ev1, sl1, hb1, states1, w1)"
    by (metis surj_pair)
  obtain ev2 sl2 where r: "heartbeat_run hub m hb1 states1 w1 = (ev2, sl2, hb', states', w')"
    using Suc.prems(2) by (auto simp: t split_beta prod_eq_iff)
  let ?n = "length (cfg_devices (hb_config hb))"
  note tick = heartbeat_tick_log [OF assms Suc.prems(1) t]
  have mods: "((hb_current_device_index hb mod ?n + 1) mod ?n + j) mod ?n = (hb_current_device_index hb + Suc j) mod ?n" for j
    by (simp add: mod_simps)
  have "[0..<Suc m] = 0 # map Suc [0..<m]" by (simp add: map_Suc_upt upt_conv_Cons)
  with Suc.IH [OF _ r] Suc.prems(1) tick mods show ?case by (simp add: o_def)
qed simp

lemma map_nth_mod: "xs \<noteq> [] \<Longrightarrow> map (\<lambda>j. xs ! (j mod length xs)) [0..<k * length xs] = concat (replicate k xs)"
proof (induction k)
  case (Suc k)
  have "map (\<lambda>j. xs ! (j mod length xs)) [k * length xs..<k * length xs + length xs] = xs"
    by (intro nth_equalityI) simp_all
  then have "map (\<lambda>j. xs ! (j mod length xs)) [0..<Suc k * length xs] = concat (replicate k xs) @ xs"
    using Suc upt_add_eq_append [of 0 "k * length xs" "length xs"] by (simp add: add.commute)
  also have "\<dots> = concat (replicate (Suc k) xs)"
    using concat_append [of "replicate k xs" "[xs]"] by (simp only: replicate_append_same) simp
  finally show ?case .
qed simp

subsection \<open>The table and the events\<close>

text \<open>A device that is connected or not, led through its events: each must be a change.\<close>

fun follow :: "bool \<Rightarrow> device_event list \<Rightarrow> bool option" where
  "follow b [] = Some b"
| "follow b (e # es) =
     (if de_event_type e = (if b then EvDisconnected else EvConnected) then follow (\<not> b) es else None)"

definition events_of :: "string \<Rightarrow> device_event list \<Rightarrow> device_event list" where
  "events_of k es = filter (\<lambda>e. de_device_id e = k) es"

lemma follow_append: "follow b (xs @ ys) = Option.bind (follow b xs) (\<lambda>b. follow b ys)"
  by (induction xs arbitrary: b) auto

lemma events_of_append [simp]: "events_of k (xs @ ys) = events_of k xs @ events_of k ys"
  by (simp add: events_of_def)

lemma update_device_status_follow:
  assumes "update_device_status hub d c states w = (events, states')" and "map_of states k = Some st"
  shows "\<exists>st'. map_of states' k = Some st' \<and> follow (ds_connected st) (events_of k events) = Some (ds_connected st') \<and>
     ds_error_count st' = ds_error_count st \<and> ds_reconnect_count st' = ds_reconnect_count st"
proof (cases "k = d")
  case True
  with assms show ?thesis
    by (auto simp: update_device_status_def update_conv' events_of_def split: if_splits)
next
  case False
  with assms have "events_of k events = [] \<and> map_of states' k = map_of states k"
    by (auto simp: update_device_status_def update_conv' events_of_def split: if_splits option.splits)
  with assms(2) show ?thesis by simp
qed

lemma update_device_status_keys:
  "update_device_status hub d c states w = (events, states') \<Longrightarrow> map fst states' = map fst states"
proof -
  have "map_of states d = Some st \<Longrightarrow> map fst (AList.update d x states) = map fst states" for st x
    by (induction states) (auto split: if_splits)
  then show "update_device_status hub d c states w = (events, states') \<Longrightarrow> map fst states' = map fst states"
    by (auto simp: update_device_status_def split: option.splits)
qed

lemma heartbeat_tick_status:
  assumes "heartbeat_tick hub hb states w = (events, sleep, hb', states', w')"
  obtains "events = []" "states' = states"
  | d c w1 where "update_device_status hub d c states w1 = (events, states')"
  using assms by (auto simp: heartbeat_tick_def Let_def split_beta prod_eq_iff split: if_splits)

lemma heartbeat_run_status:
  "heartbeat_run hub m hb states w = (events, sleep, hb', states', w') \<Longrightarrow> map_of states k = Some st \<Longrightarrow>
     \<exists>st'. map_of states' k = Some st' \<and> follow (ds_connected st) (events_of k events) = Some (ds_connected st') \<and>
       ds_error_count st' = ds_error_count st \<and> ds_reconnect_count st' = ds_reconnect_count st"
proof (induction m arbitrary: hb states w events sleep st)
  case 0
  then show ?case by (simp add: events_of_def)
next
  case (Suc m)
  obtain ev1 sl1 hb1 states1 w1 where t: "heartbeat_tick hub hb states w = (ev1, sl1, hb1, states1, w1)"
    by (metis surj_pair)
  obtain ev2 sl2 where r: "heartbeat_run hub m hb1 states1 w1 = (ev2, sl2, hb', states', w')"
    and ev: "events = ev1 @ ev2"
    using Suc.prems(1) by (auto simp: t split_beta prod_eq_iff)
  have "\<exists>st1. map_of states1 k = Some st1 \<and> follow (ds_connected st) (events_of k ev1) = Some (ds_connected st1) \<and>
      ds_error_count st1 = ds_error_count st \<and> ds_reconnect_count st1 = ds_reconnect_count st"
    using t
  proof (cases rule: heartbeat_tick_status)
    case 1
    with Suc.prems(2) show ?thesis by (simp add: events_of_def)
  next
    case (2 d c w2)
    then show ?thesis by (rule update_device_status_follow [OF _ Suc.prems(2)])
  qed
  then obtain st1 where "map_of states1 k = Some st1"
    "follow (ds_connected st) (events_of k ev1) = Some (ds_connected st1)"
    "ds_error_count st1 = ds_error_count st" "ds_reconnect_count st1 = ds_reconnect_count st" by blast
  with Suc.IH [OF r] ev show ?case by (auto simp: follow_append)
qed

lemma heartbeat_run_keys:
  "heartbeat_run hub m hb states w = (events, sleep, hb', states', w') \<Longrightarrow> map fst states' = map fst states"
proof (induction m arbitrary: hb states w events sleep)
  case (Suc m)
  obtain ev1 sl1 hb1 states1 w1 where t: "heartbeat_tick hub hb states w = (ev1, sl1, hb1, states1, w1)"
    by (metis surj_pair)
  obtain ev2 sl2 where r: "heartbeat_run hub m hb1 states1 w1 = (ev2, sl2, hb', states', w')"
    using Suc.prems by (auto simp: t split_beta prod_eq_iff)
  have "map fst states1 = map fst states"
    using t by (cases rule: heartbeat_tick_status) (auto dest: update_device_status_keys)
  with Suc.IH [OF r] show ?case by simp
qed simp

subsection \<open>The time of a round\<close>

lemma heartbeat_tick_sleep:
  assumes "heartbeat_tick hub hb states w = (events, sleep, hb', states', w')" and "cfg_devices (hb_config hb) \<noteq> []"
  shows "sleep = sleep_duration_ms (hb_heartbeat_interval_sec hb) (length (cfg_devices (hb_config hb))) \<and>
     hb_config hb' = hb_config hb \<and> hb_heartbeat_interval_sec hb' = hb_heartbeat_interval_sec hb"
  using assms by (auto simp: heartbeat_tick_def Let_def split_beta)

lemma heartbeat_run_sleep:
  "heartbeat_run hub m hb states w = (events, sleep, hb', states', w') \<Longrightarrow> cfg_devices (hb_config hb) \<noteq> [] \<Longrightarrow>
     sleep = m * sleep_duration_ms (hb_heartbeat_interval_sec hb) (length (cfg_devices (hb_config hb)))"
proof (induction m arbitrary: hb states w events sleep)
  case (Suc m)
  obtain ev1 sl1 hb1 states1 w1 where t: "heartbeat_tick hub hb states w = (ev1, sl1, hb1, states1, w1)"
    by (metis surj_pair)
  obtain ev2 sl2 where r: "heartbeat_run hub m hb1 states1 w1 = (ev2, sl2, hb', states', w')"
    and sl: "sleep = sl1 + sl2"
    using Suc.prems(1) by (auto simp: t split_beta prod_eq_iff)
  from heartbeat_tick_sleep [OF t Suc.prems(2)] Suc.IH [OF r] Suc.prems(2) sl show ?case by simp
qed simp

lemma fold_min_le: "fold min is (i :: u32) \<le> i \<and> (\<forall>j \<in> set is. fold min is i \<le> j)"
proof (induction "is" arbitrary: i)
  case (Cons a "is")
  have "fold min is (min a i) \<le> min a i" using Cons by blast
  then have "fold min is (min a i) \<le> i" "fold min is (min a i) \<le> a" by (auto intro: order_trans)
  with Cons show ?case by auto
qed simp

lemma min_interval_le: "d \<in> set ds \<Longrightarrow> min_interval ds \<le> dev_heartbeat_interval_sec d"
  using fold_min_le [of "map dev_heartbeat_interval_sec (tl ds)" "dev_heartbeat_interval_sec (hd ds)"]
  by (cases ds) (auto simp: min_interval_def)

lemma sleep_duration_bound:
  assumes "0 < n"
  shows "n * (sleep_duration_ms i n + BASE_INTERVAL_MS) \<le> max (unat i * 1000) (n * BASE_INTERVAL_MS)"
proof -
  have "n * (unat i div n * 1000) \<le> unat i * 1000"
    using times_div_less_eq_dividend [of n "unat i"] by (simp only: mult.assoc [symmetric] mult_le_mono1)
  moreover have "sleep_duration_ms i n + BASE_INTERVAL_MS = max (unat i div n * 1000) BASE_INTERVAL_MS"
    by (simp add: sleep_duration_ms_def Let_def)
  ultimately show ?thesis by (cases "unat i div n * 1000 \<le> BASE_INTERVAL_MS") (simp_all add: le_max_iff_disj)
qed

text \<open>A hub that records the messages it is given and answers every request, for the witnesses.\<close>

definition recording_hub :: "bool \<Rightarrow> (nat, unit, (nat, unit) message list) hub_api" where
  "recording_hub up =
     \<lparr>hub_channel = (\<lambda>w. ((), w)), hub_send = (\<lambda>msg t w. (Inr (), w @ [msg])),
      hub_recv = (\<lambda>ch t w. (if up then Inr (True, JNull, None) else Inl Recv_Timeout, w)),
      hub_next_id = (\<lambda>w. (1, w)), hub_system_now = length, hub_instant_now = length\<rparr>"

lemma hub_records_recording: "hub_records (recording_hub up) (\<lambda>w. w)"
  by (simp add: hub_records_def recording_hub_def)

section \<open>Properties\<close>

text \<open>C26: In every k rounds over the device list the worker asks each device for its status and broadcasts
  its heartbeat once per round, in the order of the configuration, whatever the devices answer.\<close>

theorem devices_checked_in_turn:
  assumes "hub_records hub log" and "cfg_devices c \<noteq> []"
    and "heartbeat_run hub (k * length (cfg_devices c)) (heartbeat_worker_new c) states w = (events, sleep, hb', states', w')"
  shows "status_requests (log w') = status_requests (log w) @ concat (replicate k (map dev_id (cfg_devices c))) \<and>
     heartbeats (log w') = heartbeats (log w) @ concat (replicate k (map dev_id (cfg_devices c)))"
  using heartbeat_run_log [OF assms(1) _ assms(3)] map_nth_mod [of "map dev_id (cfg_devices c)" k] assms(2)
  by (simp_all add: heartbeat_worker_new_def)

theorem devices_checked_in_turn_witness:
  "heartbeats (snd (snd (snd (snd (heartbeat_run (recording_hub True) (2 * 2)
     (heartbeat_worker_new (sample_config [''a'', ''b''])) [] []))))) = [''a'', ''b'', ''a'', ''b'']"
proof -
  let ?c = "sample_config [''a'', ''b'']"
  have l: "length (cfg_devices ?c) = 2" "map dev_id (cfg_devices ?c) = [''a'', ''b'']"
    by (simp_all add: sample_config_def sample_device_def)
  obtain ev sl hb' st' w' where r: "heartbeat_run (recording_hub True) (2 * length (cfg_devices ?c))
      (heartbeat_worker_new ?c) [] [] = (ev, sl, hb', st', w')"
    by (metis surj_pair)
  have "cfg_devices ?c \<noteq> []" using l by auto
  from devices_checked_in_turn [OF hub_records_recording this r] r l show ?thesis
    by (simp add: heartbeats_def numeral_2_eq_2)
qed

text \<open>C25: Over any number of rounds the events of a device are exactly the changes of its connected flag,
  each pushed once and in order, and the table keeps its devices and their counters.\<close>

theorem events_follow_status:
  assumes "heartbeat_run hub m hb states w = (events, sleep, hb', states', w')" and "map_of states k = Some st"
  shows "map fst states' = map fst states \<and>
     (\<exists>st'. map_of states' k = Some st' \<and>
        follow (ds_connected st) (events_of k events) = Some (ds_connected st') \<and>
        ds_error_count st' = ds_error_count st \<and> ds_reconnect_count st' = ds_reconnect_count st)"
  using heartbeat_run_keys [OF assms(1)] heartbeat_run_status [OF assms] by blast

theorem events_follow_status_witness:
  "\<exists>st'. map_of (fst (snd (snd (snd (heartbeat_run (recording_hub False) 3
       (heartbeat_worker_new (sample_config [''a'', ''b''])) [(''a'', (initial_status 0)\<lparr>ds_connected := True\<rparr>)] []))))) ''a''
     = Some st' \<and> ds_error_count st' = 0"
proof -
  let ?s = "(initial_status 0)\<lparr>ds_connected := True\<rparr>"
  obtain ev sl hb' st' w' where r: "heartbeat_run (recording_hub False) 3
      (heartbeat_worker_new (sample_config [''a'', ''b''])) [(''a'', ?s)] [] = (ev, sl, hb', st', w')"
    by (metis surj_pair)
  from events_follow_status [OF r, of "''a''" ?s] r show ?thesis by (auto simp: initial_status_def)
qed

text \<open>Apart from the time the checks themselves take, a round over all devices takes no longer than the
  heartbeat interval of any of them, or a tenth of a second per device when that is more.\<close>

theorem round_within_interval:
  assumes "d \<in> set (cfg_devices c)"
    and "heartbeat_run hub (length (cfg_devices c)) (heartbeat_worker_new c) states w = (events, sleep, hb', states', w')"
  shows "sleep + length (cfg_devices c) * 100 \<le>
     max (unat (dev_heartbeat_interval_sec d) * 1000) (length (cfg_devices c) * 100)"
proof -
  let ?n = "length (cfg_devices c)" and ?i = "min_interval (cfg_devices c)"
  have ne: "cfg_devices c \<noteq> []" using assms(1) by auto
  have "sleep = ?n * sleep_duration_ms ?i ?n"
    using heartbeat_run_sleep [OF assms(2)] ne by (simp add: heartbeat_worker_new_def)
  then have "sleep + ?n * 100 = ?n * (sleep_duration_ms ?i ?n + BASE_INTERVAL_MS)"
    by (simp add: BASE_INTERVAL_MS_def algebra_simps)
  also have "\<dots> \<le> max (unat ?i * 1000) (?n * 100)"
    using sleep_duration_bound [of ?n ?i] ne by (simp add: BASE_INTERVAL_MS_def)
  also have "\<dots> \<le> max (unat (dev_heartbeat_interval_sec d) * 1000) (?n * 100)"
    using min_interval_le [OF assms(1)] by (auto simp: word_le_nat_alt max_def)
  finally show ?thesis .
qed

theorem round_within_interval_witness:
  "fst (snd (heartbeat_run (recording_hub True) 2 (heartbeat_worker_new (sample_config [''a'', ''b''])) [] [])) + 200
     \<le> 30000"
proof -
  let ?c = "sample_config [''a'', ''b'']"
  have l: "length (cfg_devices ?c) = 2" by (simp add: sample_config_def)
  have d: "sample_device ''a'' [] \<in> set (cfg_devices ?c)" by (simp add: sample_config_def)
  obtain ev sl hb' st' w' where r: "heartbeat_run (recording_hub True) (length (cfg_devices ?c))
      (heartbeat_worker_new ?c) [] [] = (ev, sl, hb', st', w')"
    by (metis surj_pair)
  from round_within_interval [OF d r] r l show ?thesis by (simp add: sample_device_def default_heartbeat_interval_def)
qed

end
