(* ===== verification/Latency_Monitor.thy ===== *)
theory Latency_Monitor
  imports Complex_Main Messages
begin

text \<open>
  \<open>src/workers/latency_monitor.rs\<close>: the sliding window of latencies of each device, its mean and
  variance kept by Welford's method, and the detection of anomalies.  The \<open>f64\<close> arithmetic and the
  format \<open>{:.2}\<close> are the record \<open>float_ops\<close>: what the lemmas state of the windows holds for every
  arithmetic, what they state of mean and variance for the exact one, \<open>real_ops\<close>
  (\<open>Latency_Float\<close> has the one of \<open>f64\<close>).
\<close>

section \<open>Arithmetic\<close>

record 'r float_ops =
  fl_of_u64 :: "u64 \<Rightarrow> 'r"
  fl_zero :: 'r
  fl_one :: 'r
  fl_add :: "'r \<Rightarrow> 'r \<Rightarrow> 'r"
  fl_sub :: "'r \<Rightarrow> 'r \<Rightarrow> 'r"
  fl_mul :: "'r \<Rightarrow> 'r \<Rightarrow> 'r"
  fl_div :: "'r \<Rightarrow> 'r \<Rightarrow> 'r"
  fl_sqrt :: "'r \<Rightarrow> 'r"
  fl_le :: "'r \<Rightarrow> 'r \<Rightarrow> bool"
  fl_less :: "'r \<Rightarrow> 'r \<Rightarrow> bool"
  fl_fixed2 :: "'r \<Rightarrow> string"
  fl_sigma_threshold :: 'r

definition LATENCY_WINDOW :: nat where "LATENCY_WINDOW = 100"
definition MIN_ANOMALY_SAMPLES :: nat where "MIN_ANOMALY_SAMPLES = 10"

section \<open>The statistics of a device\<close>

record 'r latency_stats =
  lat_samples :: "u64 list"
  lat_mean :: 'r
  lat_count :: 'r
  lat_m2 :: 'r

definition latency_stats_new :: "'r float_ops \<Rightarrow> 'r latency_stats" where
  "latency_stats_new fl =
     \<lparr>lat_samples = [], lat_mean = fl_zero fl, lat_count = fl_zero fl, lat_m2 = fl_zero fl\<rparr>"

definition remove_sample_welford :: "'r float_ops \<Rightarrow> u64 \<Rightarrow> 'r latency_stats \<Rightarrow> 'r latency_stats" where
  "remove_sample_welford fl old s =
     (if fl_le fl (lat_count s) (fl_one fl)
      then s\<lparr>lat_count := fl_zero fl, lat_mean := fl_zero fl, lat_m2 := fl_zero fl\<rparr>
      else let x = fl_of_u64 fl old;
               delta = fl_sub fl x (lat_mean s);
               count = fl_sub fl (lat_count s) (fl_one fl);
               mean = fl_sub fl (lat_mean s) (fl_div fl delta count);
               delta2 = fl_sub fl x mean
           in s\<lparr>lat_count := count, lat_mean := mean, lat_m2 := fl_sub fl (lat_m2 s) (fl_mul fl delta delta2)\<rparr>)"

definition pop_oldest :: "'r float_ops \<Rightarrow> 'r latency_stats \<Rightarrow> 'r latency_stats" where
  "pop_oldest fl s =
     (if LATENCY_WINDOW \<le> length (lat_samples s)
      then case lat_samples s of
             [] \<Rightarrow> s
           | old # rest \<Rightarrow> remove_sample_welford fl old (s\<lparr>lat_samples := rest\<rparr>)
      else s)"

definition add_sample :: "'r float_ops \<Rightarrow> u64 \<Rightarrow> 'r latency_stats \<Rightarrow> 'r latency_stats" where
  "add_sample fl latency_us s =
     (let s1 = pop_oldest fl s;
          x = fl_of_u64 fl latency_us;
          count = fl_add fl (lat_count s1) (fl_one fl);
          delta = fl_sub fl x (lat_mean s1);
          mean = fl_add fl (lat_mean s1) (fl_div fl delta count);
          delta2 = fl_sub fl x mean
      in s1\<lparr>lat_samples := lat_samples s1 @ [latency_us], lat_count := count, lat_mean := mean,
            lat_m2 := fl_add fl (lat_m2 s1) (fl_mul fl delta delta2)\<rparr>)"

definition std_dev :: "'r float_ops \<Rightarrow> 'r latency_stats \<Rightarrow> 'r" where
  "std_dev fl s =
     (if fl_less fl (fl_zero fl) (lat_count s) then fl_sqrt fl (fl_div fl (lat_m2 s) (lat_count s)) else fl_zero fl)"

definition anomaly_threshold :: "'r float_ops \<Rightarrow> 'r latency_stats \<Rightarrow> 'r option" where
  "anomaly_threshold fl s =
     (if length (lat_samples s) < MIN_ANOMALY_SAMPLES then None
      else Some (fl_add fl (lat_mean s) (fl_mul fl (fl_sigma_threshold fl) (std_dev fl s))))"

definition is_anomaly :: "'r float_ops \<Rightarrow> u64 \<Rightarrow> 'r latency_stats \<Rightarrow> bool" where
  "is_anomaly fl latency_us s =
     (case anomaly_threshold fl s of
        Some threshold \<Rightarrow> fl_less fl threshold (fl_of_u64 fl latency_us)
      | None \<Rightarrow> False)"

section \<open>The monitor\<close>

type_synonym 'r latency_monitor = "string \<rightharpoonup> 'r latency_stats"

definition latency_monitor_new :: "'r latency_monitor" where
  "latency_monitor_new = Map.empty"

definition process_latency_sample ::
  "'r float_ops \<Rightarrow> string \<Rightarrow> u64 \<Rightarrow> u64 \<Rightarrow> 'r latency_monitor \<Rightarrow> device_event option \<times> 'r latency_monitor" where
  "process_latency_sample fl device_id latency_us timestamp_ms m =
     (let stats = (case m device_id of Some s \<Rightarrow> s | None \<Rightarrow> latency_stats_new fl);
          threshold = anomaly_threshold fl stats;
          anomaly = is_anomaly fl latency_us stats;
          stats' = add_sample fl latency_us stats
      in (if \<not> anomaly then None
          else Some \<lparr>de_device_id = device_id, de_event_type = EvError, de_timestamp_ms = timestamp_ms,
                 de_details = ''Latency anomaly: '' @ show_nat (unat latency_us) @ ''us exceeds ''
                   @ fl_fixed2 fl (case threshold of Some t \<Rightarrow> t | None \<Rightarrow> fl_zero fl) @ ''us (mean ''
                   @ fl_fixed2 fl (lat_mean stats') @ ''us, '' @ map char_of [0xCF, 0x83 :: nat] @ '' ''
                   @ fl_fixed2 fl (std_dev fl stats') @ ''us)''\<rparr>,
          m(device_id \<mapsto> stats')))"

text \<open>The messages of the hub, one after the other, with the events pushed.\<close>

fun latency_monitor_run ::
  "'r float_ops \<Rightarrow> ('n, 'ch) message list \<Rightarrow> 'r latency_monitor \<Rightarrow> device_event list \<times> 'r latency_monitor" where
  "latency_monitor_run fl [] m = ([], m)"
| "latency_monitor_run fl (DeviceHeartbeat device_id timestamp_ms latency_us # msgs) m =
     (let (ev, m1) = process_latency_sample fl device_id latency_us timestamp_ms m;
          (evs, m') = latency_monitor_run fl msgs m1
      in (case ev of Some e \<Rightarrow> e # evs | None \<Rightarrow> evs, m'))"
| "latency_monitor_run fl (msg # msgs) m = latency_monitor_run fl msgs m"

section \<open>Lemmas\<close>

subsection \<open>The window, for every arithmetic\<close>

definition last_window :: "u64 list \<Rightarrow> u64 list" where
  "last_window xs = drop (length xs - LATENCY_WINDOW) xs"

definition feed :: "'r float_ops \<Rightarrow> u64 list \<Rightarrow> 'r latency_stats" where
  "feed fl xs = fold (add_sample fl) xs (latency_stats_new fl)"

lemma feed_Nil [simp]: "feed fl [] = latency_stats_new fl"
  and feed_snoc [simp]: "feed fl (xs @ [x]) = add_sample fl x (feed fl xs)"
  by (simp_all add: feed_def)

lemma remove_sample_samples [simp]: "lat_samples (remove_sample_welford fl old s) = lat_samples s"
  by (simp add: remove_sample_welford_def Let_def)

lemma pop_oldest_samples:
  "lat_samples (pop_oldest fl s) = (if LATENCY_WINDOW \<le> length (lat_samples s) then tl (lat_samples s) else lat_samples s)"
  by (auto simp: pop_oldest_def split: list.split)

lemma length_last_window: "length (last_window xs) = min (length xs) LATENCY_WINDOW"
  by (simp add: last_window_def)

lemma last_window_snoc:
  "last_window (xs @ [x]) = (if LATENCY_WINDOW \<le> length xs then tl (last_window xs) else last_window xs) @ [x]"
proof (cases "LATENCY_WINDOW \<le> length xs")
  case True
  then have "length (xs @ [x]) - LATENCY_WINDOW = Suc (length xs - LATENCY_WINDOW)" by (simp add: Suc_diff_le)
  with True show ?thesis by (simp only: last_window_def) (simp add: tl_drop drop_Suc LATENCY_WINDOW_def)
qed (auto simp: last_window_def LATENCY_WINDOW_def)

lemma feed_samples: "lat_samples (feed fl xs) = last_window xs"
proof (induction xs rule: rev_induct)
  case (snoc x xs)
  then show ?case
    by (simp add: add_sample_def Let_def pop_oldest_samples last_window_snoc length_last_window)
qed (simp add: latency_stats_new_def last_window_def)

text \<open>The latencies of one device among the messages.\<close>

fun latency_of :: "string \<Rightarrow> ('n, 'ch) message \<Rightarrow> u64 list" where
  "latency_of d (DeviceHeartbeat d' ts lat) = (if d' = d then [lat] else [])"
| "latency_of d _ = []"

definition latencies :: "string \<Rightarrow> ('n, 'ch) message list \<Rightarrow> u64 list" where
  "latencies d msgs = concat (map (latency_of d) msgs)"

lemma latencies_Cons [simp]: "latencies d (m # msgs) = latency_of d m @ latencies d msgs"
  and latencies_Nil [simp]: "latencies d [] = []"
  by (simp_all add: latencies_def)

definition stats_of :: "'r float_ops \<Rightarrow> 'r latency_monitor \<Rightarrow> string \<Rightarrow> 'r latency_stats" where
  "stats_of fl m d = (case m d of Some s \<Rightarrow> s | None \<Rightarrow> latency_stats_new fl)"

lemma process_stats:
  "stats_of fl (snd (process_latency_sample fl d lat ts m)) d' =
     (if d' = d then add_sample fl lat (stats_of fl m d) else stats_of fl m d')"
  by (simp add: process_latency_sample_def stats_of_def Let_def)

lemma run_stats:
  "stats_of fl (snd (latency_monitor_run fl msgs m)) d = fold (add_sample fl) (latencies d msgs) (stats_of fl m d)"
proof (induction fl msgs m rule: latency_monitor_run.induct)
  case (2 fl device_id timestamp_ms latency_us msgs m)
  obtain ev m1 where p: "process_latency_sample fl device_id latency_us timestamp_ms m = (ev, m1)"
    by (cases "process_latency_sample fl device_id latency_us timestamp_ms m")
  have "snd (latency_monitor_run fl (DeviceHeartbeat device_id timestamp_ms latency_us # msgs) m)
      = snd (latency_monitor_run fl msgs m1)"
    by (simp add: p split_beta)
  with 2 [OF p [symmetric]] process_stats [of fl device_id latency_us timestamp_ms m d] p show ?case
    by (simp add: p split_beta)
qed simp_all

lemma run_feed: "stats_of fl (snd (latency_monitor_run fl msgs latency_monitor_new)) d = feed fl (latencies d msgs)"
proof -
  have "stats_of fl latency_monitor_new d = latency_stats_new fl" by (simp add: stats_of_def latency_monitor_new_def)
  then show ?thesis by (simp add: run_stats feed_def)
qed

lemma process_event:
  "fst (process_latency_sample fl d lat ts m) \<noteq> None \<longleftrightarrow> is_anomaly fl lat (stats_of fl m d)"
  by (simp add: process_latency_sample_def stats_of_def Let_def)

subsection \<open>Exact arithmetic\<close>

definition real_ops :: "(real \<Rightarrow> string) \<Rightarrow> real float_ops" where
  "real_ops fixed2 =
     \<lparr>fl_of_u64 = (\<lambda>x. real (unat x)), fl_zero = 0, fl_one = 1, fl_add = (+), fl_sub = (-), fl_mul = (*),
      fl_div = (/), fl_sqrt = sqrt, fl_le = (\<le>), fl_less = (<), fl_fixed2 = fixed2, fl_sigma_threshold = 3\<rparr>"

definition sum_of :: "u64 list \<Rightarrow> real" where
  "sum_of xs = (\<Sum>x\<leftarrow>xs. real (unat x))"

definition squares_of :: "u64 list \<Rightarrow> real" where
  "squares_of xs = (\<Sum>x\<leftarrow>xs. (real (unat x))\<^sup>2)"

definition mean_of :: "u64 list \<Rightarrow> real" where
  "mean_of xs = sum_of xs / real (length xs)"

definition variance_of :: "u64 list \<Rightarrow> real" where
  "variance_of xs = (\<Sum>x\<leftarrow>xs. (real (unat x) - mean_of xs)\<^sup>2) / real (length xs)"

text \<open>The state of the statistics of a list, with the deviations in the form the updates preserve.\<close>

definition exact :: "u64 list \<Rightarrow> real latency_stats \<Rightarrow> bool" where
  "exact xs s \<longleftrightarrow> lat_count s = real (length xs) \<and> lat_count s * lat_mean s = sum_of xs \<and>
     (xs = [] \<longrightarrow> lat_mean s = 0) \<and> lat_m2 s = squares_of xs - lat_count s * (lat_mean s)\<^sup>2"

lemma deviations: "(\<Sum>x\<leftarrow>xs. (real (unat x) - c)\<^sup>2) = squares_of xs - 2 * c * sum_of xs + real (length xs) * c\<^sup>2"
  by (induction xs) (simp_all add: squares_of_def sum_of_def power2_eq_square algebra_simps)

lemma exact_mean: "exact xs s \<Longrightarrow> lat_mean s = mean_of xs"
  by (cases xs) (auto simp: exact_def mean_of_def sum_of_def field_simps)

lemma exact_variance: "exact xs s \<Longrightarrow> lat_m2 s = real (length xs) * variance_of xs"
proof -
  assume e: "exact xs s"
  have "sum_of xs = real (length xs) * mean_of xs" using e exact_mean [OF e] unfolding exact_def by metis
  moreover have "lat_m2 s = squares_of xs - real (length xs) * (mean_of xs)\<^sup>2"
    using e exact_mean [OF e] by (simp add: exact_def)
  ultimately have "lat_m2 s = squares_of xs - 2 * mean_of xs * sum_of xs + real (length xs) * (mean_of xs)\<^sup>2"
    by (simp add: power2_eq_square algebra_simps)
  also have "\<dots> = (\<Sum>x\<leftarrow>xs. (real (unat x) - mean_of xs)\<^sup>2)" by (rule deviations [symmetric])
  finally show ?thesis by (cases xs) (simp_all add: variance_of_def)
qed

lemma welford_add:
  fixes m x n :: real
  assumes "n + 1 \<noteq> 0" and "m' = m + (x - m) / (n + 1)"
  shows "(n + 1) * m' = n * m + x" and "(x - m) * (x - m') = x\<^sup>2 - (n + 1) * m'\<^sup>2 + n * m\<^sup>2"
proof -
  show m': "(n + 1) * m' = n * m + x" using assms by (simp add: field_simps)
  have "(n + 1) * m'\<^sup>2 = (n * m + x) * m'" by (simp only: power2_eq_square mult.assoc [symmetric] m')
  moreover have "m * ((n + 1) * m') = m * (n * m + x)" by (simp only: m')
  ultimately show "(x - m) * (x - m') = x\<^sup>2 - (n + 1) * m'\<^sup>2 + n * m\<^sup>2"
    by (simp add: power2_eq_square algebra_simps)
qed

lemma welford_remove:
  fixes m x n :: real
  assumes "n - 1 \<noteq> 0" and "m' = m - (x - m) / (n - 1)"
  shows "(n - 1) * m' = n * m - x" and "(x - m) * (x - m') = x\<^sup>2 - n * m\<^sup>2 + (n - 1) * m'\<^sup>2"
proof -
  show m': "(n - 1) * m' = n * m - x" using assms by (simp add: field_simps)
  have "(n - 1) * m'\<^sup>2 = (n * m - x) * m'" by (simp only: power2_eq_square mult.assoc [symmetric] m')
  moreover have "m * ((n - 1) * m') = m * (n * m - x)" by (simp only: m')
  ultimately show "(x - m) * (x - m') = x\<^sup>2 - n * m\<^sup>2 + (n - 1) * m'\<^sup>2"
    by (simp add: power2_eq_square algebra_simps)
qed

lemma exact_remove:
  assumes "exact (old # xs) s" and "xs \<noteq> []"
  shows "exact xs (remove_sample_welford (real_ops f) old s)"
proof -
  let ?n = "lat_count s" and ?m = "lat_mean s" and ?x = "real (unat old)"
  define m' where "m' = ?m - (?x - ?m) / (?n - 1)"
  have n: "?n - 1 = real (length xs)" and s: "?n * ?m = ?x + sum_of xs"
    and q: "lat_m2 s = ?x\<^sup>2 + squares_of xs - ?n * ?m\<^sup>2"
    using assms(1) by (auto simp: exact_def sum_of_def squares_of_def)
  have n1: "?n - 1 \<noteq> 0" "\<not> ?n \<le> 1" using n assms(2) by (cases xs, auto)+
  note w = welford_remove [OF n1(1) m'_def]
  have "remove_sample_welford (real_ops f) old s =
      s\<lparr>lat_count := ?n - 1, lat_mean := m', lat_m2 := lat_m2 s - (?x - ?m) * (?x - m')\<rparr>"
    using n1 by (simp add: remove_sample_welford_def real_ops_def Let_def m'_def)
  then show ?thesis
    using assms(2) n s q w by (simp add: exact_def)
qed

lemma exact_push:
  assumes "exact xs s" and "length (lat_samples s) < LATENCY_WINDOW"
  shows "exact (xs @ [x]) (add_sample (real_ops f) x s)"
proof -
  let ?n = "lat_count s" and ?m = "lat_mean s" and ?x = "real (unat x)"
  define m' where "m' = ?m + (?x - ?m) / (?n + 1)"
  have n: "?n = real (length xs)" and s: "?n * ?m = sum_of xs" and q: "lat_m2 s = squares_of xs - ?n * ?m\<^sup>2"
    using assms(1) by (auto simp: exact_def)
  have n1: "?n + 1 \<noteq> 0" using n by linarith
  note w = welford_add [OF n1 m'_def]
  have "add_sample (real_ops f) x s =
      s\<lparr>lat_samples := lat_samples s @ [x], lat_count := ?n + 1, lat_mean := m', lat_m2 := lat_m2 s + (?x - ?m) * (?x - m')\<rparr>"
    using assms(2) by (simp add: add_sample_def pop_oldest_def real_ops_def Let_def m'_def)
  then show ?thesis
    using n s q w by (simp add: exact_def sum_of_def squares_of_def)
qed

lemma exact_samples: "exact xs (s\<lparr>lat_samples := ys\<rparr>) = exact xs s"
  by (simp add: exact_def)

lemma exact_pop:
  assumes "exact (lat_samples s) s" and "length (lat_samples s) \<le> LATENCY_WINDOW"
  shows "exact (lat_samples (pop_oldest (real_ops f) s)) (pop_oldest (real_ops f) s)"
proof (cases "LATENCY_WINDOW \<le> length (lat_samples s)")
  case True
  then obtain old xs where xs: "lat_samples s = old # xs" "xs \<noteq> []"
    by (cases "lat_samples s"; cases "tl (lat_samples s)") (auto simp: LATENCY_WINDOW_def)
  have "exact (old # xs) (s\<lparr>lat_samples := xs\<rparr>)" using assms(1) unfolding xs(1) exact_samples .
  from exact_remove [OF this xs(2)] True xs(1) show ?thesis by (simp add: pop_oldest_def)
qed (use assms(1) in \<open>simp add: pop_oldest_def\<close>)

lemma add_sample_pop: "add_sample fl x s = add_sample fl x (pop_oldest fl s)"
  if "length (lat_samples s) \<le> LATENCY_WINDOW"
proof -
  have "length (lat_samples (pop_oldest fl s)) < LATENCY_WINDOW"
    using that by (auto simp: pop_oldest_samples LATENCY_WINDOW_def)
  then have "pop_oldest fl (pop_oldest fl s) = pop_oldest fl s" by (subst pop_oldest_def) simp
  then show ?thesis by (simp add: add_sample_def)
qed

lemma feed_exact: "exact (last_window xs) (feed (real_ops f) xs)"
proof (induction xs rule: rev_induct)
  case Nil
  show ?case by (simp add: exact_def last_window_def latency_stats_new_def real_ops_def sum_of_def squares_of_def)
next
  case (snoc x xs)
  let ?s = "feed (real_ops f) xs" and ?p = "pop_oldest (real_ops f) (feed (real_ops f) xs)"
  have le: "length (lat_samples ?s) \<le> LATENCY_WINDOW" by (simp add: feed_samples length_last_window)
  have "exact (lat_samples ?p) ?p" using snoc le by (intro exact_pop) (simp_all add: feed_samples)
  moreover have "length (lat_samples ?p) < LATENCY_WINDOW"
    using le by (auto simp: pop_oldest_samples LATENCY_WINDOW_def)
  ultimately have "exact (lat_samples ?p @ [x]) (add_sample (real_ops f) x ?p)" by (rule exact_push)
  moreover have "lat_samples ?p @ [x] = last_window (xs @ [x])"
    by (simp add: pop_oldest_samples feed_samples length_last_window last_window_snoc)
  ultimately show ?case using add_sample_pop [OF le, of "real_ops f" x] by simp
qed

lemma feed_std_dev: "std_dev (real_ops f) (feed (real_ops f) xs) = sqrt (variance_of (last_window xs))"
proof -
  have "lat_count (feed (real_ops f) xs) = real (length (last_window xs))"
    using feed_exact [of xs f] by (simp add: exact_def)
  with exact_variance [OF feed_exact [of xs f]] show ?thesis
    by (cases "last_window xs") (simp_all add: std_dev_def real_ops_def variance_of_def)
qed

lemma is_anomaly_iff:
  "is_anomaly (real_ops f) lat (feed (real_ops f) xs) \<longleftrightarrow>
     10 \<le> length xs \<and> mean_of (last_window xs) + 3 * sqrt (variance_of (last_window xs)) < real (unat lat)"
proof -
  have "length (last_window xs) < MIN_ANOMALY_SAMPLES \<longleftrightarrow> length xs < 10"
    by (auto simp: length_last_window MIN_ANOMALY_SAMPLES_def LATENCY_WINDOW_def)
  then show ?thesis
    using exact_mean [OF feed_exact [of xs f]] feed_std_dev [of f xs]
    by (auto simp: is_anomaly_def anomaly_threshold_def feed_samples real_ops_def)
qed

section \<open>Properties\<close>

text \<open>C21: In exact arithmetic the monitor reports a latency of a device exactly when it has seen at least
  ten of it and the latency exceeds the mean of the last hundred by more than three standard deviations
  of these, whatever heartbeats of other devices came in between.\<close>

theorem anomaly_iff_three_sigma:
  "let ws = last_window (latencies d msgs);
       m = snd (latency_monitor_run (real_ops f) msgs latency_monitor_new)
   in fst (process_latency_sample (real_ops f) d lat ts m) \<noteq> None \<longleftrightarrow>
        10 \<le> length (latencies d msgs) \<and> mean_of ws + 3 * sqrt (variance_of ws) < real (unat lat)"
  unfolding Let_def process_event run_feed by (rule is_anomaly_iff)

text \<open>Whatever the arithmetic, the monitor keeps of each device its last hundred latencies, in order,
  and reports none of its first ten.\<close>

theorem windows_are_bounded:
  "let m = snd (latency_monitor_run fl msgs latency_monitor_new) in
     lat_samples (stats_of fl m d) = last_window (latencies d msgs) \<and>
     length (lat_samples (stats_of fl m d)) = min (length (latencies d msgs)) 100 \<and>
     (length (latencies d msgs) < 10 \<longrightarrow> fst (process_latency_sample fl d lat ts m) = None)"
proof -
  have "\<not> is_anomaly fl lat (feed fl xs)" if "length xs < 10" for xs
    using that by (simp add: is_anomaly_def anomaly_threshold_def feed_samples length_last_window min_def
        MIN_ANOMALY_SAMPLES_def LATENCY_WINDOW_def)
  then show ?thesis
    unfolding Let_def run_feed using process_event [of fl d lat ts "snd (latency_monitor_run fl msgs latency_monitor_new)"]
    by (auto simp: feed_samples length_last_window LATENCY_WINDOW_def run_feed)
qed

theorem windows_are_bounded_witness:
  "fst (process_latency_sample (real_ops (\<lambda>x. [])) ''plc'' 9000 1
      (snd (latency_monitor_run (real_ops (\<lambda>x. []))
        [DeviceHeartbeat ''plc'' 1 100, DeviceHeartbeat ''arm'' 1 7 :: (unit, unit) message] latency_monitor_new))) = None"
proof -
  let ?msgs = "[DeviceHeartbeat ''plc'' 1 100, DeviceHeartbeat ''arm'' 1 7 :: (unit, unit) message]"
  from windows_are_bounded [of "real_ops (\<lambda>x. [])" ?msgs "''plc''" 9000 1] show ?thesis
    unfolding Let_def by simp
qed

end
