(* ===== verification/Float_Arith.thy ===== *)
theory Float_Arith
  imports Float_Bits
begin

text \<open>
  The arithmetic of Rust's \<open>f64\<close>: addition, subtraction, multiplication, division and square root of
  IEEE 754 binary64, rounded to nearest with ties to even, and the comparisons.  The operations compute
  the exact result as an integer times a power of two, with a sticky bit where it has no end, and round
  it once.  A NaN result is the quiet NaN; its sign and payload are open in Rust, and no lemma depends
  on them.

  The lemmas show that a NaN is passed on and compares with nothing, and that counting by one is exact.
\<close>

section \<open>Values\<close>

text \<open>The value of a finite \<open>x\<close> is the significand times two to the power of \<open>f64_scale x\<close>, with the
  sign \<open>f64_neg x\<close>.\<close>

definition f64_scale :: "f64 \<Rightarrow> int" where
  "f64_scale x = int (max (f64_exp x) 1) - 1075"

definition f64_nan :: f64 where
  "f64_nan = f64_make False (2047 * 2 ^ 52 + 2 ^ 51)"

definition f64_inf :: "bool \<Rightarrow> f64" where
  "f64_inf neg = f64_make neg (2047 * 2 ^ 52)"

definition f64_is_inf :: "f64 \<Rightarrow> bool" where
  "f64_is_inf x \<longleftrightarrow> f64_exp x = 2047 \<and> f64_frac x = 0"

text \<open>\<open>n * 2 ^ e\<close> rounded.  \<open>q\<close> is the weight of the last place, so that the rounded integer has 53 bits,
  fewer for a subnormal result; the carry of rounding up runs into the exponent.\<close>

definition f64_round :: "bool \<Rightarrow> nat \<Rightarrow> int \<Rightarrow> f64" where
  "f64_round neg n e =
     (if n = 0 then f64_make neg 0
      else let q = max (int (bit_len n) + e - 53) (- 1074);
               m = (if q \<le> e then n * 2 ^ nat (e - q) else round_shift n (nat (q - e)))
           in f64_make neg (min (nat (q + 1074) * 2 ^ 52 + m) (2047 * 2 ^ 52)))"

definition f64_signed :: "f64 \<Rightarrow> int \<Rightarrow> int" where
  "f64_signed x e =
     (let m = int (f64_significand x) * 2 ^ nat (f64_scale x - e) in if f64_neg x then - m else m)"

section \<open>Operations\<close>

definition f64_negate :: "f64 \<Rightarrow> f64" where
  "f64_negate x = f64_make (\<not> f64_neg x) (unat (f64_bits x) mod 2 ^ 63)"

definition f64_add :: "f64 \<Rightarrow> f64 \<Rightarrow> f64" where
  "f64_add x y =
     (if f64_is_nan x \<or> f64_is_nan y then f64_nan
      else if f64_is_inf x then (if f64_is_inf y \<and> f64_neg x \<noteq> f64_neg y then f64_nan else x)
      else if f64_is_inf y then y
      else if f64_is_zero x then (if f64_is_zero y then f64_make (f64_neg x \<and> f64_neg y) 0 else y)
      else if f64_is_zero y then x
      else let e = min (f64_scale x) (f64_scale y);
               z = f64_signed x e + f64_signed y e
           in if z = 0 then f64_make False 0 else f64_round (z < 0) (nat \<bar>z\<bar>) e)"

definition f64_sub :: "f64 \<Rightarrow> f64 \<Rightarrow> f64" where
  "f64_sub x y = (if f64_is_nan y then f64_nan else f64_add x (f64_negate y))"

definition f64_mul :: "f64 \<Rightarrow> f64 \<Rightarrow> f64" where
  "f64_mul x y =
     (let neg = (f64_neg x \<noteq> f64_neg y) in
      if f64_is_nan x \<or> f64_is_nan y then f64_nan
      else if f64_is_inf x \<or> f64_is_inf y
      then (if f64_is_zero x \<or> f64_is_zero y then f64_nan else f64_inf neg)
      else f64_round neg (f64_significand x * f64_significand y) (f64_scale x + f64_scale y))"

text \<open>A quotient is computed to at least 55 bits; the last bit says that it goes on.\<close>

definition f64_div :: "f64 \<Rightarrow> f64 \<Rightarrow> f64" where
  "f64_div x y =
     (let neg = (f64_neg x \<noteq> f64_neg y) in
      if f64_is_nan x \<or> f64_is_nan y then f64_nan
      else if f64_is_inf x then (if f64_is_inf y then f64_nan else f64_inf neg)
      else if f64_is_inf y then f64_make neg 0
      else if f64_is_zero y then (if f64_is_zero x then f64_nan else f64_inf neg)
      else let s = 55 + bit_len (f64_significand y);
               n = f64_significand x * 2 ^ s; d = f64_significand y
           in f64_round neg (2 * (n div d) + (if n mod d = 0 then 0 else 1))
                (f64_scale x - f64_scale y - int s - 1))"

definition isqrt_step :: "nat \<Rightarrow> nat \<Rightarrow> nat" where
  "isqrt_step n r = (if (r + 1) * (r + 1) \<le> n then r + 1 else r)"

fun isqrt :: "nat \<Rightarrow> nat" where
  "isqrt n = (if n = 0 then 0 else isqrt_step n (2 * isqrt (n div 4)))"

declare isqrt.simps [simp del]

definition f64_sqrt :: "f64 \<Rightarrow> f64" where
  "f64_sqrt x =
     (if f64_is_nan x then f64_nan
      else if f64_is_zero x then x
      else if f64_neg x then f64_nan
      else if f64_is_inf x then x
      else let e = f64_scale x - 120 + (if even (f64_scale x) then 0 else 1);
               n = f64_significand x * 2 ^ nat (f64_scale x - e); r = isqrt n
           in f64_round False (2 * r + (if r * r = n then 0 else 1)) (e div 2 - 1))"

text \<open>The order of the numbers; the two zeros are equal.\<close>

definition f64_rank :: "f64 \<Rightarrow> int" where
  "f64_rank x = (let m = int (unat (f64_bits x) mod 2 ^ 63) in if f64_neg x then - m else m)"

definition f64_less :: "f64 \<Rightarrow> f64 \<Rightarrow> bool" where
  "f64_less x y \<longleftrightarrow> \<not> f64_is_nan x \<and> \<not> f64_is_nan y \<and> f64_rank x < f64_rank y"

definition f64_le :: "f64 \<Rightarrow> f64 \<Rightarrow> bool" where
  "f64_le x y \<longleftrightarrow> \<not> f64_is_nan x \<and> \<not> f64_is_nan y \<and> f64_rank x \<le> f64_rank y"

section \<open>NaN\<close>

lemma f64_nan_is_nan [simp]: "f64_is_nan f64_nan"
  by (simp add: f64_nan_def f64_is_nan_def)

lemma nan_passed_on [simp]:
  "f64_is_nan x \<or> f64_is_nan y \<Longrightarrow> f64_is_nan (f64_add x y)"
  "f64_is_nan x \<or> f64_is_nan y \<Longrightarrow> f64_is_nan (f64_mul x y)"
  "f64_is_nan x \<or> f64_is_nan y \<Longrightarrow> f64_is_nan (f64_div x y)"
  by (auto simp: f64_add_def f64_mul_def f64_div_def Let_def)

lemma nan_unordered: "f64_is_nan x \<Longrightarrow> \<not> f64_less x y"
  by (simp add: f64_less_def)

lemma sqrt_negative:
  "f64_neg x \<Longrightarrow> \<not> f64_is_zero x \<Longrightarrow> f64_is_nan (f64_sqrt x)"
  by (simp add: f64_sqrt_def)

lemma isqrt_floor: "isqrt n * isqrt n \<le> n \<and> n < (isqrt n + 1) * (isqrt n + 1)"
proof (induction n rule: isqrt.induct)
  case (1 n)
  show ?case
  proof (cases "n = 0")
    case False
    define q where "q = isqrt (n div 4)"
    have q: "q * q \<le> n div 4" "n div 4 < (q + 1) * (q + 1)" using "1" False by (simp_all add: q_def)
    then have "4 * (q * q) \<le> n" "n < 4 * ((q + 1) * (q + 1))" by linarith+
    moreover have "isqrt n = (if (2 * q + 1) * (2 * q + 1) \<le> n then 2 * q + 1 else 2 * q)"
      using False by (simp add: isqrt.simps [of n] q_def isqrt_step_def)
    ultimately show ?thesis by (auto simp: algebra_simps)
  qed (simp add: isqrt.simps)
qed

section \<open>Counting\<close>

lemma bit_len_double: "0 < n \<Longrightarrow> bit_len (2 * n) = Suc (bit_len n)"
  by (subst bit_len.simps) simp

lemma bit_len_shift: "0 < n \<Longrightarrow> bit_len (n * 2 ^ j) = bit_len n + j"
proof (induction j)
  case (Suc j)
  then have "bit_len (2 * (n * 2 ^ j)) = Suc (bit_len (n * 2 ^ j))" by (intro bit_len_double) simp
  with Suc show ?case by (simp add: ac_simps)
qed simp

lemma bit_len_le: "0 < n \<Longrightarrow> n < 2 ^ k \<Longrightarrow> bit_len n \<le> k"
proof -
  assume n: "0 < n" "n < 2 ^ k"
  from bit_len_bounds [OF n(1)] n(2) have "(2 :: nat) ^ (bit_len n - 1) < 2 ^ k" by linarith
  then show ?thesis by (simp add: power_less_imp_less_exp [of 2])
qed

text \<open>An integer, given in units of \<open>2 ^ (- 52)\<close>, is rounded to itself.\<close>

lemma f64_round_of_nat:
  assumes "1 < n" and "n < 2 ^ 53"
  shows "f64_round False (n * 2 ^ 52) (- 52) = f64_of_nat n"
proof -
  define K where "K = bit_len n"
  have b: "2 ^ (K - 1) \<le> n" "n < 2 ^ K" "0 < K" using bit_len_bounds [of n] assms(1) by (simp_all add: K_def)
  have K: "2 \<le> K" "K \<le> 53"
    using assms b bit_len_le [of n 53] by (cases "K = 1"; simp add: K_def)+
  have e: "n * 2 ^ 52 = (n * 2 ^ (53 - K)) * 2 ^ (K - 1)" using K by (simp flip: power_add)
  have "n * 2 ^ (53 - K) < 2 ^ K * 2 ^ (53 - K)" using b(2) by simp
  also have "\<dots> = 2 ^ 53" using K by (simp flip: power_add)
  finally have m: "n * 2 ^ (53 - K) < 2 ^ 53" .
  have "(K + 1021) * 2 ^ 52 \<le> 1074 * 2 ^ 52" using K(2) by (intro mult_right_mono) simp_all
  with m have le: "(K + 1021) * 2 ^ 52 + n * 2 ^ (53 - K) \<le> 2047 * 2 ^ 52" by simp
  have c: "bit_len (n * 2 ^ 52) = K + 52" "(n * 2 ^ 52 = 0) = False" "(int K - 53 \<le> - 52) = False"
    using assms(1) bit_len_shift [of n 52] K by (simp_all add: K_def)
  have q: "max (int (K + 52) + - 52 - 53) (- 1074) = int K - 53" "nat (int K - 53 - - 52) = K - 1"
    "nat (int K - 53 + 1074) = K + 1021" using K by auto
  have "round_shift (n * 2 ^ 52) (K - 1) = n * 2 ^ (53 - K)" unfolding e by (rule round_shift_exact)
  then have "f64_round False (n * 2 ^ 52) (- 52) = f64_make False ((K + 1021) * 2 ^ 52 + n * 2 ^ (53 - K))"
    by (simp only: f64_round_def Let_def c q if_False min_absorb1 [OF le])
  also have "\<dots> = f64_of_nat n"
  proof -
    have "K - 1 \<le> 52" "K - 1 + 1022 = K + 1021" "52 - (K - 1) = 53 - K" "(n = 0) = False"
      using K assms(1) by simp_all
    then show ?thesis by (simp only: f64_of_nat_def Let_def K_def [symmetric] if_True if_False)
  qed
  finally show ?thesis .
qed

text \<open>The exact parts of a small natural number.\<close>

lemma f64_of_nat_parts:
  assumes "0 < n" and "n < 2 ^ 53"
  shows "\<not> f64_neg (f64_of_nat n)" "f64_exp (f64_of_nat n) < 2047" "0 < f64_significand (f64_of_nat n)"
    "- 52 \<le> f64_scale (f64_of_nat n)" "f64_signed (f64_of_nat n) (- 52) = int n * 2 ^ 52"
proof -
  from f64_of_nat_fields [OF assms] obtain k where k: "k \<le> 52"
    and M: "2 ^ 52 \<le> n * 2 ^ (52 - k)" "n * 2 ^ (52 - k) < 2 ^ 53"
    and x: "f64_of_nat n = f64_make False ((k + 1022) * 2 ^ 52 + n * 2 ^ (52 - k))"
    by blast
  define r where "r = n * 2 ^ (52 - k) - 2 ^ 52"
  have r: "n * 2 ^ (52 - k) = 2 ^ 52 + r" "r < 2 ^ 52" using M by (simp_all add: r_def)
  have "f64_of_nat n = f64_make False ((k + 1023) * 2 ^ 52 + r)"
    unfolding x r(1) by (simp add: algebra_simps)
  then have f: "\<not> f64_neg (f64_of_nat n)" "f64_exp (f64_of_nat n) = k + 1023" "f64_frac (f64_of_nat n) = r"
    using f64_make_parts [of "k + 1023" r False] r(2) k by simp_all
  have sg: "f64_significand (f64_of_nat n) = n * 2 ^ (52 - k)" using f r by (simp add: f64_significand_def)
  have sc: "f64_scale (f64_of_nat n) = int k - 52" using f by (simp add: f64_scale_def)
  show "\<not> f64_neg (f64_of_nat n)" "f64_exp (f64_of_nat n) < 2047" "0 < f64_significand (f64_of_nat n)"
    "- 52 \<le> f64_scale (f64_of_nat n)"
    using f k sg sc assms(1) by simp_all
  have "nat (int k - 52 - - 52) = k" by simp
  moreover have "(2 :: int) ^ (52 - k) * 2 ^ k = 2 ^ 52" using k by (simp flip: power_add)
  ultimately show "f64_signed (f64_of_nat n) (- 52) = int n * 2 ^ 52"
    using f(1) sc sg by (simp add: f64_signed_def Let_def mult.assoc)
qed

lemma f64_add_one:
  assumes "0 < n" and "n < 2 ^ 52"
  shows "f64_add (f64_of_nat n) (f64_of_nat 1) = f64_of_nat (Suc n)"
proof -
  have n: "n < 2 ^ 53" using assms(2) by simp
  note x = f64_of_nat_parts [OF assms(1) n] and y = f64_of_nat_parts [of 1, simplified]
  have one: "f64_scale (f64_of_nat 1) = - 52"
    by (simp add: f64_of_nat_def bit_len.simps f64_scale_def)
  define N where "N = Suc n * 2 ^ 52"
  have z: "f64_signed (f64_of_nat n) (- 52) + f64_signed (f64_of_nat 1) (- 52) = int N" "0 < N"
    using x(5) y(5) by (simp_all add: N_def)
  have fin: "\<not> f64_is_nan (f64_of_nat n)" "\<not> f64_is_nan (f64_of_nat 1)" "\<not> f64_is_inf (f64_of_nat n)"
    "\<not> f64_is_inf (f64_of_nat 1)" "\<not> f64_is_zero (f64_of_nat n)" "\<not> f64_is_zero (f64_of_nat 1)"
    using x(2,3) y(2,3) by (auto simp: f64_is_nan_def f64_is_inf_def f64_is_zero_def f64_significand_def split: if_splits)
  have m: "min (f64_scale (f64_of_nat n)) (f64_scale (f64_of_nat 1)) = - 52" using x(4) one by simp
  have "f64_add (f64_of_nat n) (f64_of_nat 1) = f64_round False N (- 52)"
    using fin z(2) unfolding f64_add_def Let_def m z(1) by simp
  also have "\<dots> = f64_of_nat (Suc n)" unfolding N_def using assms by (intro f64_round_of_nat) simp_all
  finally show ?thesis .
qed

end
