(* ===== verification/Latency_Float.thy ===== *)
theory Latency_Float
  imports Latency_Monitor Float_Arith
begin

text \<open>
  The latency monitor with the \<open>f64\<close> arithmetic it runs with, rounding included; the format \<open>{:.2}\<close> of
  a number stays a parameter.

  The lemmas follow the statistics through a window whose values leave the exact ones: a variance of
  zero that rounding makes negative, the square root of which is a NaN.
\<close>

definition ieee_ops :: "(f64 \<Rightarrow> string) \<Rightarrow> f64 float_ops" where
  "ieee_ops fixed2 =
     \<lparr>fl_of_u64 = (\<lambda>x. f64_of_nat (unat x)), fl_zero = f64_of_nat 0, fl_one = f64_of_nat 1, fl_add = f64_add,
      fl_sub = f64_sub, fl_mul = f64_mul, fl_div = f64_div, fl_sqrt = f64_sqrt, fl_le = f64_le, fl_less = f64_less,
      fl_fixed2 = fixed2, fl_sigma_threshold = f64_of_nat 3\<rparr>"

section \<open>A negative variance\<close>

text \<open>Nothing clamps \<open>m2\<close> at zero: below it the threshold is a NaN, which no latency exceeds.\<close>

lemma negative_m2_blinds:
  assumes "f64_is_nan (f64_sqrt (f64_div (lat_m2 s) (lat_count s)))" and "f64_less (f64_of_nat 0) (lat_count s)"
  shows "\<not> is_anomaly (ieee_ops fixed2) lat s"
  using assms
  by (simp add: is_anomaly_def anomaly_threshold_def std_dev_def ieee_ops_def nan_unordered)

section \<open>Evaluation\<close>

text \<open>The operations are evaluated up to the rounding, then the rounding.\<close>

lemmas f64_eval =
  f64_add_def f64_sub_def f64_mul_def f64_div_def f64_negate_def f64_le_def f64_less_def f64_rank_def bit_len.simps
  f64_make_def f64_nan_def f64_is_nan_def f64_is_inf_def f64_is_zero_def f64_exp_def f64_frac_def f64_signed_def
  f64_scale_def f64_significand_def f64_neg_def Let_def

lemmas f64_eval_round = f64_round_def round_shift_def bit_len.simps f64_make_def Let_def

text \<open>The numbers that occur as bit patterns, and what the operations make of them: while 80 and 120 come
  in, while only 100 comes in, when 80 leaves and when 120 leaves.\<close>

lemma small_numbers:
  "f64_of_nat 0 = F64 0" "f64_of_nat 1 = F64 4607182418800017408" "f64_of_nat 2 = F64 4611686018427387904"
  "f64_of_nat (Suc 0) = F64 4607182418800017408" "f64_of_nat 3 = F64 4613937818241073152"
  "f64_of_nat 80 = F64 4635329916471083008" "f64_of_nat 99 = F64 4636666922610458624"
  "f64_of_nat 100 = F64 4636737291354636288" "f64_of_nat 120 = F64 4638144666238189568"
  "f64_of_nat 800 = F64 4650248090236747776"
  by (simp_all add: f64_of_nat_def f64_make_def bit_len.simps round_shift_def Let_def)

lemma ops_first:
  "f64_add (F64 0) (F64 4607182418800017408) = F64 4607182418800017408"
  "f64_sub (F64 4635329916471083008) (F64 0) = F64 4635329916471083008"
  "f64_div (F64 4635329916471083008) (F64 4607182418800017408) = F64 4635329916471083008"
  "f64_add (F64 0) (F64 4635329916471083008) = F64 4635329916471083008"
  "f64_sub (F64 4635329916471083008) (F64 4635329916471083008) = F64 0"
  "f64_mul (F64 4635329916471083008) (F64 0) = F64 0"
  "f64_add (F64 0) (F64 0) = F64 0"
  "f64_add (F64 4607182418800017408) (F64 4607182418800017408) = F64 4611686018427387904"
  "f64_sub (F64 4638144666238189568) (F64 4635329916471083008) = F64 4630826316843712512"
  "f64_div (F64 4630826316843712512) (F64 4611686018427387904) = F64 4626322717216342016"
  "f64_add (F64 4635329916471083008) (F64 4626322717216342016) = F64 4636737291354636288"
  "f64_sub (F64 4638144666238189568) (F64 4636737291354636288) = F64 4626322717216342016"
  "f64_mul (F64 4630826316843712512) (F64 4626322717216342016) = F64 4650248090236747776"
  "f64_add (F64 0) (F64 4650248090236747776) = F64 4650248090236747776"
  by (simp add: f64_eval, (simp add: f64_eval_round)?)+

lemma ops_steady:
  "f64_add (F64 4636666922610458624) (F64 4607182418800017408) = F64 4636737291354636288"
  "f64_sub (F64 4636737291354636288) (F64 4636737291354636288) = F64 0"
  "f64_div (F64 0) (F64 4636737291354636288) = F64 0"
  "f64_add (F64 4636737291354636288) (F64 0) = F64 4636737291354636288"
  "f64_mul (F64 0) (F64 0) = F64 0"
  "f64_add (F64 4650248090236747776) (F64 0) = F64 4650248090236747776"
  by (simp add: f64_eval, (simp add: f64_eval_round)?)+

lemma ops_80_leaves:
  "f64_sub (F64 4635329916471083008) (F64 4636737291354636288) = F64 13849694754071117824"
  "f64_sub (F64 4636737291354636288) (F64 4607182418800017408) = F64 4636666922610458624"
  "f64_div (F64 13849694754071117824) (F64 4636666922610458624) = F64 13819818601997627185"
  "f64_sub (F64 4636737291354636288) (F64 13819818601997627185) = F64 4636751507262550968"
  "f64_sub (F64 4635329916471083008) (F64 4636751507262550968) = F64 13849751617702776544"
  "f64_mul (F64 13849694754071117824) (F64 13849751617702776544) = F64 4645815570148950680"
  "f64_sub (F64 4650248090236747776) (F64 4645815570148950680) = F64 4645673411069803880"
  "f64_sub (F64 4636737291354636288) (F64 4636751507262550968) = F64 13819818601997627392"
  "f64_div (F64 13819818601997627392) (F64 4636737291354636288) = F64 13790176728086570598"
  "f64_add (F64 4636751507262550968) (F64 13790176728086570598) = F64 4636751365103471821"
  "f64_sub (F64 4636737291354636288) (F64 4636751365103471821) = F64 13819745816549104128"
  "f64_mul (F64 13819818601997627392) (F64 13819745816549104128) = F64 4585983656917647443"
  "f64_add (F64 4645673411069803880) (F64 4585983656917647443) = F64 4645674121865199614"
  by (simp add: f64_eval, (simp add: f64_eval_round)?)+

lemma ops_120_leaves:
  "f64_sub (F64 4638144666238189568) (F64 4636751365103471821) = F64 4626266422220999884"
  "f64_div (F64 4626266422220999884) (F64 4636666922610458624) = F64 4596373779694328217"
  "f64_sub (F64 4636751365103471821) (F64 4596373779694328217) = F64 4636737291354636288"
  "f64_mul (F64 4626266422220999884) (F64 4626322717216342016) = F64 4645674121865199615"
  "f64_sub (F64 4645674121865199614) (F64 4645674121865199615) = F64 13632396072050491392"
  "f64_add (F64 13632396072050491392) (F64 0) = F64 13632396072050491392"
  by (simp add: f64_eval, (simp add: f64_eval_round)?)+

lemma ops_stable:
  "f64_div (F64 0) (F64 4636666922610458624) = F64 0"
  "f64_sub (F64 4636737291354636288) (F64 0) = F64 4636737291354636288"
  "f64_sub (F64 13632396072050491392) (F64 0) = F64 13632396072050491392"
  by (simp add: f64_eval, (simp add: f64_eval_round)?)+

lemma counts_compared:
  "\<not> f64_le (F64 4636737291354636288) (F64 4607182418800017408)" "f64_less (F64 0) (F64 4636737291354636288)"
  by (simp_all add: f64_eval)

lemmas f64_table = small_numbers ops_first ops_steady ops_80_leaves ops_120_leaves ops_stable counts_compared

lemma zero_div_count:
  assumes "0 < n" and "n < 2 ^ 53"
  shows "f64_div (F64 0) (f64_of_nat n) = F64 0"
proof -
  note x = f64_of_nat_parts [OF assms]
  have "\<not> f64_is_nan (f64_of_nat n)" "\<not> f64_is_inf (f64_of_nat n)" "\<not> f64_is_zero (f64_of_nat n)"
    using x(2,3) by (auto simp: f64_is_nan_def f64_is_inf_def f64_is_zero_def f64_significand_def split: if_splits)
  moreover have "\<not> f64_is_nan (F64 0)" "\<not> f64_is_inf (F64 0)" "f64_significand (F64 0) = 0" "\<not> f64_neg (F64 0)"
    by (simp_all add: f64_is_nan_def f64_is_inf_def f64_significand_def f64_exp_def f64_frac_def f64_neg_def)
  ultimately show ?thesis
    using x(1) by (simp add: f64_div_def Let_def f64_round_def f64_make_def)
qed

section \<open>A window that loses its spread\<close>

lemma first_two:
  "add_sample (ieee_ops fixed2) 120 (add_sample (ieee_ops fixed2) 80 (latency_stats_new (ieee_ops fixed2))) =
     \<lparr>lat_samples = [80, 120], lat_mean = f64_of_nat 100, lat_count = f64_of_nat 2, lat_m2 = f64_of_nat 800\<rparr>"
  by (simp add: add_sample_def pop_oldest_def latency_stats_new_def ieee_ops_def LATENCY_WINDOW_def Let_def f64_table)

lemma steady:
  assumes "0 < n" and "n < 100" and "length xs = n"
  shows "add_sample (ieee_ops fixed2) 100
       \<lparr>lat_samples = xs, lat_mean = f64_of_nat 100, lat_count = f64_of_nat n, lat_m2 = f64_of_nat 800\<rparr> =
     \<lparr>lat_samples = xs @ [100], lat_mean = f64_of_nat 100, lat_count = f64_of_nat (Suc n), lat_m2 = f64_of_nat 800\<rparr>"
  using assms f64_add_one [of n] zero_div_count [of "Suc n"]
  by (simp add: add_sample_def pop_oldest_def ieee_ops_def LATENCY_WINDOW_def Let_def f64_table)

text \<open>The oldest sample leaves: first 80, then 120, then always 100.\<close>

lemma full_window:
  assumes "length xs = 99"
  shows "add_sample (ieee_ops fixed2) 100
       \<lparr>lat_samples = 80 # xs, lat_mean = f64_of_nat 100, lat_count = f64_of_nat 100, lat_m2 = f64_of_nat 800\<rparr> =
     \<lparr>lat_samples = xs @ [100], lat_mean = F64 4636751365103471821, lat_count = f64_of_nat 100,
      lat_m2 = F64 4645674121865199614\<rparr>"
    and "add_sample (ieee_ops fixed2) 100
       \<lparr>lat_samples = 120 # xs, lat_mean = F64 4636751365103471821, lat_count = f64_of_nat 100,
        lat_m2 = F64 4645674121865199614\<rparr> =
     \<lparr>lat_samples = xs @ [100], lat_mean = f64_of_nat 100, lat_count = f64_of_nat 100, lat_m2 = F64 13632396072050491392\<rparr>"
    and "add_sample (ieee_ops fixed2) 100
       \<lparr>lat_samples = 100 # xs, lat_mean = f64_of_nat 100, lat_count = f64_of_nat 100, lat_m2 = F64 13632396072050491392\<rparr> =
     \<lparr>lat_samples = xs @ [100], lat_mean = f64_of_nat 100, lat_count = f64_of_nat 100, lat_m2 = F64 13632396072050491392\<rparr>"
  using assms
  by (simp_all add: add_sample_def pop_oldest_def remove_sample_welford_def ieee_ops_def LATENCY_WINDOW_def
      Let_def f64_table)

text \<open>The latencies: 80, 120 and then only 100.\<close>

definition settled :: "nat \<Rightarrow> u64 list" where
  "settled n = 80 # 120 # replicate n 100"

lemma settled_Suc: "settled (Suc n) = settled n @ [100]"
  by (simp add: settled_def replicate_append_same)

lemma feed_filling:
  "n \<le> 98 \<Longrightarrow> feed (ieee_ops fixed2) (settled n) =
     \<lparr>lat_samples = settled n, lat_mean = f64_of_nat 100, lat_count = f64_of_nat (n + 2), lat_m2 = f64_of_nat 800\<rparr>"
proof (induction n)
  case 0
  show ?case using first_two [of fixed2] by (simp add: feed_def settled_def numeral_2_eq_2)
next
  case (Suc n)
  then show ?case using steady [of "n + 2" "settled n" fixed2] by (simp add: settled_Suc) (simp add: settled_def)
qed

lemma feed_settled:
  "feed (ieee_ops fixed2) (settled (100 + n)) =
     \<lparr>lat_samples = replicate 100 100, lat_mean = f64_of_nat 100, lat_count = f64_of_nat 100,
      lat_m2 = F64 13632396072050491392\<rparr>"
proof (induction n)
  case 0
  have full: "replicate 98 100 @ [100 :: u64] = replicate 99 100" "replicate 99 100 @ [100 :: u64] = replicate 100 100"
    by (simp_all add: replicate_append_same flip: replicate_Suc)
  have "settled 100 = settled 98 @ [100] @ [100]" using settled_Suc [of 98] settled_Suc [of 99] by simp
  then have "feed (ieee_ops fixed2) (settled 100) =
      add_sample (ieee_ops fixed2) 100 (add_sample (ieee_ops fixed2) 100 (feed (ieee_ops fixed2) (settled 98)))"
    by (simp add: feed_def)
  also have "\<dots> = add_sample (ieee_ops fixed2) 100 \<lparr>lat_samples = 120 # replicate 98 100 @ [100], lat_mean = F64 4636751365103471821,
      lat_count = f64_of_nat 100, lat_m2 = F64 4645674121865199614\<rparr>"
    using full_window(1) [of "120 # replicate 98 100" fixed2] feed_filling [of 98 fixed2] by (simp add: settled_def)
  finally show ?case using full_window(2) [of "replicate 99 100" fixed2] full by simp
next
  case (Suc n)
  have "replicate 99 100 @ [100 :: u64] = replicate 100 100" "replicate 100 100 = 100 # replicate 99 (100 :: u64)"
    by (simp_all add: replicate_append_same flip: replicate_Suc)
  with Suc full_window(3) [of "replicate 99 100" fixed2] settled_Suc [of "100 + n"] show ?case by simp
qed

lemma settled_blind: "\<not> is_anomaly (ieee_ops fixed2) lat (feed (ieee_ops fixed2) (settled (100 + n)))"
proof (rule negative_m2_blinds)
  let ?q = "f64_div (F64 13632396072050491392) (F64 4636737291354636288)"
  have q: "?q = F64 13602131882554561659"
    by (simp add: f64_eval, simp add: f64_eval_round)
  have "f64_neg ?q \<and> \<not> f64_is_zero ?q" unfolding q by (simp add: f64_neg_def f64_is_zero_def f64_exp_def f64_frac_def)
  then show "f64_is_nan (f64_sqrt (f64_div (lat_m2 (feed (ieee_ops fixed2) (settled (100 + n))))
      (lat_count (feed (ieee_ops fixed2) (settled (100 + n))))))"
    unfolding feed_settled by (simp add: small_numbers sqrt_negative)
qed (simp add: feed_settled small_numbers counts_compared)

text \<open>In exact arithmetic the same window has mean 100 and no spread.\<close>

lemma settled_window: "last_window (settled (100 + n)) = replicate 100 100"
proof -
  have "last_window (settled (100 + n)) = drop n (replicate (100 + n) 100)"
    by (simp add: last_window_def settled_def LATENCY_WINDOW_def)
  then show ?thesis by (simp only: drop_replicate) simp
qed

lemma settled_exact: "is_anomaly (real_ops fixed2) lat (feed (real_ops fixed2) (settled (100 + n))) \<longleftrightarrow> 100 < unat lat"
proof -
  have "sum_of (replicate k 100) = 100 * real k" for k by (induction k) (simp_all add: sum_of_def)
  then have "mean_of (replicate k 100) = 100" if "0 < k" for k using that by (simp add: mean_of_def)
  then have m: "mean_of (replicate 100 100) = 100" by simp
  have "(\<Sum>x\<leftarrow>replicate k (100 :: u64). (real (unat x) - 100)\<^sup>2) = 0" for k by (induction k) simp_all
  then have "variance_of (replicate 100 100) = 0" unfolding variance_of_def m by simp
  moreover have "10 \<le> length (settled (100 + n))" by (simp add: settled_def)
  moreover have "100 < real (unat lat) \<longleftrightarrow> 100 < unat lat" by linarith
  ultimately show ?thesis unfolding is_anomaly_iff settled_window m
    by (simp only: real_sqrt_zero mult_zero_right add_0_right simp_thms)
qed

lemma exact_monitor_sees:
  assumes "latencies d msgs = 80 # 120 # replicate (100 + n) 100"
  shows "fst (process_latency_sample (real_ops fixed2) d lat ts
       (snd (latency_monitor_run (real_ops fixed2) msgs latency_monitor_new))) \<noteq> None \<longleftrightarrow> 100 < unat lat"
proof -
  have l: "latencies d msgs = settled (100 + n)" using assms by (simp only: settled_def)
  show ?thesis unfolding process_event run_feed l by (rule settled_exact)
qed

section \<open>Property\<close>

text \<open>C28: Rounding blinds the monitor: when a device has answered in 80 us, then in 120 us and from then on in
  100 us, the \<open>f64\<close> arithmetic of the code has left a variance below zero, so that no latency whatever
  is reported, for as long as the latencies stay (in exact arithmetic every latency above 100 us would be,
  \<open>exact_monitor_sees\<close>).\<close>

theorem rounding_blinds_monitor:
  assumes "latencies d msgs = 80 # 120 # replicate (100 + n) 100"
  shows "fst (process_latency_sample (ieee_ops fixed2) d lat ts
       (snd (latency_monitor_run (ieee_ops fixed2) msgs latency_monitor_new))) = None"
proof -
  have l: "latencies d msgs = settled (100 + n)" using assms by (simp only: settled_def)
  have "\<not> fst (process_latency_sample (ieee_ops fixed2) d lat ts
       (snd (latency_monitor_run (ieee_ops fixed2) msgs latency_monitor_new))) \<noteq> None"
    unfolding process_event run_feed l by (rule settled_blind)
  then show ?thesis by blast
qed

text \<open>Ten seconds pass unnoticed.\<close>

theorem rounding_blinds_monitor_witness:
  "fst (process_latency_sample (ieee_ops (\<lambda>x. [])) ''plc'' 10000000 5
     (snd (latency_monitor_run (ieee_ops (\<lambda>x. []))
       (map (\<lambda>l. DeviceHeartbeat ''plc'' 1 l :: (unit, unit) message) (80 # 120 # replicate 100 100)) latency_monitor_new))) = None"
proof -
  have "latencies ''plc'' (map (\<lambda>l. DeviceHeartbeat ''plc'' 1 l :: (unit, unit) message) ls) = ls" for ls
    by (induction ls) (simp_all add: latencies_def)
  from rounding_blinds_monitor [of "''plc''" _ 0, unfolded add_0_right, OF this, of "\<lambda>x. []" 10000000 5]
  show ?thesis .
qed

end
