(* ===== verification/Mock_Server.thy ===== *)
theory Mock_Server
  imports Prelude
begin

text \<open>
  \<open>demo/mock_server.rs\<close>: the Modbus TCP server the middleware is tested against.  Requests and
  responses are bytes; the maps of registers and coils are partial functions.  The sockets, the accept
  loop and the printing are not modelled: a connection is the bytes it receives and sends.

  The sum of an address and an offset is checked or wraps with the build profile; \<open>checks\<close> says
  whether overflow checks are on (they are in the profile of \<open>cargo run\<close>, which the file documents).
  A request that panics holds the lock of the state, which is poisoned from then on.

  The lemmas describe the frames, the registers as one reads what one wrote, the packing of coils,
  and what a request out of range does.
\<close>

unbundle bit_operations_syntax

section \<open>Bytes\<close>

definition from_be_bytes :: "u8 \<Rightarrow> u8 \<Rightarrow> u16" where
  "from_be_bytes hi lo = push_bit 8 (ucast hi) OR ucast lo"

definition to_be_bytes :: "u16 \<Rightarrow> u8 list" where
  "to_be_bytes w = [ucast (drop_bit 8 w), ucast w]"

section \<open>State\<close>

definition READ_COILS :: u8 where "READ_COILS = 0x01"
definition READ_DISCRETE_INPUTS :: u8 where "READ_DISCRETE_INPUTS = 0x02"
definition READ_HOLDING_REGISTERS :: u8 where "READ_HOLDING_REGISTERS = 0x03"
definition READ_INPUT_REGISTERS :: u8 where "READ_INPUT_REGISTERS = 0x04"
definition WRITE_SINGLE_COIL :: u8 where "WRITE_SINGLE_COIL = 0x05"
definition WRITE_SINGLE_REGISTER :: u8 where "WRITE_SINGLE_REGISTER = 0x06"
definition WRITE_MULTIPLE_REGISTERS :: u8 where "WRITE_MULTIPLE_REGISTERS = 0x10"

definition ILLEGAL_FUNCTION :: u8 where "ILLEGAL_FUNCTION = 0x01"
definition ILLEGAL_DATA_VALUE :: u8 where "ILLEGAL_DATA_VALUE = 0x03"

record mock_state =
  holding_registers :: "u16 \<rightharpoonup> u16"
  input_registers :: "u16 \<rightharpoonup> u16"
  coils :: "u16 \<rightharpoonup> bool"
  discrete_inputs :: "u16 \<rightharpoonup> bool"
  request_count :: nat
  fail_next :: bool

definition mock_state_new :: mock_state where
  "mock_state_new =
     \<lparr>holding_registers = Map.empty, input_registers = Map.empty, coils = Map.empty,
      discrete_inputs = Map.empty, request_count = 0, fail_next = False\<rparr>"

section \<open>Responses\<close>

definition build_response :: "u16 \<Rightarrow> u8 \<Rightarrow> u8 list \<Rightarrow> u8 list" where
  "build_response tid unit_id data =
     to_be_bytes tid @ to_be_bytes 0 @ to_be_bytes (word_of_nat (length data + 1)) @ [unit_id] @ data"

definition build_exception_response :: "u16 \<Rightarrow> u8 \<Rightarrow> u8 \<Rightarrow> u8 \<Rightarrow> u8 list option" where
  "build_exception_response tid unit_id function_code exception_code =
     Some (build_response tid unit_id [function_code OR 0x80, exception_code])"

section \<open>Requests\<close>

text \<open>\<open>start_addr + i as u16\<close>\<close>

definition address_at :: "bool \<Rightarrow> u16 \<Rightarrow> nat \<Rightarrow> u16 outcome" where
  "address_at checks start i =
     (if checks \<and> 65536 \<le> unat start + unat (word_of_nat i :: u16) then Panic else Ret (start + word_of_nat i))"

fun read_words :: "bool \<Rightarrow> (u16 \<rightharpoonup> u16) \<Rightarrow> u16 \<Rightarrow> nat list \<Rightarrow> u8 list outcome" where
  "read_words checks m start [] = Ret []"
| "read_words checks m start (i # is) =
     bind_outcome (address_at checks start i) (\<lambda>addr.
       map_outcome (\<lambda>rest. to_be_bytes (case m addr of Some v \<Rightarrow> v | None \<Rightarrow> 0) @ rest)
         (read_words checks m start is))"

text \<open>The two handlers that read registers, which differ in the map and the code.\<close>

definition read_registers ::
  "bool \<Rightarrow> u8 \<Rightarrow> (u16 \<rightharpoonup> u16) \<Rightarrow> u16 \<Rightarrow> u8 \<Rightarrow> u8 list \<Rightarrow> u8 list option outcome" where
  "read_registers checks code m tid unit_id data =
     (if length data < 4 then Ret (build_exception_response tid unit_id code ILLEGAL_DATA_VALUE)
      else
        let start = from_be_bytes (data ! 0) (data ! 1);
            count = unat (from_be_bytes (data ! 2) (data ! 3))
        in if 125 < count then Ret (build_exception_response tid unit_id code ILLEGAL_DATA_VALUE)
           else map_outcome (\<lambda>bytes. Some (build_response tid unit_id ([code, word_of_nat (count * 2)] @ bytes)))
                  (read_words checks m start [0..<count]))"

definition handle_read_holding_registers where
  "handle_read_holding_registers checks tid unit_id data st =
     read_registers checks READ_HOLDING_REGISTERS (holding_registers st) tid unit_id data"

definition handle_read_input_registers where
  "handle_read_input_registers checks tid unit_id data st =
     read_registers checks READ_INPUT_REGISTERS (input_registers st) tid unit_id data"

definition handle_write_single_register ::
  "u16 \<Rightarrow> u8 \<Rightarrow> u8 list \<Rightarrow> mock_state \<Rightarrow> u8 list option \<times> mock_state" where
  "handle_write_single_register tid unit_id data st =
     (if length data < 4
      then (build_exception_response tid unit_id WRITE_SINGLE_REGISTER ILLEGAL_DATA_VALUE, st)
      else
        let addr = from_be_bytes (data ! 0) (data ! 1);
            val = from_be_bytes (data ! 2) (data ! 3)
        in (Some (build_response tid unit_id [WRITE_SINGLE_REGISTER, data ! 0, data ! 1, data ! 2, data ! 3]),
            st\<lparr>holding_registers := (holding_registers st)(addr \<mapsto> val)\<rparr>))"

text \<open>The loop keeps what it wrote before a panic.\<close>

fun write_words :: "bool \<Rightarrow> u8 list \<Rightarrow> u16 \<Rightarrow> nat list \<Rightarrow> (u16 \<rightharpoonup> u16) \<Rightarrow> unit outcome \<times> (u16 \<rightharpoonup> u16)" where
  "write_words checks data start [] m = (Ret (), m)"
| "write_words checks data start (i # is) m =
     (case address_at checks start i of
        Panic \<Rightarrow> (Panic, m)
      | Ret addr \<Rightarrow>
          let offset = 5 + i * 2 in
          if length data \<le> offset + 1 then (Panic, m)
          else write_words checks data start is (m(addr \<mapsto> from_be_bytes (data ! offset) (data ! (offset + 1)))))"

definition handle_write_multiple_registers ::
  "bool \<Rightarrow> u16 \<Rightarrow> u8 \<Rightarrow> u8 list \<Rightarrow> mock_state \<Rightarrow> u8 list option outcome \<times> mock_state" where
  "handle_write_multiple_registers checks tid unit_id data st =
     (let illegal = (Ret (build_exception_response tid unit_id WRITE_MULTIPLE_REGISTERS ILLEGAL_DATA_VALUE), st) in
      if length data < 5 then illegal
      else
        let start = from_be_bytes (data ! 0) (data ! 1);
            count = unat (from_be_bytes (data ! 2) (data ! 3));
            byte_count = unat (data ! 4)
        in if length data < 5 + byte_count \<or> count * 2 \<noteq> byte_count then illegal
           else
             let (r, m) = write_words checks data start [0..<count] (holding_registers st)
             in (map_outcome (\<lambda>_. Some (build_response tid unit_id
                   [WRITE_MULTIPLE_REGISTERS, data ! 0, data ! 1, data ! 2, data ! 3])) r,
                 st\<lparr>holding_registers := m\<rparr>))"

text \<open>One byte of packed bits, bit by bit; \<open>js\<close> are the bits that remain.\<close>

fun pack_byte :: "bool \<Rightarrow> (u16 \<rightharpoonup> bool) \<Rightarrow> u16 \<Rightarrow> nat \<Rightarrow> nat \<Rightarrow> nat list \<Rightarrow> u8 \<Rightarrow> u8 outcome" where
  "pack_byte checks m start count byte_idx [] byte_val = Ret byte_val"
| "pack_byte checks m start count byte_idx (bit_idx # js) byte_val =
     (let idx = byte_idx * 8 + bit_idx in
      if idx < count then
        bind_outcome (address_at checks start idx) (\<lambda>addr.
          pack_byte checks m start count byte_idx js
            (if m addr = Some True then byte_val OR push_bit bit_idx 1 else byte_val))
      else pack_byte checks m start count byte_idx js byte_val)"

fun pack_bytes :: "bool \<Rightarrow> (u16 \<rightharpoonup> bool) \<Rightarrow> u16 \<Rightarrow> nat \<Rightarrow> nat list \<Rightarrow> u8 list outcome" where
  "pack_bytes checks m start count [] = Ret []"
| "pack_bytes checks m start count (byte_idx # is) =
     bind_outcome (pack_byte checks m start count byte_idx [0..<8] 0) (\<lambda>b.
       map_outcome (\<lambda>bs. b # bs) (pack_bytes checks m start count is))"

definition read_bits ::
  "bool \<Rightarrow> u8 \<Rightarrow> (u16 \<rightharpoonup> bool) \<Rightarrow> u16 \<Rightarrow> u8 \<Rightarrow> u8 list \<Rightarrow> u8 list option outcome" where
  "read_bits checks code m tid unit_id data =
     (if length data < 4 then Ret (build_exception_response tid unit_id code ILLEGAL_DATA_VALUE)
      else
        let start = from_be_bytes (data ! 0) (data ! 1);
            count = unat (from_be_bytes (data ! 2) (data ! 3));
            byte_count = (count + 7) div 8
        in map_outcome (\<lambda>bytes. Some (build_response tid unit_id ([code, word_of_nat byte_count] @ bytes)))
             (pack_bytes checks m start count [0..<byte_count]))"

definition handle_read_coils where
  "handle_read_coils checks tid unit_id data st = read_bits checks READ_COILS (coils st) tid unit_id data"

definition handle_read_discrete_inputs where
  "handle_read_discrete_inputs checks tid unit_id data st =
     read_bits checks READ_DISCRETE_INPUTS (discrete_inputs st) tid unit_id data"

definition handle_write_single_coil ::
  "u16 \<Rightarrow> u8 \<Rightarrow> u8 list \<Rightarrow> mock_state \<Rightarrow> u8 list option \<times> mock_state" where
  "handle_write_single_coil tid unit_id data st =
     (if length data < 4
      then (build_exception_response tid unit_id WRITE_SINGLE_COIL ILLEGAL_DATA_VALUE, st)
      else
        let addr = from_be_bytes (data ! 0) (data ! 1);
            val = from_be_bytes (data ! 2) (data ! 3)
        in (Some (build_response tid unit_id [WRITE_SINGLE_COIL, data ! 0, data ! 1, data ! 2, data ! 3]),
            st\<lparr>coils := (coils st)(addr \<mapsto> val = 0xFF00)\<rparr>))"

definition process_request ::
  "bool \<Rightarrow> u16 \<Rightarrow> u8 \<Rightarrow> u8 list \<Rightarrow> mock_state \<Rightarrow> u8 list option outcome \<times> mock_state" where
  "process_request checks tid unit_id data st =
     (case data of
        [] \<Rightarrow> (Ret None, st)
      | function_code # args \<Rightarrow>
          if function_code = READ_HOLDING_REGISTERS
          then (handle_read_holding_registers checks tid unit_id args st, st)
          else if function_code = READ_INPUT_REGISTERS
          then (handle_read_input_registers checks tid unit_id args st, st)
          else if function_code = WRITE_SINGLE_REGISTER
          then apfst Ret (handle_write_single_register tid unit_id args st)
          else if function_code = WRITE_MULTIPLE_REGISTERS
          then handle_write_multiple_registers checks tid unit_id args st
          else if function_code = READ_COILS
          then (handle_read_coils checks tid unit_id args st, st)
          else if function_code = READ_DISCRETE_INPUTS
          then (handle_read_discrete_inputs checks tid unit_id args st, st)
          else if function_code = WRITE_SINGLE_COIL
          then apfst Ret (handle_write_single_coil tid unit_id args st)
          else (Ret (build_exception_response tid unit_id function_code ILLEGAL_FUNCTION), st))"

section \<open>The initial data\<close>

definition set_holding_register :: "u16 \<Rightarrow> u16 \<Rightarrow> mock_state \<Rightarrow> mock_state" where
  "set_holding_register addr val st = st\<lparr>holding_registers := (holding_registers st)(addr \<mapsto> val)\<rparr>"

definition init_demo_data :: "mock_state \<Rightarrow> mock_state" where
  "init_demo_data st = fold (\<lambda>(a, v). set_holding_register a v)
     [(100, 1500), (101, 1), (102, 1), (103, 0), (104, 0),
      (200, 0x41CC), (201, 0x0000), (202, 0x41F1), (203, 0x3333), (204, 65), (205, 1), (206, 0)] st"

section \<open>Connections\<close>

text \<open>The state behind its lock, which a panic of its holder poisons.\<close>

record mock_mutex =
  mx_state :: mock_state
  mx_poisoned :: bool

datatype connection_end = Stopped | Broken | Panicked

text \<open>A round of the loop: what was sent, how the connection ended or the bytes that are left, and the
  state.\<close>

definition mock_turn :: "bool \<Rightarrow> u8 list \<Rightarrow> mock_mutex \<Rightarrow> u8 list \<times> (connection_end + u8 list) \<times> mock_mutex" where
  "mock_turn checks input mx =
     (if length input < 7 then ([], Inl Broken, mx)
      else
        let header = take 7 input;
            input1 = drop 7 input;
            tid = from_be_bytes (header ! 0) (header ! 1);
            protocol_id = from_be_bytes (header ! 2) (header ! 3);
            len = unat (from_be_bytes (header ! 4) (header ! 5));
            unit_id = header ! 6
        in if protocol_id \<noteq> 0 then ([], Inr input1, mx)
           else if len = 0 then ([], Inl (if checks then Panicked else Broken), mx)
           else if 260 < len - 1 then ([], Inl Broken, mx)
           else if length input1 < len - 1 then ([], Inl Broken, mx)
           else if mx_poisoned mx then ([], Inl Panicked, mx)
           else
             let st = mx_state mx;
                 (r, st') = process_request checks tid unit_id (take (len - 1) input1)
                              (st\<lparr>request_count := request_count st + 1\<rparr>)
             in case r of
                  Panic \<Rightarrow> ([], Inl Panicked, \<lparr>mx_state = st', mx_poisoned = True\<rparr>)
                | Ret response \<Rightarrow>
                    (case response of Some bytes \<Rightarrow> bytes | None \<Rightarrow> [], Inr (drop (len - 1) input1),
                     mx\<lparr>mx_state := st'\<rparr>))"

text \<open>\<open>n\<close> is how many times the loop finds the server running; \<open>input\<close> the bytes the client sends, after
  which \<open>read_exact\<close> fails.  The result is what was sent, how the connection ended, and the state.\<close>

fun mock_handle_connection ::
  "bool \<Rightarrow> nat \<Rightarrow> u8 list \<Rightarrow> mock_mutex \<Rightarrow> u8 list \<times> connection_end \<times> mock_mutex" where
  "mock_handle_connection checks 0 input mx = ([], Stopped, mx)"
| "mock_handle_connection checks (Suc n) input mx =
     (case mock_turn checks input mx of
        (sent, Inl ending, mx1) \<Rightarrow> (sent, ending, mx1)
      | (sent, Inr input1, mx1) \<Rightarrow>
          let (more, ending, mx') = mock_handle_connection checks n input1 mx1
          in (sent @ more, ending, mx'))"

section \<open>Lemmas\<close>

subsection \<open>Bytes and frames\<close>

lemma from_to_be_bytes [simp]: "from_be_bytes (ucast (drop_bit 8 (w :: u16))) (ucast w) = w"
  by (rule bit_word_eqI) (auto simp: from_be_bytes_def bit_simps)

lemma from_be_bytes_zero [simp]: "from_be_bytes 0 0 = 0"
  by (simp add: from_be_bytes_def)

lemma length_to_be_bytes [simp]: "length (to_be_bytes w) = 2"
  by (simp add: to_be_bytes_def)

lemma length_build_response [simp]: "length (build_response tid u body) = 7 + length body"
  by (simp add: build_response_def)

lemma length_words [simp]: "length (concat (map to_be_bytes vs)) = 2 * length vs"
  by (induction vs) simp_all

lemma nth_words:
  "i < length vs \<Longrightarrow> from_be_bytes (concat (map to_be_bytes vs) ! (2 * i)) (concat (map to_be_bytes vs) ! (2 * i + 1)) = vs ! i"
proof (induction vs arbitrary: i)
  case (Cons v vs)
  show ?case
  proof (cases i)
    case 0
    then show ?thesis by (simp add: to_be_bytes_def)
  next
    case (Suc j)
    with Cons show ?thesis by (simp add: to_be_bytes_def)
  qed
qed simp

lemma small_word: "n < 65536 \<Longrightarrow> unat (word_of_nat n :: u16) = n"
  by (simp add: unat_of_nat take_bit_nat_eq_self)

lemma small_byte: "n < 256 \<Longrightarrow> unat (word_of_nat n :: u8) = n"
  by (simp add: unat_of_nat take_bit_nat_eq_self)

text \<open>One round of the loop on a request that is framed as the responses are.\<close>

lemma turn_request:
  assumes "length body \<le> 260" and "\<not> mx_poisoned mx"
    and "process_request checks tid u body ((mx_state mx)\<lparr>request_count := request_count (mx_state mx) + 1\<rparr>) = (r, st')"
  shows "mock_turn checks (build_response tid u body @ rest) mx =
     (case r of
        Panic \<Rightarrow> ([], Inl Panicked, \<lparr>mx_state = st', mx_poisoned = True\<rparr>)
      | Ret response \<Rightarrow>
          (case response of Some bytes \<Rightarrow> bytes | None \<Rightarrow> [], Inr rest, mx\<lparr>mx_state := st'\<rparr>))"
proof -
  define L :: u16 where "L = word_of_nat (length body + 1)"
  define h where "h = to_be_bytes tid @ to_be_bytes 0 @ to_be_bytes L @ [u]"
  have "take 7 (build_response tid u body @ rest) = h" "drop 7 (build_response tid u body @ rest) = body @ rest"
    by (simp_all add: build_response_def h_def L_def)
  moreover have "from_be_bytes (h ! 0) (h ! 1) = tid" "from_be_bytes (h ! 2) (h ! 3) = 0"
    "from_be_bytes (h ! 4) (h ! 5) = L" "h ! 6 = u"
    by (simp_all add: h_def to_be_bytes_def)
  moreover have "unat L = length body + 1"
    using assms(1) small_word [of "length body + 1"] by (simp only: L_def)
  ultimately show ?thesis
    using assms by (cases r) (simp_all add: mock_turn_def Let_def)
qed

lemma turn_empty: "mock_turn checks [] mx = ([], Inl Broken, mx)"
  by (simp add: mock_turn_def)

lemma turn_poisoned:
  "mx_poisoned mx \<Longrightarrow> fst (mock_turn checks input mx) = [] \<and> snd (snd (mock_turn checks input mx)) = mx"
  by (simp add: mock_turn_def Let_def)

subsection \<open>Ranges of registers\<close>

lemma address_at_ok: "unat start + i < 65536 \<Longrightarrow> address_at checks start i = Ret (start + word_of_nat i)"
  by (simp add: address_at_def small_word)

lemma read_words_ok:
  "\<forall>i \<in> set is. unat start + i < 65536 \<Longrightarrow>
     read_words checks m start is =
       Ret (concat (map to_be_bytes (map (\<lambda>i. case m (start + word_of_nat i) of Some v \<Rightarrow> v | None \<Rightarrow> 0) is)))"
  by (induction "is") (simp_all add: address_at_ok)

lemma write_words_ok:
  "\<forall>i \<in> set is. unat start + i < 65536 \<and> 6 + 2 * i < length data \<Longrightarrow>
     write_words checks data start is m =
       (Ret (), fold (\<lambda>i m. m(start + word_of_nat i \<mapsto> from_be_bytes (data ! (5 + 2 * i)) (data ! (6 + 2 * i)))) is m)"
proof (induction "is" arbitrary: m)
  case (Cons i "is")
  have "address_at checks start i = Ret (start + word_of_nat i)" "6 + 2 * i < length data"
    using Cons.prems by (simp_all add: address_at_ok)
  then show ?case using Cons.IH Cons.prems by (simp add: Let_def mult.commute [of i 2] fun_upd_def)
qed simp

subsection \<open>A memory of registers\<close>

text \<open>What the holding registers promise: a memory of words, 0 where nothing was written, on which a client
  writes one word, writes a block and reads a block.\<close>

datatype register_op = WriteOne u16 u16 | WriteMany u16 "u16 list" | ReadMany u16 nat

fun op_ok :: "register_op \<Rightarrow> bool" where
  "op_ok (WriteOne a v) = True"
| "op_ok (WriteMany a vs) = (length vs \<le> 123 \<and> unat a + length vs \<le> 65536)"
| "op_ok (ReadMany a k) = (k \<le> 125 \<and> unat a + k \<le> 65536)"

text \<open>The block starting at \<open>a\<close> is stored word by word.\<close>

definition store_block :: "u16 \<Rightarrow> u16 list \<Rightarrow> (u16 \<Rightarrow> u16) \<Rightarrow> (u16 \<Rightarrow> u16)" where
  "store_block a vs mem = (\<lambda>b. if a \<le> b \<and> unat b < unat a + length vs then vs ! (unat b - unat a) else mem b)"

fun memory_step :: "register_op \<Rightarrow> (u16 \<Rightarrow> u16) \<Rightarrow> u16 list \<times> (u16 \<Rightarrow> u16)" where
  "memory_step (WriteOne a v) mem = ([], mem(a := v))"
| "memory_step (WriteMany a vs) mem = ([], store_block a vs mem)"
| "memory_step (ReadMany a k) mem = (map (\<lambda>i. mem (a + word_of_nat i)) [0..<k], mem)"

text \<open>The bytes of an operation and of its answer.\<close>

fun op_body :: "register_op \<Rightarrow> u8 list" where
  "op_body (WriteOne a v) = [0x06] @ to_be_bytes a @ to_be_bytes v"
| "op_body (WriteMany a vs) =
     [0x10] @ to_be_bytes a @ to_be_bytes (word_of_nat (length vs)) @ [word_of_nat (2 * length vs)]
       @ concat (map to_be_bytes vs)"
| "op_body (ReadMany a k) = [0x03] @ to_be_bytes a @ to_be_bytes (word_of_nat k)"

fun answer_body :: "register_op \<Rightarrow> u16 list \<Rightarrow> u8 list" where
  "answer_body (WriteOne a v) r = [0x06] @ to_be_bytes a @ to_be_bytes v"
| "answer_body (WriteMany a vs) r = [0x10] @ to_be_bytes a @ to_be_bytes (word_of_nat (length vs))"
| "answer_body (ReadMany a k) r = [0x03, word_of_nat (2 * k)] @ concat (map to_be_bytes r)"

definition memory_of :: "mock_state \<Rightarrow> u16 \<Rightarrow> u16" where
  "memory_of st a = (case holding_registers st a of Some v \<Rightarrow> v | None \<Rightarrow> 0)"

lemmas request_defs = process_request_def handle_read_holding_registers_def read_registers_def
  handle_write_single_register_def handle_write_multiple_registers_def
  READ_HOLDING_REGISTERS_def READ_INPUT_REGISTERS_def WRITE_SINGLE_REGISTER_def WRITE_MULTIPLE_REGISTERS_def

lemma length_op_body: "op_ok op \<Longrightarrow> length (op_body op) \<le> 260"
  by (cases op) simp_all

lemma to_be_bytes_nth [simp]:
  "from_be_bytes (to_be_bytes w ! 0) (to_be_bytes w ! Suc 0) = w"
  by (simp add: to_be_bytes_def)

lemma memory_of_write:
  "memory_of (st\<lparr>holding_registers := (holding_registers st)(a \<mapsto> v)\<rparr>) = (memory_of st)(a := v)"
  by (simp add: memory_of_def fun_eq_iff)

lemma word_offset: "unat a + i < 65536 \<Longrightarrow> unat (a + word_of_nat i :: u16) = unat a + i"
  by (simp add: unat_word_ariths small_word)

lemma fold_store:
  "\<forall>i \<in> set is. unat (a :: u16) + i < 65536 \<Longrightarrow>
     fold (\<lambda>i m. m(a + word_of_nat i \<mapsto> f i)) is m b =
       (if a \<le> b \<and> unat b - unat a \<in> set is then Some (f (unat b - unat a)) else m b)"
proof (induction "is" arbitrary: m)
  case (Cons i "is")
  have b: "b = a + word_of_nat i \<longleftrightarrow> a \<le> b \<and> unat b - unat a = i"
  proof
    assume "b = a + word_of_nat i"
    then have "unat b = unat a + i" using Cons.prems word_offset [of a i] by simp
    then show "a \<le> b \<and> unat b - unat a = i" by (simp add: word_le_nat_alt)
  next
    assume "a \<le> b \<and> unat b - unat a = i"
    then have "unat b = unat a + i" by (metis le_add_diff_inverse word_le_nat_alt)
    then have "unat b = unat (a + word_of_nat i)" using Cons.prems word_offset [of a i] by simp
    then show "b = a + word_of_nat i" by (rule unsigned_word_eqI)
  qed
  show ?case
  proof (cases "a \<le> b \<and> unat b - unat a \<in> set is")
    case True
    with Cons show ?thesis by simp
  next
    case False
    with Cons b show ?thesis by auto
  qed
qed simp

lemma write_many:
  assumes "length vs \<le> 123" and "unat a + length vs \<le> 65536"
  defines "data \<equiv> tl (op_body (WriteMany a vs))"
  obtains m where
    "handle_write_multiple_registers checks tid u data st =
       (Ret (Some (build_response tid u (answer_body (WriteMany a vs) []))), st\<lparr>holding_registers := m\<rparr>)"
    "\<And>b. m b = (if a \<le> b \<and> unat b - unat a < length vs then Some (vs ! (unat b - unat a))
       else holding_registers st b)"
proof -
  let ?ws = "concat (map to_be_bytes vs)"
  define K :: u16 where "K = word_of_nat (length vs)"
  define B :: u8 where "B = word_of_nat (2 * length vs)"
  have K: "unat K = length vs" unfolding K_def using assms(1) by (intro small_word) simp
  have B: "unat B = 2 * length vs" unfolding B_def using assms(1) by (intro small_byte) simp
  have data: "data = to_be_bytes a @ to_be_bytes K @ [B] @ ?ws"
    by (simp add: data_def K_def B_def)
  have len: "length data = 5 + 2 * length vs" by (simp add: data)
  have heads: "from_be_bytes (data ! 0) (data ! 1) = a" "from_be_bytes (data ! 2) (data ! 3) = K" "data ! 4 = B"
    "[data ! 0, data ! 1, data ! 2, data ! 3] = to_be_bytes a @ to_be_bytes K"
    by (simp_all add: data to_be_bytes_def)
  have words: "from_be_bytes (data ! (5 + 2 * i)) (data ! (6 + 2 * i)) = vs ! i" if "i < length vs" for i
  proof -
    have "data ! (5 + 2 * i) = ?ws ! (2 * i)" "data ! (6 + 2 * i) = ?ws ! (2 * i + 1)"
      by (simp_all add: data nth_append numeral_eq_Suc)
    with nth_words [OF that] show ?thesis by simp
  qed
  define m where "m = fold (\<lambda>i m. m(a + word_of_nat i \<mapsto> vs ! i)) [0..<length vs] (holding_registers st)"
  have "write_words checks data a [0..<length vs] (holding_registers st) = (Ret (), m)"
  proof -
    have "fold (\<lambda>i m. m(a + word_of_nat i \<mapsto> from_be_bytes (data ! (5 + 2 * i)) (data ! (6 + 2 * i))))
        [0..<length vs] (holding_registers st) = m"
      unfolding m_def by (rule fold_cong) (simp_all add: words)
    then show ?thesis using assms(2) len by (subst write_words_ok) auto
  qed
  then have "handle_write_multiple_registers checks tid u data st =
      (Ret (Some (build_response tid u (answer_body (WriteMany a vs) []))), st\<lparr>holding_registers := m\<rparr>)"
    using heads K B len
    by (simp add: handle_write_multiple_registers_def Let_def WRITE_MULTIPLE_REGISTERS_def K_def [symmetric])
  moreover have "m b = (if a \<le> b \<and> unat b - unat a < length vs then Some (vs ! (unat b - unat a))
       else holding_registers st b)" for b
    unfolding m_def using assms(2) by (subst fold_store) auto
  ultimately show ?thesis by (rule that)
qed

lemma process_op:
  assumes "op_ok op"
  obtains st' where
    "process_request checks tid u (op_body op) st =
       (Ret (Some (build_response tid u (answer_body op (fst (memory_step op (memory_of st)))))), st')"
    "memory_of st' = snd (memory_step op (memory_of st))"
proof (cases op)
  case (WriteOne a v)
  have "process_request checks tid u (op_body op) st =
      (Ret (Some (build_response tid u (answer_body op []))),
       st\<lparr>holding_registers := (holding_registers st)(a \<mapsto> v)\<rparr>)"
    by (simp add: WriteOne request_defs to_be_bytes_def Let_def)
  then show ?thesis using memory_of_write by (intro that) (simp_all add: WriteOne)
next
  case (ReadMany a k)
  have k: "unat (word_of_nat k :: u16) = k" using assms by (simp add: ReadMany small_word)
  have "read_words checks (holding_registers st) a [0..<k] =
      Ret (concat (map to_be_bytes (map (\<lambda>i. memory_of st (a + word_of_nat i)) [0..<k])))"
    unfolding memory_of_def using assms by (intro read_words_ok) (auto simp: ReadMany)
  then have "process_request checks tid u (op_body op) st =
      (Ret (Some (build_response tid u (answer_body op (fst (memory_step op (memory_of st)))))), st)"
    using assms by (simp add: ReadMany request_defs to_be_bytes_def Let_def k mult.commute)
  then show ?thesis by (intro that) (simp_all add: ReadMany)
next
  case (WriteMany a vs)
  obtain m where m:
    "handle_write_multiple_registers checks tid u (tl (op_body (WriteMany a vs))) st =
       (Ret (Some (build_response tid u (answer_body (WriteMany a vs) []))), st\<lparr>holding_registers := m\<rparr>)"
    "\<And>b. m b = (if a \<le> b \<and> unat b - unat a < length vs then Some (vs ! (unat b - unat a))
       else holding_registers st b)"
    using write_many [of vs a checks tid u st] assms by (auto simp: WriteMany)
  have "process_request checks tid u (op_body op) st =
      (Ret (Some (build_response tid u (answer_body op []))), st\<lparr>holding_registers := m\<rparr>)"
    using m(1) by (simp add: WriteMany process_request_def READ_HOLDING_REGISTERS_def READ_INPUT_REGISTERS_def
        WRITE_SINGLE_REGISTER_def WRITE_MULTIPLE_REGISTERS_def)
  moreover have "memory_of (st\<lparr>holding_registers := m\<rparr>) = store_block a vs (memory_of st)"
    by (auto simp: memory_of_def store_block_def m(2) fun_eq_iff word_le_nat_alt)
  ultimately show ?thesis by (intro that) (simp_all add: WriteMany)
qed

text \<open>The operations of a client, each with its transaction and unit id, on the memory.\<close>

fun serve_ops :: "(u16 \<times> u8 \<times> register_op) list \<Rightarrow> (u16 \<Rightarrow> u16) \<Rightarrow> u8 list \<times> (u16 \<Rightarrow> u16)" where
  "serve_ops [] mem = ([], mem)"
| "serve_ops ((tid, u, op) # ops) mem =
     (let (r, mem1) = memory_step op mem; (bytes, mem') = serve_ops ops mem1
      in (build_response tid u (answer_body op r) @ bytes, mem'))"

definition request_bytes :: "(u16 \<times> u8 \<times> register_op) list \<Rightarrow> u8 list" where
  "request_bytes ops = concat (map (\<lambda>(tid, u, op). build_response tid u (op_body op)) ops)"

subsection \<open>Packed bits\<close>

lemma pack_byte_bits:
  assumes "\<forall>j \<in> set js. j < 8" and "\<forall>j < count. unat start + j < 65536"
  shows "\<exists>b. pack_byte checks m start count i js v = Ret b \<and>
     (\<forall>j < 8. bit b j \<longleftrightarrow> bit v j \<or> j \<in> set js \<and> i * 8 + j < count \<and> m (start + word_of_nat (i * 8 + j)) = Some True)"
  using assms(1)
proof (induction js arbitrary: v)
  case (Cons j js)
  show ?case
  proof (cases "i * 8 + j < count")
    case True
    let ?a = "start + word_of_nat (i * 8 + j)"
    let ?v = "if m ?a = Some True then v OR push_bit j 1 else v"
    have "address_at checks start (i * 8 + j) = Ret ?a" using True assms(2) by (intro address_at_ok) blast
    moreover obtain b where b: "pack_byte checks m start count i js ?v = Ret b"
      "\<forall>k < 8. bit b k \<longleftrightarrow> bit ?v k \<or> k \<in> set js \<and> i * 8 + k < count \<and> m (start + word_of_nat (i * 8 + k)) = Some True"
      using Cons.IH [of ?v] Cons.prems by auto
    moreover have "bit ?v k \<longleftrightarrow> bit v k \<or> (k = j \<and> m ?a = Some True)" if "k < 8" for k
      using that by (auto simp: bit_simps)
    ultimately show ?thesis using True by (auto simp: Let_def)
  next
    case False
    with Cons.IH [of v] Cons.prems show ?thesis by (auto simp: Let_def)
  qed
qed auto

lemma pack_bytes_bits:
  assumes "\<forall>j < count. unat start + j < 65536"
  shows "\<exists>bs. pack_bytes checks m start count is = Ret bs \<and> length bs = length is \<and>
     (\<forall>k < length is. \<forall>j < 8. bit (bs ! k) j \<longleftrightarrow>
        is ! k * 8 + j < count \<and> m (start + word_of_nat (is ! k * 8 + j)) = Some True)"
proof (induction "is")
  case (Cons i "is")
  obtain bs where bs: "pack_bytes checks m start count is = Ret bs" "length bs = length is"
    "\<forall>k < length is. \<forall>j < 8. bit (bs ! k) j \<longleftrightarrow>
        is ! k * 8 + j < count \<and> m (start + word_of_nat (is ! k * 8 + j)) = Some True"
    using Cons.IH by blast
  obtain b where b: "pack_byte checks m start count i [0..<8] 0 = Ret b"
    "\<forall>j < 8. bit b j \<longleftrightarrow> i * 8 + j < count \<and> m (start + word_of_nat (i * 8 + j)) = Some True"
    using pack_byte_bits [of "[0..<8]" count start checks m i 0] assms by auto
  have "\<forall>k < length (i # is). \<forall>j < 8. bit ((b # bs) ! k) j \<longleftrightarrow>
        (i # is) ! k * 8 + j < count \<and> m (start + word_of_nat ((i # is) ! k * 8 + j)) = Some True"
  proof (intro allI impI)
    fix k j :: nat
    assume "k < length (i # is)" "j < 8"
    then show "bit ((b # bs) ! k) j \<longleftrightarrow>
        (i # is) ! k * 8 + j < count \<and> m (start + word_of_nat ((i # is) ! k * 8 + j)) = Some True"
      using b(2) bs(3) by (cases k) auto
  qed
  with b(1) bs(1,2) show ?case by simp
qed simp

subsection \<open>Connections\<close>

lemma serve_ops_connection:
  "\<forall>(tid, u, op) \<in> set ops. op_ok op \<Longrightarrow> \<not> mx_poisoned mx \<Longrightarrow> length ops < n \<Longrightarrow>
     \<exists>mx'. mock_handle_connection checks n (request_bytes ops) mx = (fst (serve_ops ops (memory_of (mx_state mx))), Broken, mx') \<and>
       memory_of (mx_state mx') = snd (serve_ops ops (memory_of (mx_state mx))) \<and> \<not> mx_poisoned mx'"
proof (induction ops arbitrary: n mx)
  case Nil
  then obtain k where "n = Suc k" by (cases n) auto
  then show ?case using Nil by (simp add: request_bytes_def turn_empty)
next
  case (Cons q ops)
  obtain tid u op where q: "q = (tid, u, op)" by (cases q)
  obtain k where n: "n = Suc k" "length ops < k" using Cons.prems(3) by (cases n) auto
  let ?st = "(mx_state mx)\<lparr>request_count := request_count (mx_state mx) + 1\<rparr>"
  have ok: "op_ok op" and mem: "memory_of ?st = memory_of (mx_state mx)"
    using Cons.prems(1) q by (auto simp: memory_of_def fun_eq_iff)
  obtain st' where p: "process_request checks tid u (op_body op) ?st =
      (Ret (Some (build_response tid u (answer_body op (fst (memory_step op (memory_of ?st)))))), st')"
    and st': "memory_of st' = snd (memory_step op (memory_of ?st))"
    by (rule process_op [OF ok])
  have "\<forall>(tid, u, op) \<in> set ops. op_ok op" using Cons.prems(1) by auto
  from Cons.IH [OF this _ n(2), of "mx\<lparr>mx_state := st'\<rparr>"] Cons.prems(2)
  obtain mx' where "mock_handle_connection checks k (request_bytes ops) (mx\<lparr>mx_state := st'\<rparr>) =
      (fst (serve_ops ops (memory_of st')), Broken, mx')"
    "memory_of (mx_state mx') = snd (serve_ops ops (memory_of st'))" "\<not> mx_poisoned mx'" by auto
  moreover have "request_bytes (q # ops) = build_response tid u (op_body op) @ request_bytes ops"
    by (simp add: request_bytes_def q)
  ultimately show ?case
    using turn_request [OF length_op_body [OF ok] Cons.prems(2) p, of "request_bytes ops"] st' mem
    by (simp add: n(1) q split_beta)
qed

lemma poisoned_silent: "mx_poisoned mx \<Longrightarrow> fst (mock_handle_connection checks n input mx) = [] \<and>
    snd (snd (mock_handle_connection checks n input mx)) = mx"
  using turn_poisoned by (induction n arbitrary: input)
    (fastforce simp: split_beta Let_def split: sum.splits)+

section \<open>Properties\<close>

text \<open>The holding registers implement a memory of words: a connection on which a client sends any
  sequence of framed writes and reads within the address space answers each with the frame that carries
  its ids and what the memory returns, in order, and leaves the memory the operations leave.\<close>

theorem server_refines_memory:
  assumes "\<forall>(tid, u, op) \<in> set ops. op_ok op" and "\<not> mx_poisoned mx" and "length ops < n"
  shows "\<exists>mx'. mock_handle_connection checks n (request_bytes ops) mx =
       (fst (serve_ops ops (memory_of (mx_state mx))), Broken, mx') \<and>
     memory_of (mx_state mx') = snd (serve_ops ops (memory_of (mx_state mx))) \<and> \<not> mx_poisoned mx'"
  by (rule serve_ops_connection [OF assms])

theorem server_refines_memory_witness:
  "drop 12 (fst (mock_handle_connection True 3
     (request_bytes [(1, 9, WriteMany 10 [7, 8]), (2, 9, ReadMany 10 2)]) \<lparr>mx_state = mock_state_new, mx_poisoned = False\<rparr>))
   = [0, 2, 0, 0, 0, 7, 9, 3, 4, 0, 7, 0, 8]"
proof -
  let ?ops = "[(1, 9, WriteMany 10 [7, 8]), (2, 9, ReadMany 10 2)] :: (u16 \<times> u8 \<times> register_op) list"
  have "\<forall>(tid, u, op) \<in> set ?ops. op_ok op" by simp
  from server_refines_memory [OF this, of "\<lparr>mx_state = mock_state_new, mx_poisoned = False\<rparr>" 3 True]
  have "fst (mock_handle_connection True 3 (request_bytes ?ops) \<lparr>mx_state = mock_state_new, mx_poisoned = False\<rparr>)
      = fst (serve_ops ?ops (memory_of mock_state_new))" by auto
  moreover have "drop 12 (fst (serve_ops ?ops (memory_of mock_state_new))) = [0, 2, 0, 0, 0, 7, 9, 3, 4, 0, 7, 0, 8]"
    by code_simp
  ultimately show ?thesis by simp
qed

text \<open>A read of coils within the address space returns them packed eight to a byte, the first in the
  lowest bit, with the rest of the last byte clear.\<close>

theorem coils_are_packed:
  assumes "unat start + unat count \<le> 65536"
  shows "\<exists>bytes. handle_read_coils checks tid u (to_be_bytes start @ to_be_bytes count) st =
       Ret (Some (build_response tid u ([READ_COILS, word_of_nat (length bytes)] @ bytes))) \<and>
     length bytes = (unat count + 7) div 8 \<and>
     (\<forall>i < 8 * length bytes. bit (bytes ! (i div 8)) (i mod 8) \<longleftrightarrow>
        i < unat count \<and> coils st (start + word_of_nat i) = Some True)"
proof -
  let ?n = "(unat count + 7) div 8"
  obtain bs where bs: "pack_bytes checks (coils st) start (unat count) [0..<?n] = Ret bs" "length bs = ?n"
    "\<forall>k < ?n. \<forall>j < 8. bit (bs ! k) j \<longleftrightarrow>
        k * 8 + j < unat count \<and> coils st (start + word_of_nat (k * 8 + j)) = Some True"
    using pack_bytes_bits [of "unat count" start checks "coils st" "[0..<?n]"] assms by auto
  have "bit (bs ! (i div 8)) (i mod 8) \<longleftrightarrow> i < unat count \<and> coils st (start + word_of_nat i) = Some True"
    if "i < 8 * ?n" for i
  proof -
    have "i div 8 < ?n" "i mod 8 < 8" "i div 8 * 8 + i mod 8 = i" using that by (auto simp: less_mult_imp_div_less mult.commute)
    with bs(3) show ?thesis by metis
  qed
  moreover have "handle_read_coils checks tid u (to_be_bytes start @ to_be_bytes count) st =
      Ret (Some (build_response tid u ([READ_COILS, word_of_nat ?n] @ bs)))"
    using bs(1) by (simp add: handle_read_coils_def read_bits_def to_be_bytes_def Let_def)
  ultimately show ?thesis using bs(2) by (intro exI [of _ bs]) simp
qed

theorem coils_are_packed_witness:
  "\<exists>bytes. handle_read_coils True 5 1 (to_be_bytes 20 @ to_be_bytes 9)
       (mock_state_new\<lparr>coils := [20 \<mapsto> True, 28 \<mapsto> True]\<rparr>) =
     Ret (Some (build_response 5 1 ([READ_COILS, word_of_nat (length bytes)] @ bytes))) \<and> length bytes = 2"
  using coils_are_packed [of 20 9 True 5 1 "mock_state_new\<lparr>coils := [20 \<mapsto> True, 28 \<mapsto> True]\<rparr>"] by auto

text \<open>C38: With overflow checks on, one read that runs past the last register ends its connection without an
  answer and poisons the lock: from then on no request of any connection is answered.\<close>

theorem one_request_silences_server:
  assumes "\<not> mx_poisoned mx"
  shows "let (sent, ending, mx') =
       mock_handle_connection True (Suc n) (build_response tid u [0x03, 0xFF, 0xFF, 0x00, 0x02] @ rest) mx
     in sent = [] \<and> ending = Panicked \<and> (\<forall>checks k input. fst (mock_handle_connection checks k input mx') = [])"
proof -
  let ?st = "(mx_state mx)\<lparr>request_count := request_count (mx_state mx) + 1\<rparr>"
  have "address_at True 0xFFFF 1 = Panic" by (simp add: address_at_def)
  then have "read_words True m 0xFFFF [0..<2] = Panic" for m
    by (cases "address_at True 0xFFFF 0") (simp_all add: upt_rec)
  moreover have "from_be_bytes 0xFF 0xFF = 0xFFFF" "from_be_bytes 0x00 0x02 = 2" by code_simp+
  ultimately have "process_request True tid u [0x03, 0xFF, 0xFF, 0x00, 0x02] ?st = (Panic, ?st)"
    by (simp add: request_defs Let_def)
  from turn_request [OF _ assms this, of rest] poisoned_silent show ?thesis
    by simp
qed

theorem one_request_silences_server_witness:
  "fst (mock_handle_connection True 1 (build_response 1 1 [0x03, 0xFF, 0xFF, 0x00, 0x02])
     \<lparr>mx_state = mock_state_new, mx_poisoned = False\<rparr>) = []"
  using one_request_silences_server [of "\<lparr>mx_state = mock_state_new, mx_poisoned = False\<rparr>" 0 1 1 "[]"]
  by (simp add: Let_def split_beta)

end
