(* ===== verification/Mock_Program.thy ===== *)
theory Mock_Program
  imports Mock_Server Transition_System "HOL-Library.Sublist"
begin

text \<open>
  \<open>demo/mock_server.rs\<close> as a program: the port, \<open>MockModbusServer::start\<close>, the accept loop, a thread for
  each connection, \<open>stop\<close>.  The threads share the state behind its lock, so a round of a connection is
  one step of a transition system; the bytes a client sends are all there from the start.

  The registers the program sets itself through \<open>set_holding_register\<close> are history of the system.

  The lemmas show that however the connections interleave, the clients see one memory, which is made of
  their operations and the program's and nothing else.
\<close>

section \<open>Starting\<close>

definition mock_port :: "string option \<Rightarrow> u16 outcome" where
  "mock_port env =
     (case parse_unsigned 65535 (case env of Some s \<Rightarrow> s | None \<Rightarrow> ''5555'') of
        Some p \<Rightarrow> Ret (word_of_nat p)
      | None \<Rightarrow> Panic)"

text \<open>The server with its lock, its port and the connections that arrive at it; \<open>mc_open\<close> says that a
  connection has been accepted.\<close>

record mock_conn =
  mc_input :: "u8 list"
  mc_sent :: "u8 list"
  mc_open :: bool
  mc_end :: "connection_end option"

record mock_server =
  ms_port :: u16
  ms_running :: bool
  ms_mutex :: mock_mutex
  ms_conns :: "mock_conn list"
  ms_sets :: "(u16 \<times> u16) list"

definition client_arrives :: "u8 list \<Rightarrow> mock_conn" where
  "client_arrives input = \<lparr>mc_input = input, mc_sent = [], mc_open = False, mc_end = None\<rparr>"

text \<open>\<open>start\<close>: the port 0 makes the system choose one, so the port is what the listener says.\<close>

definition mock_started :: "u16 \<Rightarrow> u8 list list \<Rightarrow> mock_server" where
  "mock_started actual_port inputs =
     \<lparr>ms_port = actual_port, ms_running = True, ms_mutex = \<lparr>mx_state = mock_state_new, mx_poisoned = False\<rparr>,
      ms_conns = map client_arrives inputs, ms_sets = []\<rparr>"

definition mock_server_start :: "(u16 \<Rightarrow> 'e + u16) \<Rightarrow> u16 \<Rightarrow> u8 list list \<Rightarrow> 'e + mock_server" where
  "mock_server_start listen port inputs =
     (case listen port of
        Inl e \<Rightarrow> Inl e
      | Inr actual_port \<Rightarrow> Inr (mock_started actual_port inputs))"

text \<open>The setters take the lock for each call; its poison makes \<open>unwrap\<close> panic.  The sum of the address and
  the index of \<open>set_holding_registers\<close> is checked or wraps, and a panic there poisons the lock.\<close>

definition set_register_locked :: "u16 \<Rightarrow> u16 \<Rightarrow> mock_mutex \<Rightarrow> mock_mutex outcome" where
  "set_register_locked a v mx =
     (if mx_poisoned mx then Panic else Ret (mx\<lparr>mx_state := set_holding_register a v (mx_state mx)\<rparr>))"

fun set_words :: "bool \<Rightarrow> u16 \<Rightarrow> nat \<Rightarrow> u16 list \<Rightarrow> mock_state \<Rightarrow> unit outcome \<times> mock_state" where
  "set_words checks start i [] st = (Ret (), st)"
| "set_words checks start i (v # vs) st =
     (case address_at checks start i of
        Panic \<Rightarrow> (Panic, st)
      | Ret a \<Rightarrow> set_words checks start (Suc i) vs (set_holding_register a v st))"

definition set_holding_registers :: "bool \<Rightarrow> u16 \<Rightarrow> u16 list \<Rightarrow> mock_mutex \<Rightarrow> unit outcome \<times> mock_mutex" where
  "set_holding_registers checks start vs mx =
     (if mx_poisoned mx then (Panic, mx)
      else let (r, st) = set_words checks start 0 vs (mx_state mx)
           in (r, \<lparr>mx_state = st, mx_poisoned = (r = Panic)\<rparr>))"

text \<open>\<open>main\<close> up to its endless loop; here no connection is served before the data are there, which the
  transition system below does not assume.\<close>

definition mock_main :: "(u16 \<Rightarrow> 'e + u16) \<Rightarrow> string option \<Rightarrow> u8 list list \<Rightarrow> ('e + mock_server) outcome" where
  "mock_main listen env inputs =
     bind_outcome (mock_port env) (\<lambda>port.
       case mock_server_start listen port inputs of
         Inl e \<Rightarrow> Ret (Inl e)
       | Inr s \<Rightarrow> Ret (Inr (s\<lparr>ms_mutex := (ms_mutex s)\<lparr>mx_state := init_demo_data (mx_state (ms_mutex s))\<rparr>\<rparr>)))"

section \<open>Running\<close>

definition mock_stop :: "mock_server \<Rightarrow> mock_server" where
  "mock_stop s = s\<lparr>ms_running := False\<rparr>"

definition accept_conn :: "nat \<Rightarrow> mock_server \<Rightarrow> mock_server" where
  "accept_conn i s = s\<lparr>ms_conns := (ms_conns s)[i := (ms_conns s ! i)\<lparr>mc_open := True\<rparr>]\<rparr>"

text \<open>A round of the loop of connection \<open>i\<close>, which ends it when the server is not running.\<close>

definition conn_round :: "bool \<Rightarrow> nat \<Rightarrow> mock_server \<Rightarrow> mock_server" where
  "conn_round checks i s =
     (let c = ms_conns s ! i in
      if \<not> ms_running s then s\<lparr>ms_conns := (ms_conns s)[i := c\<lparr>mc_end := Some Stopped\<rparr>]\<rparr>
      else case mock_turn checks (mc_input c) (ms_mutex s) of
             (sent, Inl ending, mx) \<Rightarrow>
               s\<lparr>ms_conns := (ms_conns s)[i := c\<lparr>mc_sent := mc_sent c @ sent, mc_end := Some ending\<rparr>], ms_mutex := mx\<rparr>
           | (sent, Inr input, mx) \<Rightarrow>
               s\<lparr>ms_conns := (ms_conns s)[i := c\<lparr>mc_sent := mc_sent c @ sent, mc_input := input\<rparr>], ms_mutex := mx\<rparr>)"

inductive mock_step :: "bool \<Rightarrow> mock_server \<Rightarrow> mock_server \<Rightarrow> bool" for checks where
  accepted: "ms_running s \<Longrightarrow> i < length (ms_conns s) \<Longrightarrow> mock_step checks s (accept_conn i s)"
| served: "i < length (ms_conns s) \<Longrightarrow> mc_open (ms_conns s ! i) \<Longrightarrow> mc_end (ms_conns s ! i) = None \<Longrightarrow>
    mock_step checks s (conn_round checks i s)"
| data_set: "set_register_locked a v (ms_mutex s) = Ret mx \<Longrightarrow>
    mock_step checks s (s\<lparr>ms_mutex := mx, ms_sets := ms_sets s @ [(a, v)]\<rparr>)"
| stopped: "mock_step checks s (mock_stop s)"

section \<open>One memory\<close>

text \<open>A log has the operations of the clients and the registers set by the program, in the order in which
  they took the lock: which entries are a client's own, which are the program's, what a client is
  answered, and the memory they make.\<close>

type_synonym client_op = "u16 \<times> u8 \<times> register_op"
type_synonym log_entry = "(nat \<times> client_op) + (u16 \<times> u16)"

fun own_ops :: "nat \<Rightarrow> log_entry list \<Rightarrow> client_op list" where
  "own_ops i [] = []"
| "own_ops i (Inl (j, q) # log) = (if j = i then [q] else []) @ own_ops i log"
| "own_ops i (Inr av # log) = own_ops i log"

fun log_sets :: "log_entry list \<Rightarrow> (u16 \<times> u16) list" where
  "log_sets [] = []"
| "log_sets (Inl e # log) = log_sets log"
| "log_sets (Inr av # log) = av # log_sets log"

fun of_client :: "nat \<Rightarrow> log_entry \<Rightarrow> bool" where
  "of_client n (Inl (j, q)) \<longleftrightarrow> j < n"
| "of_client n (Inr av) \<longleftrightarrow> True"

fun log_answers :: "nat \<Rightarrow> log_entry list \<Rightarrow> (u16 \<Rightarrow> u16) \<Rightarrow> u8 list" where
  "log_answers i [] mem = []"
| "log_answers i (Inl (j, tid, u, op) # log) mem =
     (let (r, mem') = memory_step op mem
      in (if j = i then build_response tid u (answer_body op r) else []) @ log_answers i log mem')"
| "log_answers i (Inr (a, v) # log) mem = log_answers i log (mem(a := v))"

fun log_memory :: "log_entry list \<Rightarrow> (u16 \<Rightarrow> u16) \<Rightarrow> (u16 \<Rightarrow> u16)" where
  "log_memory [] mem = mem"
| "log_memory (Inl (j, tid, u, op) # log) mem = log_memory log (snd (memory_step op mem))"
| "log_memory (Inr (a, v) # log) mem = log_memory log (mem(a := v))"

lemma log_entry_cases:
  obtains j tid u op where "e = (Inl (j, tid, u, op) :: log_entry)" | a v where "e = Inr (a, v)"
  by (cases e) auto

lemma log_memory_append: "log_memory (log @ log') mem = log_memory log' (log_memory log mem)"
proof (induction log arbitrary: mem)
  case (Cons e log)
  then show ?case by (cases e rule: log_entry_cases) (simp_all add: fun_upd_def)
qed simp

lemma log_answers_append:
  "log_answers i (log @ log') mem = log_answers i log mem @ log_answers i log' (log_memory log mem)"
proof (induction log arbitrary: mem)
  case (Cons e log)
  then show ?case by (cases e rule: log_entry_cases) (simp_all add: split_beta fun_upd_def)
qed simp

lemma own_ops_append: "own_ops i (log @ log') = own_ops i log @ own_ops i log'"
  by (induction i log rule: own_ops.induct) simp_all

lemma log_sets_append: "log_sets (log @ log') = log_sets log @ log_sets log'"
  by (induction log rule: log_sets.induct) simp_all

definition ops_ok :: "client_op list \<Rightarrow> bool" where
  "ops_ok ops \<longleftrightarrow> list_all (\<lambda>(tid, u, op). op_ok op) ops"

text \<open>A connection has been answered its own operations of the log and has the rest of them to send.\<close>

definition conn_follows :: "client_op list \<Rightarrow> nat \<Rightarrow> log_entry list \<Rightarrow> (u16 \<Rightarrow> u16) \<Rightarrow> mock_conn \<Rightarrow> bool" where
  "conn_follows ops i log mem c \<longleftrightarrow>
     (\<exists>rest. ops = own_ops i log @ rest \<and> mc_input c = request_bytes rest) \<and> mc_sent c = log_answers i log mem"

definition log_explains :: "client_op list list \<Rightarrow> (u16 \<Rightarrow> u16) \<Rightarrow> mock_server \<Rightarrow> log_entry list \<Rightarrow> bool" where
  "log_explains clients mem s log \<longleftrightarrow>
     memory_of (mx_state (ms_mutex s)) = log_memory log mem \<and> log_sets log = ms_sets s \<and>
     list_all (of_client (length clients)) log \<and>
     (\<forall>i < length clients. conn_follows (clients ! i) i log mem (ms_conns s ! i))"

definition mock_inv :: "client_op list list \<Rightarrow> (u16 \<Rightarrow> u16) \<Rightarrow> mock_server \<Rightarrow> bool" where
  "mock_inv clients mem s \<longleftrightarrow>
     length (ms_conns s) = length clients \<and> \<not> mx_poisoned (ms_mutex s) \<and> (\<exists>log. log_explains clients mem s log)"

lemma memory_of_new: "memory_of mock_state_new = (\<lambda>_. 0)"
  by (simp add: memory_of_def mock_state_new_def fun_eq_iff)

lemma mock_inv_start: "mock_inv clients (\<lambda>_. 0) (mock_started port (map request_bytes clients))"
  unfolding mock_inv_def log_explains_def
  by (intro conjI exI [of _ "[]"])
     (simp_all add: mock_started_def conn_follows_def client_arrives_def memory_of_new)

lemma mock_inv_set:
  assumes inv: "mock_inv clients mem s" and set: "set_register_locked a v (ms_mutex s) = Ret mx"
  shows "mock_inv clients mem (s\<lparr>ms_mutex := mx, ms_sets := ms_sets s @ [(a, v)]\<rparr>)"
proof -
  obtain log where log: "log_explains clients mem s log"
    using inv unfolding mock_inv_def by blast
  let ?log = "log @ [Inr (a, v)]"
  have mx: "mx = (ms_mutex s)\<lparr>mx_state := set_holding_register a v (mx_state (ms_mutex s))\<rparr>"
    using set by (simp add: set_register_locked_def split: if_splits)
  have "memory_of (mx_state mx) = log_memory ?log mem"
    using log memory_of_write [of "mx_state (ms_mutex s)" a v]
    by (simp add: mx set_holding_register_def log_memory_append log_explains_def)
  moreover have "conn_follows (clients ! i) i ?log mem (ms_conns s ! i)" if "i < length clients" for i
    using log that by (auto simp: conn_follows_def own_ops_append log_answers_append log_explains_def)
  ultimately have "log_explains clients mem (s\<lparr>ms_mutex := mx, ms_sets := ms_sets s @ [(a, v)]\<rparr>) ?log"
    using log by (simp add: log_explains_def log_sets_append)
  then show ?thesis using inv mx unfolding mock_inv_def by (simp, blast)
qed

lemma mock_inv_update:
  assumes inv: "mock_inv clients mem s" and i: "i < length clients"
    and c: "\<And>log. conn_follows (clients ! i) i log mem (ms_conns s ! i) \<Longrightarrow> conn_follows (clients ! i) i log mem c"
  shows "mock_inv clients mem (s\<lparr>ms_conns := (ms_conns s)[i := c]\<rparr>)"
proof -
  obtain log where log: "log_explains clients mem s log"
    using inv unfolding mock_inv_def by blast
  then have "\<forall>j < length clients. conn_follows (clients ! j) j log mem ((ms_conns s)[i := c] ! j)"
    using inv c i by (simp add: mock_inv_def log_explains_def nth_list_update)
  with log have "log_explains clients mem (s\<lparr>ms_conns := (ms_conns s)[i := c]\<rparr>) log"
    by (simp add: log_explains_def)
  with inv show ?thesis unfolding mock_inv_def by auto
qed

lemma mock_inv_round:
  assumes inv: "mock_inv clients mem s" and ok: "list_all ops_ok clients" and i: "i < length (ms_conns s)"
  shows "mock_inv clients mem (conn_round checks i s)"
proof (cases "ms_running s")
  case False
  with inv i show ?thesis
    by (simp add: conn_round_def Let_def) (rule mock_inv_update, simp_all add: mock_inv_def conn_follows_def)
next
  case run: True
  let ?c = "ms_conns s ! i"
  have i': "i < length clients" using inv i by (simp add: mock_inv_def)
  obtain log where log: "memory_of (mx_state (ms_mutex s)) = log_memory log mem"
    "\<forall>j < length clients. conn_follows (clients ! j) j log mem (ms_conns s ! j)"
    "log_sets log = ms_sets s" "list_all (of_client (length clients)) log"
    and np: "\<not> mx_poisoned (ms_mutex s)"
    using inv unfolding mock_inv_def log_explains_def by blast
  from log(2) i' obtain rest where rest: "clients ! i = own_ops i log @ rest" "mc_input ?c = request_bytes rest"
    "mc_sent ?c = log_answers i log mem" by (auto simp: conn_follows_def)
  show ?thesis
  proof (cases rest)
    case Nil
    then have "mc_input ?c = []" using rest by (simp add: request_bytes_def)
    then have "conn_round checks i s = s\<lparr>ms_conns := (ms_conns s)[i := ?c\<lparr>mc_end := Some Broken\<rparr>]\<rparr>"
      using run by (simp add: conn_round_def turn_empty Let_def)
    then show ?thesis using mock_inv_update [OF inv i', of "?c\<lparr>mc_end := Some Broken\<rparr>"]
      by (simp add: conn_follows_def)
  next
    case (Cons q rest')
    obtain tid u op where q: "q = (tid, u, op)" by (cases q)
    have "ops_ok (clients ! i)" using ok i' by (simp add: list_all_length)
    then have op: "op_ok op" by (simp add: rest(1) Cons q ops_ok_def)
    let ?st = "(mx_state (ms_mutex s))\<lparr>request_count := request_count (mx_state (ms_mutex s)) + 1\<rparr>"
    let ?r = "memory_step op (log_memory log mem)"
    have mem: "memory_of ?st = log_memory log mem" using log(1) by (auto simp: memory_of_def fun_eq_iff)
    obtain st' where p: "process_request checks tid u (op_body op) ?st =
        (Ret (Some (build_response tid u (answer_body op (fst ?r)))), st')"
      and st': "memory_of st' = snd ?r"
      using process_op [OF op, of checks tid u ?st] unfolding mem by blast
    have in': "mc_input ?c = build_response tid u (op_body op) @ request_bytes rest'"
      by (simp add: rest(2) Cons q request_bytes_def)
    let ?c' = "?c\<lparr>mc_sent := mc_sent ?c @ build_response tid u (answer_body op (fst ?r)), mc_input := request_bytes rest'\<rparr>"
    have round: "conn_round checks i s =
        s\<lparr>ms_conns := (ms_conns s)[i := ?c'], ms_mutex := (ms_mutex s)\<lparr>mx_state := st'\<rparr>\<rparr>"
      using run turn_request [OF length_op_body [OF op] np p, of "request_bytes rest'"]
      by (simp add: conn_round_def in' Let_def)
    let ?log = "log @ [Inl (i, q)]"
    have "conn_follows (clients ! j) j ?log mem ((ms_conns s)[i := ?c'] ! j)" if j: "j < length clients" for j
    proof (cases "j = i")
      case True
      then show ?thesis using rest i Cons
        by (simp add: conn_follows_def own_ops_append log_answers_append q split_beta)
    next
      case False
      with log(2) j show ?thesis
        by (auto simp: conn_follows_def own_ops_append log_answers_append q split_beta)
    qed
    moreover have "memory_of st' = log_memory ?log mem" by (simp add: log_memory_append q st')
    ultimately have "log_explains clients mem (conn_round checks i s) ?log"
      using log(3,4) i' by (simp add: round log_explains_def log_sets_append)
    then show ?thesis using inv np unfolding round mock_inv_def by auto
  qed
qed

lemma mock_inv_step:
  assumes "list_all ops_ok clients" and "mock_inv clients mem s" and "mock_step checks s s'"
  shows "mock_inv clients mem s'"
  using assms(3)
proof cases
  case (accepted i)
  with assms(2) show ?thesis
    by (simp add: accept_conn_def) (rule mock_inv_update, simp_all add: mock_inv_def conn_follows_def)
next
  case (served i)
  with mock_inv_round [OF assms(2,1)] show ?thesis by blast
next
  case (data_set a v mx)
  with mock_inv_set [OF assms(2)] show ?thesis by blast
next
  case stopped
  with assms(2) show ?thesis by (auto simp: mock_stop_def mock_inv_def log_explains_def)
qed

interpretation mock: invariant_system "mock_started port (map request_bytes clients)" "mock_step checks"
    "\<lambda>s. list_all ops_ok clients \<longrightarrow> mock_inv clients (\<lambda>_. 0) s"
  for port clients checks
  by unfold_locales (use mock_inv_start mock_inv_step in blast)+

section \<open>Property\<close>

text \<open>C18: However the threads of the connections, the accept loop and the setters interleave, there is one
  order of the operations carried out that explains all that is seen: its entries are, for each client,
  exactly the requests that have been read from its connection, in the client's order, and the registers
  the program has set, in that order, and no others; every client has been answered what one memory
  answers in that order, and the registers are that memory.\<close>

theorem clients_share_one_memory:
  assumes "mock_server_start listen port (map request_bytes clients) = Inr s0"
    and "list_all ops_ok clients" and "reachable s0 (mock_step checks) s"
  shows "\<exists>log. list_all (of_client (length clients)) log \<and> log_sets log = ms_sets s \<and>
     list_all (\<lambda>i. (\<exists>rest. clients ! i = own_ops i log @ rest \<and> mc_input (ms_conns s ! i) = request_bytes rest) \<and>
       mc_sent (ms_conns s ! i) = log_answers i log (\<lambda>_. 0)) [0..<length clients] \<and>
     memory_of (mx_state (ms_mutex s)) = log_memory log (\<lambda>_. 0)"
proof -
  obtain p where "s0 = mock_started p (map request_bytes clients)"
    using assms(1) by (auto simp: mock_server_start_def split: sum.splits)
  with mock.inv_reachable assms(2,3) have "mock_inv clients (\<lambda>_. 0) s" by blast
  then obtain log where "log_explains clients (\<lambda>_. 0) s log"
    unfolding mock_inv_def by blast
  then show ?thesis
    by (intro exI [of _ log]) (auto simp: list_all_iff conn_follows_def log_explains_def)
qed

text \<open>One client writes a register, another one reads it afterwards.\<close>

definition sample_clients :: "client_op list list" where
  "sample_clients = [[(1, 9, WriteOne 5 7)], [(2, 9, ReadMany 5 1)]]"

definition sample_accepted :: mock_server where
  "sample_accepted = accept_conn 1 (accept_conn 0 (mock_started 5555 (map request_bytes sample_clients)))"

lemma sample_rounds:
  "reachable (mock_started 5555 (map request_bytes sample_clients)) (mock_step True)
     (conn_round True 1 (conn_round True 0 sample_accepted))"
proof -
  let ?r = "reachable (mock_started 5555 (map request_bytes sample_clients)) (mock_step True)"
  have "?r (accept_conn 0 (mock_started 5555 (map request_bytes sample_clients)))"
    by (rule reachable.step [OF reachable.start], rule mock_step.accepted)
       (simp_all add: mock_started_def sample_clients_def)
  then have "?r sample_accepted" unfolding sample_accepted_def
    by (rule reachable.step, intro mock_step.accepted)
       (simp_all add: accept_conn_def mock_started_def sample_clients_def)
  then have "?r (conn_round True 0 sample_accepted)"
    by (rule reachable.step, intro mock_step.served) code_simp+
  then show ?thesis
    by (rule reachable.step, intro mock_step.served) code_simp+
qed

theorem clients_share_one_memory_witness:
  "\<exists>log. memory_of (mx_state (ms_mutex (conn_round True 1 (conn_round True 0 sample_accepted)))) = log_memory log (\<lambda>_. 0) \<and>
     list_all (of_client 2) log \<and> 
     (\<exists>rest. [(2, 9, ReadMany 5 1)] = own_ops 1 log @ rest \<and>
        mc_input (ms_conns (conn_round True 1 (conn_round True 0 sample_accepted)) ! 1) = request_bytes rest) \<and>
     mc_sent (ms_conns (conn_round True 1 (conn_round True 0 sample_accepted)) ! 1) = log_answers 1 log (\<lambda>_. 0)"
proof -
  let ?s = "conn_round True 1 (conn_round True 0 sample_accepted)"
  have start: "mock_server_start (\<lambda>p. (Inr p :: unit + u16)) 5555 (map request_bytes sample_clients)
      = Inr (mock_started 5555 (map request_bytes sample_clients))"
    by (simp add: mock_server_start_def)
  have ok: "list_all ops_ok sample_clients" by (simp add: sample_clients_def ops_ok_def)
  obtain log where log: "memory_of (mx_state (ms_mutex ?s)) = log_memory log (\<lambda>_. 0)"
    "list_all (of_client (length sample_clients)) log"
    "list_all (\<lambda>i. (\<exists>rest. sample_clients ! i = own_ops i log @ rest \<and> mc_input (ms_conns ?s ! i) = request_bytes rest) \<and>
       mc_sent (ms_conns ?s ! i) = log_answers i log (\<lambda>_. 0)) [0..<length sample_clients]"
    using clients_share_one_memory [OF start ok sample_rounds] by blast
  have "1 \<in> set [0..<length sample_clients]" by code_simp
  with log(3) have one: "(\<exists>rest. sample_clients ! 1 = own_ops 1 log @ rest \<and> mc_input (ms_conns ?s ! 1) = request_bytes rest) \<and>
      mc_sent (ms_conns ?s ! 1) = log_answers 1 log (\<lambda>_. 0)"
    unfolding list_all_iff by blast
  have two: "length sample_clients = 2" "sample_clients ! 1 = [(2, 9, ReadMany 5 1)]"
    by (simp_all add: sample_clients_def)
  show ?thesis
    by (intro exI [of _ log] conjI log(1) log(2) [unfolded two] one [unfolded two, THEN conjunct1]
        one [unfolded two, THEN conjunct2])
qed

end
