(* ===== verification/Log_Target.thy ===== *)
theory Log_Target
  imports Config
begin

text \<open>
  The logging set-up of \<open>src/main.rs\<close>: whether the log goes to the console or to a file, and the
  directory and the name of the file.  \<open>std::path::Path\<close> is modelled for Unix, as the components that
  \<open>Path::components\<close> gives: repeated separators and inner \<open>.\<close> are dropped.  The filter, the
  formatting and the writing belong to the tracing crates.  Creating the rolling appender panics when its
  file cannot be created, as the crate documents; whether it can is the parameter \<open>can_create\<close>.

  The lemmas show that a valid path is taken apart without loss.
\<close>

section \<open>Paths\<close>

datatype path_component = RootDir | CurDir | ParentDir | NormalComp string

text \<open>The pieces between the separators.\<close>

fun split_slash :: "string \<Rightarrow> string list" where
  "split_slash [] = [[]]"
| "split_slash (c # cs) =
     (if c = CHR ''/'' then [] # split_slash cs
      else case split_slash cs of p # ps \<Rightarrow> (c # p) # ps | [] \<Rightarrow> [[c]])"

fun parse_component :: "string \<Rightarrow> path_component list" where
  "parse_component s =
     (if s = [] \<or> s = ''.'' then [] else if s = ''..'' then [ParentDir] else [NormalComp s])"

definition path_components :: "string \<Rightarrow> path_component list" where
  "path_components p =
     (let pieces = split_slash p; rest = concat (map parse_component pieces)
      in if take 1 p = ''/'' then RootDir # rest
         else if take 1 pieces = [''.''] then CurDir # rest else rest)"

fun path_parent :: "path_component list \<Rightarrow> path_component list option" where
  "path_parent cs = (case rev cs of [] \<Rightarrow> None | RootDir # _ \<Rightarrow> None | _ # ds \<Rightarrow> Some (rev ds))"

fun path_file_name :: "path_component list \<Rightarrow> string option" where
  "path_file_name cs = (case rev cs of NormalComp name # _ \<Rightarrow> Some name | _ \<Rightarrow> None)"

section \<open>The log\<close>

datatype log_target = Console | LogFile bool "path_component list" string

definition log_setup ::
  "(bool \<Rightarrow> path_component list \<Rightarrow> string \<Rightarrow> bool) \<Rightarrow> logging \<Rightarrow> (string + log_target) outcome" where
  "log_setup can_create l =
     (if log_file l = [] then Ret (Inr Console)
      else let log_path = path_components (log_file l) in
        (case path_parent log_path of
           None \<Rightarrow> Ret (Inl (''Invalid log file path (no parent directory): '' @ log_file l))
         | Some parent \<Rightarrow>
             (case path_file_name log_path of
                None \<Rightarrow> Ret (Inl (''Invalid log file path (no file name): '' @ log_file l))
              | Some filename \<Rightarrow>
                  if can_create (log_daily_rotation l) parent filename
                  then Ret (Inr (LogFile (log_daily_rotation l) parent filename)) else Panic)))"

section \<open>Lemmas\<close>

lemma split_slash_nonempty: "split_slash p \<noteq> []"
  by (induction p) (simp_all split: list.split)

lemma split_slash_parts: "s \<in> set (split_slash p) \<Longrightarrow> CHR ''/'' \<notin> set s"
proof (induction p arbitrary: s)
  case (Cons c p)
  then show ?case
    by (cases "split_slash p") (auto split: if_splits)
qed simp

text \<open>A separator starts a new piece; a text without one is a piece.\<close>

lemma split_slash_append: "split_slash (p @ CHR ''/'' # q) = split_slash p @ split_slash q"
proof (induction p)
  case (Cons c p)
  then show ?case by (cases "split_slash p") (simp_all add: split_slash_nonempty)
qed simp

lemma split_slash_single: "CHR ''/'' \<notin> set p \<Longrightarrow> split_slash p = [p]"
  by (induction p) auto

lemma path_components_append:
  assumes "p \<noteq> []"
  shows "path_components (p @ CHR ''/'' # q) = path_components p @ concat (map parse_component (split_slash q))"
proof -
  obtain s ps where "split_slash p = s # ps" using split_slash_nonempty [of p] by (cases "split_slash p") simp_all
  moreover obtain c p' where "p = c # p'" using assms by (cases p) simp_all
  ultimately show ?thesis
    using split_slash_append [of p q] by (simp add: path_components_def Let_def del: split_slash.simps)
qed

lemma file_name_is_last: "path_file_name cs = Some name \<longleftrightarrow> (\<exists>ds. cs = ds @ [NormalComp name])"
proof (cases cs rule: rev_cases)
  case (snoc ds c)
  then show ?thesis by (cases c) auto
qed simp

lemma parent_is_rest: "path_parent (ds @ [NormalComp name]) = Some ds"
  by simp

text \<open>The error of a path that names no file.\<close>

definition bad_log_path :: "string \<Rightarrow> bool" where
  "bad_log_path p \<longleftrightarrow> p \<noteq> [] \<and> path_file_name (path_components p) = None"

text \<open>The file of the log, if it has one, can be created in its directory.\<close>

definition log_creatable :: "(bool \<Rightarrow> path_component list \<Rightarrow> string \<Rightarrow> bool) \<Rightarrow> logging \<Rightarrow> bool" where
  "log_creatable can_create l \<longleftrightarrow>
     (case path_file_name (path_components (log_file l)) of
        None \<Rightarrow> True
      | Some name \<Rightarrow> can_create (log_daily_rotation l) (butlast (path_components (log_file l))) name)"

lemma log_setup_ok:
  "(\<exists>t. log_setup can_create l = Ret (Inr t)) \<longleftrightarrow> \<not> bad_log_path (log_file l) \<and> log_creatable can_create l"
proof (cases "path_file_name (path_components (log_file l))")
  case (Some name)
  then obtain ds where "path_components (log_file l) = ds @ [NormalComp name]" using file_name_is_last by blast
  moreover from this have "log_file l \<noteq> []" by (auto simp: path_components_def)
  ultimately show ?thesis by (simp add: log_setup_def bad_log_path_def log_creatable_def)
qed (simp add: log_setup_def bad_log_path_def log_creatable_def Let_def split: option.split)

lemma log_setup_file:
  "log_setup can_create l = Ret (Inr (LogFile daily parent name)) \<longleftrightarrow>
     log_file l \<noteq> [] \<and> daily = log_daily_rotation l \<and> can_create daily parent name \<and>
     path_components (log_file l) = parent @ [NormalComp name]"
proof (cases "path_file_name (path_components (log_file l))")
  case (Some n)
  then obtain ds where "path_components (log_file l) = ds @ [NormalComp n]" using file_name_is_last by blast
  with Some show ?thesis by (cases daily; cases "log_daily_rotation l") (auto simp: log_setup_def)
next
  case None
  moreover from this have "path_components (log_file l) \<noteq> parent @ [NormalComp name]"
    using file_name_is_last by (metis option.distinct(1))
  ultimately show ?thesis by (auto simp: log_setup_def Let_def split: option.splits)
qed

text \<open>A file in a directory is logged to under its name, in that directory.\<close>

lemma log_setup_join:
  assumes "log_file l = dir @ CHR ''/'' # name" and "dir \<noteq> []"
    and "CHR ''/'' \<notin> set name" and "name \<notin> {[], ''.'', ''..''}"
    and "can_create (log_daily_rotation l) (path_components dir) name"
  shows "log_setup can_create l = Ret (Inr (LogFile (log_daily_rotation l) (path_components dir) name))"
  unfolding log_setup_file using assms by (simp add: path_components_append split_slash_single)

end
