(* ===== verification/Main_Program.thy ===== *)
theory Main_Program
  imports Modbus_Worker Log_Target "HOL-Library.Sublist"
begin

text \<open>
  \<open>src/main.rs\<close>: the start of the program with its errors, the workers it spawns, and with the filter
  each of them registers at the hub, which of them gets a message.  The supervisor that runs the
  workers, the signal handlers and the hub belong to the framework and are parameters, the hub as the
  function \<open>deliver\<close>, which picks among the subscribers of a message by the policy of
  \<open>#[data_delivery]\<close>.  \<open>docs/messaging\<close> says that \<open>always\<close> delivers to every subscriber and \<open>single\<close>
  to one of them; the laws of \<open>hub_delivery\<close> allow \<open>single\<close> any of its readings.

  The lemmas show when the program starts, given that the supervisor keeps the names of its tasks
  unique, and that a request to a device of a valid configuration is taken up by one worker at most,
  and by one if there is one device.
\<close>

section \<open>Start\<close>

datatype program_worker =
    WRpc | WHttp | WManager | WLoader | WLatency | WModbus device | WHeartbeat | WDataStream | WSse

definition main_workers :: "config \<Rightarrow> program_worker list" where
  "main_workers c =
     [WRpc, WHttp, WManager, WLoader, WLatency] @ map WModbus (cfg_devices c) @ [WHeartbeat]
       @ (if cfg_streams c = [] then [] else [WDataStream]) @ (if cfg_streams c = [] then [] else [WSse])"

text \<open>The name of \<open>#[worker_opts]\<close>, under which the supervisor runs the worker.\<close>

fun worker_name :: "program_worker \<Rightarrow> string" where
  "worker_name WRpc = ''rpc_server''"
| "worker_name WHttp = ''http_server''"
| "worker_name WManager = ''device_manager''"
| "worker_name WLoader = ''config_loader''"
| "worker_name WLatency = ''latency_monitor''"
| "worker_name (WModbus d) = ''modbus_worker''"
| "worker_name WHeartbeat = ''heartbeat''"
| "worker_name WDataStream = ''data_stream''"
| "worker_name WSse = ''sse_worker''"

text \<open>\<open>controller.spawn_worker(..)?\<close> for each worker; \<open>spawn\<close> is the framework's.\<close>

fun spawn_all :: "(program_worker \<Rightarrow> 's \<Rightarrow> 'e + 's) \<Rightarrow> program_worker list \<Rightarrow> 's \<Rightarrow> 'e + 's" where
  "spawn_all spawn [] s = Inr s"
| "spawn_all spawn (w # ws) s = try_result (spawn w s) (spawn_all spawn ws)"

datatype 'e main_error = LogPath string | Supervisor 'e

fun main_result :: "('x \<Rightarrow> 'e main_error) \<Rightarrow> 'x + 'a \<Rightarrow> 'e main_error + 'a" where
  "main_result f (Inl x) = Inl (f x)"
| "main_result f (Inr a) = Inr a"

text \<open>\<open>main\<close> up to \<open>controller.block()\<close>, with the workers that run and the supervisor.  A configuration
  that cannot be loaded is a panic.\<close>

definition main_start ::
  "(string \<Rightarrow> 'io + string) \<Rightarrow> (string \<Rightarrow> 'de + config) \<Rightarrow> (program_worker \<Rightarrow> 's \<Rightarrow> 'e + 's)
     \<Rightarrow> (bool \<Rightarrow> path_component list \<Rightarrow> string \<Rightarrow> bool) \<Rightarrow> ('s \<Rightarrow> 'e + 's) \<Rightarrow> 's
     \<Rightarrow> ('e main_error + program_worker list \<times> 's) outcome" where
  "main_start read_file parse_toml spawn can_create register_signals controller =
     bind_outcome (config_from_file read_file parse_toml ''config.toml'') (\<lambda>r.
       case r of
         Inl e \<Rightarrow> Panic
       | Inr c \<Rightarrow>
           map_outcome (\<lambda>log.
             try_result (main_result LogPath log) (\<lambda>_.
             try_result (main_result Supervisor (spawn_all spawn (main_workers c) controller)) (\<lambda>s.
             try_result (main_result Supervisor (register_signals s)) (\<lambda>s'. Inr (main_workers c, s')))))
             (log_setup can_create (cfg_logging c)))"

section \<open>Messages\<close>

text \<open>The filters of \<open>hub().register\<close>; the other workers do not register.\<close>

fun registered_for :: "program_worker \<Rightarrow> ('n, 'ch) message \<Rightarrow> bool" where
  "registered_for (WModbus d) (DeviceControl i p ps c r) = True"
| "registered_for (WModbus d) (ConfigUpdate c) = True"
| "registered_for WLatency (DeviceHeartbeat i t l) = True"
| "registered_for WDataStream (ConfigUpdate c) = True"
| "registered_for WSse (DataStreamUpdate i g v t l s) = True"
| "registered_for _ _ = False"

definition subscribers :: "program_worker list \<Rightarrow> ('n, 'ch) message \<Rightarrow> program_worker list" where
  "subscribers ws msg = filter (\<lambda>w. registered_for w msg) ws"

definition receivers ::
  "(data_delivery option \<Rightarrow> program_worker list \<Rightarrow> program_worker list) \<Rightarrow> program_worker list
     \<Rightarrow> ('n, 'ch) message \<Rightarrow> program_worker list" where
  "receivers deliver ws msg = deliver (delivery_policy msg) (subscribers ws msg)"


text \<open>A Modbus worker takes up the requests to its own device.\<close>

fun takes_up :: "('n, 'ch) message \<Rightarrow> program_worker \<Rightarrow> bool" where
  "takes_up msg (WModbus d) \<longleftrightarrow> message_request (dev_id d) msg \<noteq> None"
| "takes_up msg _ \<longleftrightarrow> False"

section \<open>Lemmas\<close>

lemma subscribers_main:
  "subscribers (main_workers c) msg =
     (case msg of
        DeviceControl i p ps k r \<Rightarrow> map WModbus (cfg_devices c)
      | ConfigUpdate j \<Rightarrow> map WModbus (cfg_devices c) @ (if cfg_streams c = [] then [] else [WDataStream])
      | DeviceHeartbeat i t l \<Rightarrow> [WLatency]
      | DataStreamUpdate i g v t l s \<Rightarrow> (if cfg_streams c = [] then [] else [WSse])
      | _ \<Rightarrow> [])"
  by (cases msg) (simp_all add: subscribers_def main_workers_def filter_map o_def)





lemma main_result_Inr [simp]: "main_result f r = Inr x \<longleftrightarrow> r = Inr x"
  by (cases r) simp_all


text \<open>The documented behaviour of the supervisor: it starts a task unless it runs one of that name.\<close>

definition unique_task_names :: "(program_worker \<Rightarrow> 's \<Rightarrow> 'e + 's) \<Rightarrow> ('s \<Rightarrow> string set) \<Rightarrow> bool" where
  "unique_task_names spawn names \<longleftrightarrow>
     (\<forall>w s. case spawn w s of
        Inl e \<Rightarrow> worker_name w \<in> names s
      | Inr s' \<Rightarrow> worker_name w \<notin> names s \<and> names s' = insert (worker_name w) (names s))"

lemma spawn_all_ok:
  assumes "unique_task_names spawn names"
  shows "(\<exists>s'. spawn_all spawn ws s = Inr s') \<longleftrightarrow>
     distinct (map worker_name ws) \<and> worker_name ` set ws \<inter> names s = {}"
proof (induction ws arbitrary: s)
  case (Cons w ws)
  show ?case
  proof (cases "spawn w s")
    case (Inl e)
    with assms have "worker_name w \<in> names s" by (auto simp: unique_task_names_def split: sum.splits)
    with Inl show ?thesis by simp
  next
    case (Inr s1)
    with assms have "worker_name w \<notin> names s" "names s1 = insert (worker_name w) (names s)"
      by (auto simp: unique_task_names_def split: sum.splits)
    with Inr Cons.IH [of s1] show ?thesis by auto
  qed
qed simp

lemma main_names_distinct: "distinct (map worker_name (main_workers c)) \<longleftrightarrow> length (cfg_devices c) \<le> 1"
proof (cases "cfg_devices c")
  case (Cons d ds)
  then show ?thesis by (cases ds) (simp_all add: main_workers_def)
qed (simp add: main_workers_def)

section \<open>Properties\<close>


text \<open>With two devices, a hub that hands the request to one subscriber may choose the wrong one, which
  drops it.\<close>

definition first_subscriber :: "data_delivery option \<Rightarrow> program_worker list \<Rightarrow> program_worker list" where
  "first_subscriber policy subs = (if policy = Some Single then take 1 subs else subs)"


lemma single_delivery_can_lose_request:
  assumes "cfg_devices c = [d, d']" and "dev_id d \<noteq> dev_id d'"
  shows "filter (takes_up (DeviceControl (dev_id d') p ps k r))
     (receivers first_subscriber (main_workers c) (DeviceControl (dev_id d') p ps k r)) = []"
  using assms by (simp add: receivers_def subscribers_main first_subscriber_def)

text \<open>A supervisor that keeps the names of its tasks.\<close>

definition sample_spawn :: "program_worker \<Rightarrow> string list \<Rightarrow> string + string list" where
  "sample_spawn w names =
     (if worker_name w \<in> set names then Inl (worker_name w) else Inr (worker_name w # names))"

lemma sample_spawn_unique: "unique_task_names sample_spawn set"
  by (simp add: unique_task_names_def sample_spawn_def)

definition sample_main_config :: "string list \<Rightarrow> config" where
  "sample_main_config ids = config_default\<lparr>cfg_devices := map (\<lambda>i. sample_device i []) ids\<rparr>"

lemma sample_main_config_loads:
  "distinct ids \<Longrightarrow> config_from_file (\<lambda>p. Inr ''f'') (\<lambda>s. Inr (sample_main_config ids)) ''config.toml''
      = (Ret (Inr (sample_main_config ids)) :: ((unit, unit) config_error + config) outcome)"
  unfolding config_from_file_ok_iff
  by (simp add: config_ok_def config_default_def sample_device_def sample_main_config_def o_def)



text \<open>C14: Given a supervisor that refuses a task exactly when it runs one of that name, and signal handlers
  that can be registered, a valid configuration starts the program exactly when the log path, if any,
  names a file that can be created, and there is at most one device: all Modbus workers have the same
  name, and the second is refused.\<close>

theorem program_starts_iff:
  assumes "unique_task_names spawn names" and "names controller = {}"
    and "\<And>s. \<exists>s'. register_signals s = Inr s'"
    and "config_from_file read_file parse_toml ''config.toml'' = Ret (Inr c)"
  shows "(\<exists>ws s'. main_start read_file parse_toml spawn can_create register_signals controller = Ret (Inr (ws, s'))) \<longleftrightarrow>
     \<not> bad_log_path (log_file (cfg_logging c)) \<and> log_creatable can_create (cfg_logging c) \<and>
     length (cfg_devices c) \<le> 1"
proof -
  have "(\<exists>ws s'. main_start read_file parse_toml spawn can_create register_signals controller = Ret (Inr (ws, s'))) \<longleftrightarrow>
      (\<exists>t. log_setup can_create (cfg_logging c) = Ret (Inr t)) \<and>
      (\<exists>s'. spawn_all spawn (main_workers c) controller = Inr s')"
    using assms(3) by (auto simp: main_start_def assms(4) map_outcome_eq_Ret)
  then show ?thesis
    using assms(2) spawn_all_ok [OF assms(1), of "main_workers c" controller]
    by (simp add: log_setup_ok main_names_distinct)
qed

theorem program_starts_iff_witness:
  "\<nexists>ws s'. main_start (\<lambda>p. Inr ''f'' :: unit + string)
     (\<lambda>s. Inr (sample_main_config [''a'', ''b'']) :: unit + config) sample_spawn (\<lambda>daily dir name. True) Inr []
     = Ret (Inr (ws, s'))"
  using program_starts_iff [OF sample_spawn_unique _ _ sample_main_config_loads [of "[''a'', ''b'']"], of "[]" Inr]
  by (simp add: sample_main_config_def)

end
