(* ===== verification/Spec2Isabelle.thy ===== *)
theory Spec2Isabelle
  imports Parsing Modbus_Operations Modbus_Worker Rpc_Connection Rpc_Worker Rpc_Pending Register_Demo Streaming
    Heartbeat Latency_Float Config_Reload Mock_Program Main_Program
begin

text \<open>
  A middleware between JSON-RPC/HTTP clients and Modbus devices, written in Rust on the \<open>roboplc\<close>
  framework.  Workers exchange messages over a hub.  A client's request reaches the hub through
  the RPC server; the Modbus worker of the addressed device turns it into a Modbus operation on the
  registers of a signal group, executes it on a pooled connection in a spawned task and answers.
  Other workers poll groups into a cache, watch the devices, reload the configuration and serve
  HTTP and server-sent events.

  \<^bold>\<open>Conventions.\<close>  Machine integers are words, with the overflow behaviour of the operation the code
  uses.  A \<open>String\<close> is its list of UTF-8 bytes.  A \<open>Result\<close> is a sum with the error on the left; a
  panic is the value \<open>Panic\<close> of the type \<open>outcome\<close>.  A \<open>HashMap\<close> or \<open>DashMap\<close> is a partial
  function, a JSON object a list of members sorted by key.  Mutable state is passed and returned;
  what the world does (the clock, the network, the Modbus driver, parsing of JSON and TOML text) is
  a parameter, and an effect on it threads a world value of type \<open>'w\<close>.  Logging is not modelled.

  \<^bold>\<open>Theories\<close> (each names its source file and what its lemmas show).

  \<^item> \<open>Prelude\<close>: words, outcomes, and the Rust string operations the sources use.
  \<^item> \<open>Transition_System\<close>: reachable states; the locales \<open>invariant_system\<close> and \<open>draining_system\<close>.
  \<^item> \<open>Float_Bits\<close>: \<open>f32\<close> and \<open>f64\<close> as bit patterns, and the casts between them and the integers;
    \<open>Float_Arith\<close>: the arithmetic of \<open>f64\<close>, rounded to nearest.
  \<^item> \<open>Json\<close>: \<open>serde_json\<close> values; the locale \<open>keyed_store\<close> is the interface of every map.
  \<^item> \<open>Config\<close>: \<open>src/config.rs\<close>, the configuration and its validation.
  \<^item> \<open>Config_Serde\<close>: the JSON of a configuration by the \<open>serde\<close> attributes of \<open>src/config.rs\<close>; the locale
    \<open>codec\<close> is the contract of a type that is written and read back.
  \<^item> \<open>Data_Conversion\<close>: \<open>src/data_conversion.rs\<close>, byte orders and field types.
  \<^item> \<open>Modbus_Operations\<close>: \<open>src/workers/modbus/operations.rs\<close>, register addresses.
  \<^item> \<open>Parsing\<close>: \<open>src/workers/modbus/parsing.rs\<close>, fields of a group from and into its registers.
  \<^item> \<open>Modbus_Types\<close>: \<open>src/workers/modbus/types.rs\<close>, back-off, adaptive timeout, and the operation
    queue with its lock-free counter; the locale \<open>capacity\<close> is the contract of such a counter.
  \<^item> \<open>Modbus_Client\<close>: \<open>src/workers/modbus/client.rs\<close>, the clients and the connection pool.
  \<^item> \<open>Messages\<close>: \<open>src/messages.rs\<close>, \<open>src/correlation.rs\<close> and the shared data of \<open>src/lib.rs\<close>.
  \<^item> \<open>Modbus_State\<close>, \<open>Modbus_Handler\<close>, \<open>Modbus_Worker\<close>: the files of these names under
    \<open>src/workers/modbus/\<close>; the last one composes the worker with its running tasks into a
    transition system, with the panic that ends the worker and the tasks its runtime discards then.
  \<^item> \<open>Rpc_Connection\<close>: \<open>src/workers/rpc/connection.rs\<close>, reading a request from a TCP stream.
  \<^item> \<open>Hub_Protection\<close>: \<open>src/hub_protection.rs\<close>, the send pool as a transition system of calls, threads
    and timeouts; the record \<open>hub_api\<close> is what the workers use of the hub, its channels and clocks.
  \<^item> \<open>Rpc_Handler\<close>, \<open>Rpc_Pending\<close>, \<open>Rpc_Server\<close>, \<open>Rpc_Worker\<close>: the methods with their JSON and the handler, the
    table of pending requests with its clean-up, the accept loop, and the thread that runs it, under
    \<open>src/workers/rpc/\<close>.
  \<^item> \<open>End_To_End\<close>: a remote call through the RPC handler, the hub and the Modbus worker to the registers
    of a device and back.
  \<^item> \<open>Device_States\<close>: \<open>src/workers/manager.rs\<close> and \<open>config_updater.rs\<close>, the table of device states.
  \<^item> \<open>Heartbeat\<close>, \<open>Latency_Monitor\<close>: \<open>src/workers/heartbeat_worker.rs\<close> and \<open>latency_monitor.rs\<close>;
    \<open>Latency_Float\<close>: the latency monitor with the rounding of its arithmetic.
  \<^item> \<open>Data_Stream\<close>, \<open>Sse\<close>, \<open>Http\<close>, \<open>Http_Server\<close>: \<open>src/workers/data_stream_worker.rs\<close>, \<open>sse_worker.rs\<close>
    and \<open>http_worker.rs\<close>, from polling a group to the cache, the event streams, the handlers of the HTTP
    interface and the server around them.
  \<^item> \<open>Monitoring\<close>: a poll through the hub and the Modbus worker to the registers of a device, and the HTTP
    answer with what it found; \<open>Streaming\<close>: the same poll to the event stream of a client.
  \<^item> \<open>Config_Loader\<close>, \<open>Config_Watch\<close>: \<open>src/workers/config_loader.rs\<close>, reloading the configuration, and the
    threads that watch the file as a transition system; \<open>Config_Reload\<close>: both with the JSON of \<open>Config_Serde\<close>.
  \<^item> \<open>Log_Target\<close>, \<open>Main_Program\<close>: \<open>src/main.rs\<close>, where the log goes, when the program starts, the workers
    that run and who receives which message.
  \<^item> \<open>Mock_Server\<close>: \<open>demo/mock_server.rs\<close>, the Modbus server of the demonstration, byte by byte;
    \<open>Mock_Program\<close>: its start, its accept loop and the threads of its connections as a transition system.
  \<^item> \<open>Demo_Client\<close>: \<open>demo/jsonrpc_client.rs\<close>, the requests of the demonstration client and what the server
    makes of them; \<open>Register_Demo\<close>: \<open>demo/register_rpc_demo.rs\<close>, the configuration, requests and registers
    of the script.

  \<^bold>\<open>How they interact.\<close>  \<open>hub_api\<close> is a parameter of \<open>Rpc_Handler\<close>, \<open>Data_Stream\<close>, \<open>Heartbeat\<close> and
  \<open>Config_Loader\<close>; \<open>End_To_End\<close> instantiates it with the Modbus worker, and \<open>Monitoring\<close>
  joins that with \<open>Data_Stream\<close> and \<open>Http_Server\<close>, \<open>Streaming\<close> with \<open>Sse\<close> as well.  \<open>Http\<close> reads what
  \<open>Data_Stream\<close> wrote into the cache and registers clients in the registry of \<open>Sse\<close>.  \<open>Config_Loader\<close> and
  \<open>Device_States\<close> are joined by the message \<open>ConfigUpdate\<close>, and \<open>Main_Program\<close> uses the validation of
  \<open>Config\<close> to show that a request has at most one addressee.

  \<^bold>\<open>Interfaces.\<close>  The locale \<open>keyed_store\<close> is interpreted by the JSON objects, the hash maps, the data
  cache and the table of device states; \<open>capacity\<close> by the counter of the operation queue; \<open>codec\<close>
  by every type of a configuration;
  \<open>draining_system\<close>, an \<open>invariant_system\<close> whose work its own steps can always finish, by the send pool,
  the RPC server and the watcher of the configuration, where the steps of the environment are a relation
  apart; the Modbus worker with its tasks and the demonstration server are \<open>invariant_system\<close>s.

  \<^bold>\<open>Bounds and fuel.\<close>  Loops that end are recursive functions with their measures: the scanner of a
  request on its bytes, the comparison of configurations on the size of the old value, the drain of
  the server on the time that is left.  Loops that run as long as the program runs are taken one
  round at a time, or a number of rounds \<open>n\<close> that the theorems leave free (\<open>heartbeat_run\<close>,
  \<open>mock_handle_connection\<close>, which states how large \<open>n\<close> must be).  Concurrent parts (the pool of
  connections, the queue counter, the send pool, the server, the event stream registry) are
  transition systems, and their theorems hold in every reachable state.

  \<^bold>\<open>Not modelled.\<close>  Logging; scheduling and the tokio and actix runtimes that carry the workers; the hub,
  the supervisor of the workers, the file watcher and the Modbus client library, which are parameters
  or steps of the environment, used by the laws their documentation states (\<open>unique_task_names\<close>,
  \<open>hub_delivery\<close>, \<open>payload_law\<close>); parsing and printing of JSON and TOML text; the rings of logged
  transactions and of device events, whose overflow only drops the oldest entry (the events pushed
  are modelled).  The format \<open>{:.2}\<close> of an \<open>f64\<close> in the
  events of the latency monitor is a parameter.  The server of the tests is test code.
\<close>

end
